(* ===== verification/Prelude.thy ===== *)
theory Prelude
  imports Complex_Main "HOL-Library.Word" "HOL-Library.Log_Nat" "HOL-Library.Code_Target_Nat"
begin

section \<open>Shared types, faults and machine integers\<close>

text \<open>
  What every component uses: the fixed-width integer types of \<^verbatim>\<open><cstdint>\<close>, the ways a C++ call can
  end without a value (an exception, \<^verbatim>\<open>exit(1)\<close>, behaviour the language leaves undefined), the
  sequencing of such calls, and C++ integer division. Signed 8-bit integers are \<open>8 word\<close> values
  read by \<open>sint\<close>; conversions to an integer type are \<open>word_of_int\<close>.
\<close>

type_synonym u8 = "8 word"
type_synonym i8 = "8 word"
type_synonym u16 = "16 word"
type_synonym u32 = "32 word"
type_synonym u64 = "64 word"
type_synonym byte = "8 word"

subsection \<open>Faults\<close>

text \<open>
  \<open>ParseError\<close>, \<open>TypeError n\<close> and \<open>OutOfRange\<close> are the exceptions of \<^verbatim>\<open>nlohmann::json\<close> and of
  \<^verbatim>\<open>std::map::at\<close>; \<open>Exited\<close> is \<^verbatim>\<open>exit(1)\<close> of a failed \<^verbatim>\<open>RCPLANE_ASSERT\<close>; \<open>Undefined\<close> is undefined
  behaviour: a floating value outside the target's range converted to an integer type, a null
  \<^verbatim>\<open>unique_ptr\<close> dereferenced, or a variable used after its scope has ended.
\<close>

datatype ub = FloatConversion | NullDereference | DanglingReference

datatype fault = ParseError | TypeError nat | OutOfRange | Exited | Undefined ub

type_synonym 'a res = "fault + 'a"

abbreviation res_bind :: "'a res \<Rightarrow> ('a \<Rightarrow> 'b res) \<Rightarrow> 'b res" where
  "res_bind r f \<equiv> case_sum Inl f r"

definition rcplane_assert :: "bool \<Rightarrow> unit res" where
  "rcplane_assert c = (if c then Inr () else Inl Exited)"

named_theorems res_simps \<open>equations that take a sequence of fallible calls apart\<close>

lemma res_bind_eq_Inr [res_simps]:
  "res_bind r f = Inr y \<longleftrightarrow> (\<exists>x. r = Inr x \<and> f x = Inr y)"
  by (cases r) auto

lemma res_bind_eq_Inl [res_simps]:
  "res_bind r f = Inl e \<longleftrightarrow> r = Inl e \<or> (\<exists>x. r = Inr x \<and> f x = Inl e)"
  by (cases r) auto

lemma res_bind_assoc: "res_bind (res_bind r f) g = res_bind r (\<lambda>x. res_bind (f x) g)"
  by (cases r) auto

lemma rcplane_assert_eq [res_simps]:
  "rcplane_assert c = Inr u \<longleftrightarrow> c" "rcplane_assert c = Inl e \<longleftrightarrow> \<not> c \<and> e = Exited"
  by (auto simp: rcplane_assert_def)

lemma rcplane_assert_True [simp]: "rcplane_assert True = Inr ()"
  and rcplane_assert_False [simp]: "rcplane_assert False = Inl Exited"
  by (simp_all add: rcplane_assert_def)

subsection \<open>C++ integer division\<close>

text \<open>Division of \<^verbatim>\<open>int\<close> truncates towards zero; Isabelle's \<open>div\<close> rounds down.\<close>

definition cdiv :: "int \<Rightarrow> int \<Rightarrow> int" where
  "cdiv a b = sgn a * sgn b * (\<bar>a\<bar> div \<bar>b\<bar>)"

lemma cdiv_nonneg: "0 \<le> a \<Longrightarrow> 0 < b \<Longrightarrow> cdiv a b = a div b"
  by (cases "a = 0") (auto simp: cdiv_def)

lemma cdiv_neg: "a < 0 \<Longrightarrow> 0 < b \<Longrightarrow> cdiv a b = - ((- a) div b)"
  by (auto simp: cdiv_def)

lemma cdiv_bound: "0 < b \<Longrightarrow> \<bar>cdiv a b\<bar> \<le> \<bar>a\<bar>"
proof -
  assume b: "0 < b"
  have "\<bar>a\<bar> div b \<le> \<bar>a\<bar> div 1" using b by (intro zdiv_mono2) auto
  then show ?thesis using b
    by (cases "0 \<le> a") (simp_all add: cdiv_nonneg cdiv_neg pos_imp_zdiv_nonneg_iff)
qed

subsection \<open>Machine words\<close>

lemma sint8_range: "- 128 \<le> sint (w :: 8 word)" "sint (w :: 8 word) \<le> 127"
  using sint_range_size[of w] by (simp_all add: word_size)

lemma uint8_range: "0 \<le> uint (w :: 8 word)" "uint (w :: 8 word) \<le> 255"
  using uint_bounded[of w] by simp_all

lemma sint_word_of_int8: "- 128 \<le> i \<Longrightarrow> i \<le> 127 \<Longrightarrow> sint (word_of_int i :: 8 word) = i"
  by (simp add: sint_sbintrunc' signed_take_bit_int_eq_self)

lemma uint_word_of_int8: "0 \<le> i \<Longrightarrow> i \<le> 255 \<Longrightarrow> uint (word_of_int i :: 8 word) = i"
  by (simp add: uint_word_of_int take_bit_int_eq_self)

end
