(* ===== verification/Ieee754.thy ===== *)
theory Ieee754
  imports Prelude
begin

section \<open>IEEE 754 binary floating point\<close>

text \<open>
  The \<^verbatim>\<open>float\<close> and \<^verbatim>\<open>double\<close> of the program, as the language gives them on the two targets
  (binary32 and binary64 on the SoM, binary32 for both on the AVR of the MCU). A value is NaN, an
  infinity, the negative zero, or a finite number given exactly as a rational; an operation is the
  exact rational operation followed by one rounding to the format, to nearest with ties to even.
  The first part is the rounding function on rationals and its laws (it is monotone, it fixes every
  number of the format, so it keeps every bound that is a number of the format); the second part is
  the arithmetic, the comparisons and the conversions. NaN payloads are not represented: a packet
  carries its floats as raw bits (theory \<open>Packet\<close>).
\<close>

subsection \<open>Formats and rounding\<close>

record format =
  prec :: nat   \<comment> \<open>bits of the significand, the hidden one included\<close>
  emax :: int   \<comment> \<open>largest exponent of a finite number\<close>

definition qmin :: "format \<Rightarrow> int" where
  \<comment> \<open>exponent of the least positive number, the quantum of the subnormal numbers\<close>
  "qmin F = 2 - emax F - int (prec F)"

definition binary32 :: format where
  "binary32 = \<lparr>prec = 24, emax = 127\<rparr>"

definition binary64 :: format where
  "binary64 = \<lparr>prec = 53, emax = 1023\<rparr>"

definition pow2 :: "int \<Rightarrow> rat" where
  "pow2 k = (if 0 \<le> k then 2 ^ nat k else 1 / 2 ^ nat (- k))"

text \<open>
  The definitions that follow pass intermediate results as arguments of small functions instead of
  binding them with \<open>let\<close>, so that the simplifier evaluates them once.
\<close>

fun ilog2_guess :: "rat \<Rightarrow> int \<Rightarrow> int" where
  "ilog2_guess r k = (if pow2 k \<le> r then k else k - 1)"

fun bitlen_diff :: "int \<times> int \<Rightarrow> int" where
  "bitlen_diff (n, d) = bitlen n - bitlen d"

definition ilog2 :: "rat \<Rightarrow> int" where
  \<comment> \<open>\<open>floor (log 2 r)\<close> of a positive \<open>r\<close>\<close>
  "ilog2 r = ilog2_guess r (bitlen_diff (quotient_of r))"

fun round_tie :: "int \<Rightarrow> rat \<Rightarrow> int" where
  "round_tie f d =
     (if d < 1 / 2 then f else if 1 / 2 < d then f + 1 else if even f then f else f + 1)"

definition round_even :: "rat \<Rightarrow> int" where
  "round_even x = round_tie \<lfloor>x\<rfloor> (x - of_int \<lfloor>x\<rfloor>)"

definition quantum :: "format \<Rightarrow> rat \<Rightarrow> int" where
  "quantum F r = max (ilog2 \<bar>r\<bar> - int (prec F - 1)) (qmin F)"

fun round_to :: "rat \<Rightarrow> rat \<Rightarrow> rat" where
  "round_to r g = of_int (round_even (r / g)) * g"

definition rnd :: "format \<Rightarrow> rat \<Rightarrow> rat" where
  "rnd F r = (if r = 0 then 0 else round_to r (pow2 (quantum F r)))"

definition representable :: "format \<Rightarrow> rat \<Rightarrow> bool" where
  \<comment> \<open>an integer of at most \<open>prec\<close> bits times a power of two, the overflow threshold aside\<close>
  "representable F r \<longleftrightarrow>
     (\<exists>m e. r = of_int m * pow2 e \<and> \<bar>m\<bar> < 2 ^ prec F \<and> qmin F \<le> e)"

subsection \<open>Powers of two\<close>

lemma pow2_pos [simp]: "0 < pow2 k" and pow2_nonneg [simp]: "0 \<le> pow2 k"
  and pow2_neq0 [simp]: "pow2 k \<noteq> 0" and pow2_0 [simp]: "pow2 0 = 1"
  by (auto simp: pow2_def)

lemma pow2_Suc: "pow2 (k + 1) = 2 * pow2 k"
proof (cases "0 \<le> k")
  case True
  then show ?thesis by (simp add: pow2_def nat_add_distrib)
next
  case False
  then have "nat (- k) = Suc (nat (- (k + 1)))" by simp
  with False show ?thesis by (auto simp: pow2_def)
qed

lemma pow2_add_nat: "pow2 (k + int n) = pow2 k * 2 ^ n"
proof (induction n)
  case 0
  show ?case by simp
next
  case (Suc n)
  then show ?case using pow2_Suc[of "k + int n"] by (simp add: algebra_simps)
qed

lemma pow2_add: "pow2 (a + b) = pow2 a * pow2 b"
proof (cases "0 \<le> b")
  case True
  then show ?thesis using pow2_add_nat[of a "nat b"] by (simp add: pow2_def[of b])
next
  case False
  then have "pow2 a = pow2 (a + b) * 2 ^ nat (- b)"
    using pow2_add_nat[of "a + b" "nat (- b)"] by simp
  with False show ?thesis by (simp add: pow2_def[of b])
qed

lemma pow2_diff: "pow2 (a - b) = pow2 a / pow2 b"
  using pow2_add[of "a - b" b] by (simp add: field_simps)

lemma pow2_of_nat: "pow2 (int n) = 2 ^ n"
  by (simp add: pow2_def)

lemma pow2_le:
  assumes "a \<le> b"
  shows "pow2 a \<le> pow2 b"
proof -
  have "pow2 a * 1 \<le> pow2 a * 2 ^ nat (b - a)" by (intro mult_left_mono) auto
  then show ?thesis using pow2_add_nat[of a "nat (b - a)"] assms by simp
qed

lemma pow2_less: "a < b \<Longrightarrow> pow2 a < pow2 b"
  using pow2_le[of "a + 1" b] pow2_Suc[of a] pow2_pos[of a] by linarith

lemma pow2_le_iff [simp]: "pow2 a \<le> pow2 b \<longleftrightarrow> a \<le> b"
  using pow2_le[of a b] pow2_less[of b a] by linarith

lemma pow2_less_iff [simp]: "pow2 a < pow2 b \<longleftrightarrow> a < b"
  using pow2_less[of a b] pow2_le[of b a] by linarith

lemma bitlen_pow2_bounds: "0 < n \<Longrightarrow> pow2 (bitlen n - 1) \<le> of_int n \<and> of_int n < pow2 (bitlen n)"
proof -
  assume n: "0 < n"
  then have b: "0 < bitlen n" using bitlen_nonneg[of n] bitlen_eq_zero_iff[of n] by linarith
  from bitlen_bounds[OF n] have "2 ^ nat (bitlen n - 1) \<le> n" "n < 2 ^ nat (bitlen n)" by auto
  then have "(of_int (2 ^ nat (bitlen n - 1)) :: rat) \<le> of_int n"
    "(of_int n :: rat) < of_int (2 ^ nat (bitlen n))" by (simp_all only: of_int_le_iff of_int_less_iff)
  with b show ?thesis by (simp add: pow2_def)
qed

lemma ilog2_bounds:
  assumes r: "0 < r"
  shows "pow2 (ilog2 r) \<le> r \<and> r < pow2 (ilog2 r + 1)"
proof -
  obtain n d where q: "quotient_of r = (n, d)" by force
  have d: "0 < d" using quotient_of_denom_pos[OF q] .
  have rr: "r = of_int n / of_int d" using quotient_of_div[OF q] .
  with r d have n: "0 < n" by (simp add: zero_less_divide_iff)
  let ?N = "of_int n :: rat" and ?D = "of_int d :: rat"
  have N: "pow2 (bitlen n - 1) \<le> ?N" "?N < pow2 (bitlen n)" using bitlen_pow2_bounds[OF n] by auto
  have D: "pow2 (bitlen d - 1) \<le> ?D" "?D < pow2 (bitlen d)" using bitlen_pow2_bounds[OF d] by auto
  have D0: "0 < ?D" using d by simp
  have "pow2 (bitlen n - bitlen d - 1) * ?D \<le> pow2 (bitlen n - bitlen d - 1) * pow2 (bitlen d)"
    using D by (intro mult_left_mono) auto
  also have "\<dots> = pow2 (bitlen n - 1)" by (simp flip: pow2_add)
  also have "\<dots> \<le> ?N" by (rule N)
  finally have lo: "pow2 (bitlen n - bitlen d - 1) \<le> r" using D0 by (simp add: rr field_simps)
  have "?N < pow2 (bitlen n - bitlen d + 1) * pow2 (bitlen d - 1)"
    using N by (simp flip: pow2_add)
  also have "\<dots> \<le> pow2 (bitlen n - bitlen d + 1) * ?D" using D by (intro mult_left_mono) auto
  finally have hi: "r < pow2 (bitlen n - bitlen d + 1)" using D0 by (simp add: rr field_simps)
  show ?thesis using lo hi by (auto simp: ilog2_def q)
qed

lemma ilog2_mono:
  assumes "0 < r" "r \<le> s"
  shows "ilog2 r \<le> ilog2 s"
proof -
  have "pow2 (ilog2 r) < pow2 (ilog2 s + 1)"
    using ilog2_bounds[of r] ilog2_bounds[of s] assms by linarith
  then show ?thesis by simp
qed

lemma ilog2_less:
  assumes "0 < r" "r < pow2 k"
  shows "ilog2 r < k"
proof -
  have "pow2 (ilog2 r) < pow2 k" using ilog2_bounds[of r] assms by linarith
  then show ?thesis by simp
qed

subsection \<open>Rounding to an integer\<close>

lemma round_even_of_int [simp]: "round_even (of_int n) = n"
  by (simp add: round_even_def)

lemma round_even_dist: "\<bar>of_int (round_even x) - x\<bar> \<le> 1 / 2"
  using floor_correct[of x] by (auto simp: round_even_def)

lemma round_even_mono:
  assumes "x \<le> y"
  shows "round_even x \<le> round_even y"
proof (cases "\<lfloor>x\<rfloor> = \<lfloor>y\<rfloor>")
  case True
  then show ?thesis using assms by (auto simp: round_even_def)
next
  case False
  with floor_mono[OF assms] have "\<lfloor>x\<rfloor> + 1 \<le> \<lfloor>y\<rfloor>" by simp
  moreover have "round_even x \<le> \<lfloor>x\<rfloor> + 1" "\<lfloor>y\<rfloor> \<le> round_even y"
    by (auto simp: round_even_def)
  ultimately show ?thesis by linarith
qed

lemma round_even_le: "x \<le> of_int n \<Longrightarrow> round_even x \<le> n"
  using round_even_mono[of x "of_int n"] by simp

lemma round_even_ge: "of_int n \<le> x \<Longrightarrow> n \<le> round_even x"
  using round_even_mono[of "of_int n" x] by simp

lemma round_even_minus: "round_even (- x) = - round_even x"
proof (cases "x \<in> \<int>")
  case True
  then obtain n where "x = of_int n" by (auto elim: Ints_cases)
  then show ?thesis using round_even_of_int[of n] round_even_of_int[of "- n"] by simp
next
  case False
  then have "x \<noteq> of_int \<lfloor>x\<rfloor>" using Ints_of_int by metis
  then have "\<lfloor>- x\<rfloor> = - \<lfloor>x\<rfloor> - 1" by (simp add: floor_minus ceiling_altdef)
  then show ?thesis by (auto simp: round_even_def)
qed

subsection \<open>Laws of the rounding function\<close>

lemma rnd_0 [simp]: "rnd F 0 = 0"
  by (simp add: rnd_def)

lemma quantum_minus [simp]: "quantum F (- r) = quantum F r"
  by (simp add: quantum_def)

lemma rnd_minus: "rnd F (- r) = - rnd F r"
  by (simp add: rnd_def round_even_minus)

lemma rnd_nonneg: "0 \<le> r \<Longrightarrow> 0 \<le> rnd F r"
  using round_even_ge[of 0 "r / pow2 (quantum F r)"] by (auto simp: rnd_def)

lemma rnd_le_grid:
  \<comment> \<open>an upper bound on the grid of \<open>r\<close>'s quantum stays an upper bound\<close>
  assumes "0 < r" "r \<le> pow2 k" "quantum F r \<le> k"
  shows "rnd F r \<le> pow2 k"
proof -
  let ?q = "quantum F r" and ?n = "2 ^ nat (k - quantum F r) :: int"
  have k: "pow2 k = of_int ?n * pow2 ?q"
    using pow2_add_nat[of ?q "nat (k - ?q)"] assms(3) by simp
  then have "r / pow2 ?q \<le> of_int ?n" using assms(2) by (simp add: field_simps)
  then have "round_even (r / pow2 ?q) \<le> ?n" by (rule round_even_le)
  then have "(of_int (round_even (r / pow2 ?q)) :: rat) \<le> of_int ?n" by (simp only: of_int_le_iff)
  then show ?thesis using assms(1) k by (simp add: rnd_def)
qed

lemma rnd_ge_grid:
  assumes "0 < r" "pow2 k \<le> r" "quantum F r \<le> k"
  shows "pow2 k \<le> rnd F r"
proof -
  let ?q = "quantum F r" and ?n = "2 ^ nat (k - quantum F r) :: int"
  have k: "pow2 k = of_int ?n * pow2 ?q"
    using pow2_add_nat[of ?q "nat (k - ?q)"] assms(3) by simp
  then have "of_int ?n \<le> r / pow2 ?q" using assms(2) by (simp add: field_simps)
  then have "?n \<le> round_even (r / pow2 ?q)" by (rule round_even_ge)
  then have "(of_int ?n :: rat) \<le> of_int (round_even (r / pow2 ?q))" by (simp only: of_int_le_iff)
  then show ?thesis using assms(1) k by (simp add: rnd_def)
qed

lemma rnd_mono_pos:
  assumes "0 < r" "r \<le> s"
  shows "rnd F r \<le> rnd F s"
proof (cases "quantum F r = quantum F s")
  case True
  have "round_even (r / pow2 (quantum F s)) \<le> round_even (s / pow2 (quantum F s))"
    using assms by (intro round_even_mono divide_right_mono) auto
  then have "(of_int (round_even (r / pow2 (quantum F s))) :: rat)
      \<le> of_int (round_even (s / pow2 (quantum F s)))" by (simp only: of_int_le_iff)
  with True assms show ?thesis by (simp add: rnd_def)
next
  case False
  have s: "0 < s" using assms by simp
  have lg: "ilog2 r \<le> ilog2 s" using assms by (rule ilog2_mono)
  with False assms s have "quantum F r < quantum F s" by (auto simp: quantum_def)
  then have q: "quantum F s \<le> ilog2 s" "quantum F r \<le> ilog2 s" "ilog2 r < ilog2 s"
    using assms s by (auto simp: quantum_def max_def split: if_splits)
  have "r \<le> pow2 (ilog2 r + 1)" using ilog2_bounds[OF assms(1)] by simp
  also have "\<dots> \<le> pow2 (ilog2 s)" using q(3) by simp
  finally have "rnd F r \<le> pow2 (ilog2 s)" using rnd_le_grid assms(1) q(2) by blast
  also have "\<dots> \<le> rnd F s" using ilog2_bounds[OF s] s q(1) by (intro rnd_ge_grid) auto
  finally show ?thesis .
qed

lemma rnd_mono: "r \<le> s \<Longrightarrow> rnd F r \<le> rnd F s"
proof -
  assume le: "r \<le> s"
  consider "0 < r" | "r \<le> 0" "0 \<le> s" | "s < 0" by linarith
  then show ?thesis
  proof cases
    case 1
    then show ?thesis using le by (rule rnd_mono_pos)
  next
    case 2
    then have "rnd F r \<le> 0" using rnd_nonneg[of "- r" F] by (simp add: rnd_minus)
    with 2 show ?thesis using rnd_nonneg[of s F] by linarith
  next
    case 3
    then have "rnd F (- s) \<le> rnd F (- r)" using le by (intro rnd_mono_pos) auto
    then show ?thesis by (simp add: rnd_minus)
  qed
qed

lemma representable_0 [simp]: "representable F 0"
  unfolding representable_def by (rule exI[of _ 0], rule exI[of _ "qmin F"]) simp

lemma representable_minus [simp]: "representable F (- r) \<longleftrightarrow> representable F r"
proof -
  have "representable F (- r)" if "representable F r" for r
    using that unfolding representable_def by (metis abs_minus minus_mult_left of_int_minus)
  from this[of r] this[of "- r"] show ?thesis by auto
qed

lemma rnd_representable:
  assumes "representable F r"
  shows "rnd F r = r"
proof (cases "r = 0")
  case False
  from assms obtain m e where r: "r = of_int m * pow2 e" "\<bar>m\<bar> < 2 ^ prec F" "qmin F \<le> e"
    unfolding representable_def by blast
  have "\<bar>r\<bar> = of_int \<bar>m\<bar> * pow2 e" by (simp add: r(1) abs_mult)
  also have "\<dots> < of_int (2 ^ prec F) * pow2 e"
    using r(2) by (intro mult_strict_right_mono) (simp_all only: of_int_less_iff pow2_pos)
  also have "\<dots> = pow2 (e + int (prec F))" by (simp add: pow2_add_nat mult.commute)
  finally have "ilog2 \<bar>r\<bar> < e + int (prec F)" using False by (intro ilog2_less) auto
  then have q: "quantum F r \<le> e" using r(3) by (auto simp: quantum_def)
  let ?n = "m * 2 ^ nat (e - quantum F r)"
  have "r = of_int ?n * pow2 (quantum F r)"
    using pow2_add_nat[of "quantum F r" "nat (e - quantum F r)"] q r(1) by (simp add: ac_simps)
  then have "r / pow2 (quantum F r) = of_int ?n" by (simp add: field_simps)
  then have "round_even (r / pow2 (quantum F r)) = ?n" by (simp only: round_even_of_int)
  with \<open>r = of_int ?n * pow2 (quantum F r)\<close> False show ?thesis by (simp add: rnd_def)
qed simp

lemma rnd_le: "representable F b \<Longrightarrow> r \<le> b \<Longrightarrow> rnd F r \<le> b"
  using rnd_mono[of r b F] rnd_representable[of F b] by simp

lemma rnd_ge: "representable F b \<Longrightarrow> b \<le> r \<Longrightarrow> b \<le> rnd F r"
  using rnd_mono[of b r F] rnd_representable[of F b] by simp

lemma rnd_abs_le: "representable F b \<Longrightarrow> \<bar>r\<bar> \<le> b \<Longrightarrow> \<bar>rnd F r\<bar> \<le> b"
  using rnd_le[of F b r] rnd_ge[of F "- b" r] by (auto simp: abs_le_iff)

lemma representable_int:
  assumes "\<bar>n\<bar> < 2 ^ prec F" "qmin F \<le> 0"
  shows "representable F (of_int n)"
  unfolding representable_def using assms by (intro exI[of _ n] exI[of _ 0]) simp

lemma rnd_error_quantum: "\<bar>rnd F r - r\<bar> \<le> pow2 (quantum F r) / 2"
proof (cases "r = 0")
  case False
  have "rnd F r - r
      = (of_int (round_even (r / pow2 (quantum F r))) - r / pow2 (quantum F r)) * pow2 (quantum F r)"
    using False by (simp add: rnd_def left_diff_distrib)
  then have "\<bar>rnd F r - r\<bar>
      = \<bar>of_int (round_even (r / pow2 (quantum F r))) - r / pow2 (quantum F r)\<bar> * pow2 (quantum F r)"
    by (simp add: abs_mult)
  also have "\<dots> \<le> 1 / 2 * pow2 (quantum F r)" using round_even_dist by (intro mult_right_mono) auto
  finally show ?thesis by simp
qed simp

lemma rnd_error:
  \<comment> \<open>below \<open>2 ^ prec\<close> the grid has steps of at most one\<close>
  assumes "\<bar>r\<bar> < 2 ^ prec F" "qmin F \<le> 0"
  shows "\<bar>rnd F r - r\<bar> \<le> 1 / 2"
proof (cases "r = 0")
  case False
  have "ilog2 \<bar>r\<bar> < int (prec F)" using assms(1) False by (intro ilog2_less) (auto simp: pow2_of_nat)
  then have "quantum F r \<le> 0" using assms(2) by (auto simp: quantum_def)
  then have "pow2 (quantum F r) \<le> 1" using pow2_le[of "quantum F r" 0] by simp
  then show ?thesis using rnd_error_quantum[of F r] by simp
qed simp

lemma rnd_error_pow2:
  assumes "\<bar>r\<bar> \<le> pow2 k" "qmin F \<le> k - int (prec F - 1)"
  shows "\<bar>rnd F r - r\<bar> \<le> pow2 (k - int (prec F - 1)) / 2"
proof (cases "r = 0")
  case False
  have "pow2 k < pow2 (k + 1)" by (rule pow2_less) simp
  then have "\<bar>r\<bar> < pow2 (k + 1)" using assms(1) by linarith
  then have "ilog2 \<bar>r\<bar> < k + 1" using False by (intro ilog2_less) auto
  then have "quantum F r \<le> k - int (prec F - 1)" using assms(2) by (auto simp: quantum_def)
  then have "pow2 (quantum F r) \<le> pow2 (k - int (prec F - 1))" by (rule pow2_le)
  then have "pow2 (quantum F r) / 2 \<le> pow2 (k - int (prec F - 1)) / 2" by (rule divide_right_mono) simp
  with rnd_error_quantum[of F r] show ?thesis by (rule order_trans)
qed simp

lemma representable_rnd:
  assumes "0 < prec F"
  shows "representable F (rnd F r)"
proof (cases "r = 0")
  case False
  let ?q = "quantum F r" and ?m = "round_even (r / pow2 (quantum F r))"
  have e: "rnd F r = of_int ?m * pow2 ?q" using False by (simp add: rnd_def)
  have q: "qmin F \<le> ?q" "ilog2 \<bar>r\<bar> + 1 \<le> ?q + int (prec F)"
    using assms by (auto simp: quantum_def of_nat_diff)
  have "\<bar>r\<bar> < pow2 (ilog2 \<bar>r\<bar> + 1)" using ilog2_bounds[of "\<bar>r\<bar>"] False by simp
  also have "\<dots> \<le> pow2 (?q + int (prec F))" using q(2) by (rule pow2_le)
  finally have r: "\<bar>r\<bar> \<le> pow2 ?q * of_int (2 ^ prec F)" by (simp add: pow2_add_nat)
  have "r / pow2 ?q \<le> of_int (2 ^ prec F)" "of_int (- (2 ^ prec F)) \<le> r / pow2 ?q"
    using r by (simp_all add: field_simps abs_le_iff)
  then have m: "?m \<le> 2 ^ prec F" "- (2 ^ prec F) \<le> ?m" using round_even_le round_even_ge by blast+
  show ?thesis
  proof (cases "\<bar>?m\<bar> < 2 ^ prec F")
    case True
    with e q(1) show ?thesis unfolding representable_def by blast
  next
    case False
    then have "?m = 2 ^ prec F \<or> ?m = - (2 ^ prec F)" using m by linarith
    then have "rnd F r = of_int 1 * pow2 (?q + int (prec F)) \<or> rnd F r = of_int (- 1) * pow2 (?q + int (prec F))"
      unfolding e by (auto simp: pow2_add_nat)
    moreover have "\<bar>1 :: int\<bar> < 2 ^ prec F" "\<bar>- 1 :: int\<bar> < 2 ^ prec F" using assms by simp_all
    moreover have "qmin F \<le> ?q + int (prec F)" using q(1) by simp
    ultimately show ?thesis unfolding representable_def by blast
  qed
qed simp

lemma rnd_idem: "0 < prec F \<Longrightarrow> rnd F (rnd F r) = rnd F r"
  by (rule rnd_representable[OF representable_rnd])

subsection \<open>Floating-point values and their arithmetic\<close>

datatype fp = NaN | Inf bool | NegZero | Fin rat   \<comment> \<open>\<open>Inf True\<close> is minus infinity\<close>

fun is_fin :: "fp \<Rightarrow> bool" where
  "is_fin NaN = False"
| "is_fin (Inf s) = False"
| "is_fin _ = True"

fun fp_val :: "fp \<Rightarrow> rat" where
  "fp_val (Fin r) = r"
| "fp_val _ = 0"

fun fp_sign :: "fp \<Rightarrow> bool" where
  "fp_sign (Fin r) = (r < 0)"
| "fp_sign (Inf s) = s"
| "fp_sign NegZero = True"
| "fp_sign NaN = False"

fun pack_fp :: "format \<Rightarrow> bool \<Rightarrow> rat \<Rightarrow> fp" where
  \<comment> \<open>a rounded number as a value; an exponent above \<open>emax\<close> overflows to an infinity\<close>
  "pack_fp F s v =
     (if v = 0 then (if s then NegZero else Fin 0)
      else if emax F < ilog2 \<bar>v\<bar> then Inf (v < 0) else Fin v)"

definition round_fp :: "format \<Rightarrow> bool \<Rightarrow> rat \<Rightarrow> fp" where
  \<comment> \<open>round to the format; \<open>s\<close> is the sign of a zero result\<close>
  "round_fp F s r = pack_fp F s (rnd F r)"

definition fp_of_rat :: "format \<Rightarrow> rat \<Rightarrow> fp" where
  \<comment> \<open>the nearest number of the format: a decimal literal, or the result of an exact operation\<close>
  "fp_of_rat F r = round_fp F (r < 0) r"

fun fp_neg :: "fp \<Rightarrow> fp" where
  "fp_neg NaN = NaN"
| "fp_neg (Inf s) = Inf (\<not> s)"
| "fp_neg NegZero = Fin 0"
| "fp_neg (Fin r) = (if r = 0 then NegZero else Fin (- r))"

fun fp_add :: "format \<Rightarrow> fp \<Rightarrow> fp \<Rightarrow> fp" where
  "fp_add F NaN y = NaN"
| "fp_add F x NaN = NaN"
| "fp_add F (Inf s) (Inf t) = (if s = t then Inf s else NaN)"
| "fp_add F (Inf s) y = Inf s"
| "fp_add F x (Inf t) = Inf t"
| "fp_add F NegZero NegZero = NegZero"
| "fp_add F x y = fp_of_rat F (fp_val x + fp_val y)"

definition fp_sub :: "format \<Rightarrow> fp \<Rightarrow> fp \<Rightarrow> fp" where
  "fp_sub F x y = fp_add F x (fp_neg y)"

fun fp_mul :: "format \<Rightarrow> fp \<Rightarrow> fp \<Rightarrow> fp" where
  "fp_mul F NaN y = NaN"
| "fp_mul F x NaN = NaN"
| "fp_mul F (Inf s) y =
     (if is_fin y \<and> fp_val y = 0 then NaN else Inf (s \<noteq> fp_sign y))"
| "fp_mul F x (Inf t) = (if fp_val x = 0 then NaN else Inf (fp_sign x \<noteq> t))"
| "fp_mul F x y = round_fp F (fp_sign x \<noteq> fp_sign y) (fp_val x * fp_val y)"

fun fp_div :: "format \<Rightarrow> fp \<Rightarrow> fp \<Rightarrow> fp" where
  "fp_div F NaN y = NaN"
| "fp_div F x NaN = NaN"
| "fp_div F (Inf s) (Inf t) = NaN"
| "fp_div F (Inf s) y = Inf (s \<noteq> fp_sign y)"
| "fp_div F x (Inf t) = (if fp_sign x \<noteq> t then NegZero else Fin 0)"
| "fp_div F x y =
     (if fp_val y = 0 then if fp_val x = 0 then NaN else Inf (fp_sign x \<noteq> fp_sign y)
      else round_fp F (fp_sign x \<noteq> fp_sign y) (fp_val x / fp_val y))"

fun fp_less :: "fp \<Rightarrow> fp \<Rightarrow> bool" where
  "fp_less NaN y = False"
| "fp_less x NaN = False"
| "fp_less (Inf s) (Inf t) = (s \<and> \<not> t)"
| "fp_less (Inf s) y = s"
| "fp_less x (Inf t) = (\<not> t)"
| "fp_less x y = (fp_val x < fp_val y)"

fun fp_eq :: "fp \<Rightarrow> fp \<Rightarrow> bool" where
  \<comment> \<open>\<^verbatim>\<open>==\<close> of floats: NaN differs from everything, the two zeros are equal\<close>
  "fp_eq NaN y = False"
| "fp_eq x NaN = False"
| "fp_eq (Inf s) (Inf t) = (s = t)"
| "fp_eq (Inf s) y = False"
| "fp_eq x (Inf t) = False"
| "fp_eq x y = (fp_val x = fp_val y)"

subsection \<open>Conversions\<close>

definition fp_of_int :: "format \<Rightarrow> int \<Rightarrow> fp" where
  "fp_of_int F n = fp_of_rat F (of_int n)"

definition trunc_rat :: "rat \<Rightarrow> int" where
  "trunc_rat r = (if 0 \<le> r then \<lfloor>r\<rfloor> else - \<lfloor>- r\<rfloor>)"

definition fp_to_int :: "int \<Rightarrow> int \<Rightarrow> fp \<Rightarrow> int res" where
  \<comment> \<open>conversion to an integer type with values \<open>lo..hi\<close>: truncation, undefined out of range\<close>
  "fp_to_int lo hi x =
     (if is_fin x \<and> lo \<le> trunc_rat (fp_val x) \<and> trunc_rat (fp_val x) \<le> hi
      then Inr (trunc_rat (fp_val x)) else Inl (Undefined FloatConversion))"

definition fp_to_i8 :: "fp \<Rightarrow> i8 res" where
  "fp_to_i8 x = res_bind (fp_to_int (- 128) 127 x) (\<lambda>n. Inr (word_of_int n))"

definition fp_to_u8 :: "fp \<Rightarrow> u8 res" where
  "fp_to_u8 x = res_bind (fp_to_int 0 255 x) (\<lambda>n. Inr (word_of_int n))"

definition fp_to_u32 :: "fp \<Rightarrow> u32 res" where
  "fp_to_u32 x = res_bind (fp_to_int 0 4294967295 x) (\<lambda>n. Inr (word_of_int n))"

fun fp_of_fields32 :: "bool \<Rightarrow> int \<Rightarrow> int \<Rightarrow> fp" where
  \<comment> \<open>sign, biased exponent and fraction of a \<^verbatim>\<open>float\<close>\<close>
  "fp_of_fields32 s e f =
     (if e = 255 then (if f = 0 then Inf s else NaN)
      else if e = 0 then (if f = 0 \<and> s then NegZero
        else Fin ((if s then - 1 else 1) * of_int f * pow2 (- 149)))
      else Fin ((if s then - 1 else 1) * of_int (2 ^ 23 + f) * pow2 (e - 150)))"

definition fp_of_bits32 :: "u32 \<Rightarrow> fp" where
  \<comment> \<open>the value of a \<^verbatim>\<open>float\<close> object with these bits\<close>
  "fp_of_bits32 w =
     fp_of_fields32 (2 ^ 31 \<le> uint w) ((uint w div 2 ^ 23) mod 2 ^ 8) (uint w mod 2 ^ 23)"

subsection \<open>Laws of the arithmetic\<close>

named_theorems fp_laws \<open>values of operations whose exact result is within the format\<close>

lemma fp_val_neg [simp]: "fp_val (fp_neg x) = - fp_val x" "is_fin (fp_neg x) = is_fin x"
  by (cases x; simp)+

lemma round_fp_val:
  assumes "\<bar>r\<bar> \<le> c" "representable F c" "c < pow2 (emax F + 1)"
  shows "is_fin (round_fp F s r) \<and> fp_val (round_fp F s r) = rnd F r"
proof -
  have b: "\<bar>rnd F r\<bar> < pow2 (emax F + 1)" using rnd_abs_le[OF assms(2,1)] assms(3) by linarith
  have "\<not> emax F < ilog2 \<bar>rnd F r\<bar>" if "rnd F r \<noteq> 0" using ilog2_less[OF _ b] that by simp
  then show ?thesis by (auto simp: round_fp_def)
qed

lemma fp_add_val [fp_laws]:
  assumes "is_fin x" "is_fin y" "\<bar>fp_val x + fp_val y\<bar> \<le> c" "representable F c" "c < pow2 (emax F + 1)"
  shows "is_fin (fp_add F x y) \<and> fp_val (fp_add F x y) = rnd F (fp_val x + fp_val y)"
  using round_fp_val[OF assms(3-5)] assms(1,2) by (cases x; cases y; simp add: fp_of_rat_def)

lemma fp_sub_val [fp_laws]:
  assumes "is_fin x" "is_fin y" "\<bar>fp_val x - fp_val y\<bar> \<le> c" "representable F c" "c < pow2 (emax F + 1)"
  shows "is_fin (fp_sub F x y) \<and> fp_val (fp_sub F x y) = rnd F (fp_val x - fp_val y)"
  using fp_add_val[of x "fp_neg y" c F] assms by (simp add: fp_sub_def)

lemma fp_mul_val [fp_laws]:
  assumes "is_fin x" "is_fin y" "\<bar>fp_val x * fp_val y\<bar> \<le> c" "representable F c" "c < pow2 (emax F + 1)"
  shows "is_fin (fp_mul F x y) \<and> fp_val (fp_mul F x y) = rnd F (fp_val x * fp_val y)"
  using round_fp_val[OF assms(3-5)] assms(1,2) by (cases x; cases y; simp)

lemma fp_div_val [fp_laws]:
  assumes "is_fin x" "is_fin y" "fp_val y \<noteq> 0" "\<bar>fp_val x / fp_val y\<bar> \<le> c"
    "representable F c" "c < pow2 (emax F + 1)"
  shows "is_fin (fp_div F x y) \<and> fp_val (fp_div F x y) = rnd F (fp_val x / fp_val y)"
  using round_fp_val[OF assms(4-6)] assms(1-3) by (cases x; cases y; simp)

lemma fp_less_fin: "is_fin x \<Longrightarrow> is_fin y \<Longrightarrow> fp_less x y \<longleftrightarrow> fp_val x < fp_val y"
  by (cases x; cases y; simp)

lemma trunc_rat_le: "r < of_int n + 1 \<Longrightarrow> 0 \<le> n \<Longrightarrow> trunc_rat r \<le> n"
proof (cases "0 \<le> r")
  case False
  then have "0 \<le> \<lfloor>- r\<rfloor>" by (simp add: le_floor_iff)
  moreover assume "0 \<le> n"
  ultimately have "- \<lfloor>- r\<rfloor> \<le> n" by linarith
  with False show ?thesis by (simp add: trunc_rat_def)
qed (simp add: trunc_rat_def floor_le_iff)

lemma trunc_rat_minus: "trunc_rat (- r) = - trunc_rat r"
  by (auto simp: trunc_rat_def)

lemma trunc_rat_ge: "of_int n - 1 < r \<Longrightarrow> n \<le> 0 \<Longrightarrow> n \<le> trunc_rat r"
  using trunc_rat_le[of "- r" "- n"] by (simp add: trunc_rat_minus)

lemma trunc_rat_mono: "r \<le> s \<Longrightarrow> trunc_rat r \<le> trunc_rat s"
proof -
  assume le: "r \<le> s"
  show ?thesis
  proof (cases "0 \<le> r \<or> s < 0")
    case True
    then show ?thesis using le floor_mono[of r s] floor_mono[of "- s" "- r"]
      by (auto simp: trunc_rat_def)
  next
    case False
    then have "0 \<le> \<lfloor>s\<rfloor>" "0 \<le> \<lfloor>- r\<rfloor>" using le by (simp_all add: le_floor_iff)
    then have "- \<lfloor>- r\<rfloor> \<le> \<lfloor>s\<rfloor>" by linarith
    with False show ?thesis by (auto simp: trunc_rat_def)
  qed
qed

lemma trunc_rat_of_int [simp]: "trunc_rat (of_int n) = n"
  by (simp add: trunc_rat_def)

lemma fp_to_int_ok:
  "is_fin x \<Longrightarrow> of_int lo - 1 < fp_val x \<Longrightarrow> fp_val x < of_int hi + 1 \<Longrightarrow> lo \<le> 0 \<Longrightarrow> 0 \<le> hi
   \<Longrightarrow> fp_to_int lo hi x = Inr (trunc_rat (fp_val x))"
  using trunc_rat_ge[of lo "fp_val x"] trunc_rat_le[of "fp_val x" hi] by (simp add: fp_to_int_def)

end
