(* ===== verification/Config.thy ===== *)
theory Config
  imports Ieee754
begin

section \<open>Configuration: ConfigManager\<close>

text \<open>
  \<^verbatim>\<open>io/ConfigManager\<close> and the part of the vendored \<^verbatim>\<open>third_party/json/json.hpp\<close> it uses: JSON values,
  \<^verbatim>\<open>operator[]\<close> with a string key and the conversions of \<^verbatim>\<open>get<T>\<close> for the instantiated \<open>T\<close>. The
  file system, the JSON parser and printer and \<^verbatim>\<open>boost::split\<close> are parameters; the documented
  behaviour of the last one is \<open>split_ok\<close>, which determines it. The lemmas relate the walk of
  \<^verbatim>\<open>getValue\<close> to the plain lookup of a path and classify its failures.
\<close>

subsection \<open>JSON values\<close>

datatype json =
    JNull
  | JBoolean bool
  | JString string
  | JUnsigned u64
  | JInteger u64          \<comment> \<open>read by \<open>sint\<close>\<close>
  | JFloat fp
  | JArray "json list"
  | JObject "(string \<times> json) list"

fun json_index :: "json \<Rightarrow> string \<Rightarrow> json res" where
  \<comment> \<open>the value the returned reference holds: a missing key is inserted with a null value\<close>
  "json_index (JObject kvs) k = Inr (case map_of kvs k of None \<Rightarrow> JNull | Some v \<Rightarrow> v)"
| "json_index JNull k = Inr JNull"
| "json_index _ k = Inl (TypeError 305)"

fun get_string :: "json \<Rightarrow> string res" where
  "get_string (JString s) = Inr s"
| "get_string _ = Inl (TypeError 302)"

fun get_u32 :: "json \<Rightarrow> u32 res" where
  "get_u32 (JUnsigned n) = Inr (ucast n)"
| "get_u32 (JInteger n) = Inr (ucast n)"
| "get_u32 (JFloat x) = fp_to_u32 x"
| "get_u32 (JBoolean b) = Inr (if b then 1 else 0)"
| "get_u32 _ = Inl (TypeError 302)"

fun get_u8 :: "json \<Rightarrow> u8 res" where
  "get_u8 (JUnsigned n) = Inr (ucast n)"
| "get_u8 (JInteger n) = Inr (ucast n)"
| "get_u8 (JFloat x) = fp_to_u8 x"
| "get_u8 (JBoolean b) = Inr (if b then 1 else 0)"
| "get_u8 _ = Inl (TypeError 302)"

fun get_i8 :: "json \<Rightarrow> i8 res" where
  "get_i8 (JUnsigned n) = Inr (ucast n)"
| "get_i8 (JInteger n) = Inr (ucast n)"
| "get_i8 (JFloat x) = fp_to_i8 x"
| "get_i8 (JBoolean b) = Inr (if b then 1 else 0)"
| "get_i8 _ = Inl (TypeError 302)"

fun get_double :: "json \<Rightarrow> fp res" where
  "get_double (JUnsigned n) = Inr (fp_of_int binary64 (uint n))"
| "get_double (JInteger n) = Inr (fp_of_int binary64 (sint n))"
| "get_double (JFloat x) = Inr x"
| "get_double _ = Inl (TypeError 302)"

subsection \<open>Splitting a path\<close>

fun join_dots :: "string list \<Rightarrow> string" where
  "join_dots [] = []"
| "join_dots [p] = p"
| "join_dots (p # q # ps) = p @ CHR ''.'' # join_dots (q # ps)"

definition split_ok :: "(string \<Rightarrow> string list) \<Rightarrow> bool" where
  \<comment> \<open>\<^verbatim>\<open>boost::split\<close> at every dot, empty tokens kept\<close>
  "split_ok split \<longleftrightarrow>
     (\<forall>s. split s \<noteq> [] \<and> (\<forall>p \<in> set (split s). CHR ''.'' \<notin> set p) \<and> join_dots (split s) = s)"

fun cons_first :: "char \<Rightarrow> string list \<Rightarrow> string list" where
  "cons_first c [] = [[c]]"
| "cons_first c (p # ps) = (c # p) # ps"

fun split_dots :: "string \<Rightarrow> string list" where
  "split_dots [] = [[]]"
| "split_dots (c # cs) =
     (if c = CHR ''.'' then [] # split_dots cs else cons_first c (split_dots cs))"

lemma cons_first_nonempty [simp]: "cons_first c ps \<noteq> []"
  by (cases ps) auto

lemma split_dots_nonempty [simp]: "split_dots s \<noteq> []"
  by (cases s) auto

lemma join_cons_first: "ps \<noteq> [] \<Longrightarrow> join_dots (cons_first c ps) = c # join_dots ps"
  by (induction ps rule: join_dots.induct) auto

lemma join_Nil_first: "ps \<noteq> [] \<Longrightarrow> join_dots ([] # ps) = CHR ''.'' # join_dots ps"
  by (cases ps) auto

lemma join_split_dots: "join_dots (split_dots s) = s"
proof (induction s)
  case (Cons c s)
  then show ?case by (simp add: join_cons_first join_Nil_first)
qed simp

lemma split_dots_tokens: "p \<in> set (split_dots s) \<Longrightarrow> CHR ''.'' \<notin> set p"
proof (induction s arbitrary: p)
  case (Cons c s)
  obtain q qs where q: "split_dots s = q # qs" using split_dots_nonempty by (metis list.exhaust)
  then show ?case using Cons by (auto split: if_splits)
qed simp

lemma split_dots_ok: "split_ok split_dots"
  by (auto simp: split_ok_def join_split_dots split_dots_tokens)

lemma split_dots_append:
  "CHR ''.'' \<notin> set p \<Longrightarrow> split_dots (p @ CHR ''.'' # s) = p # split_dots s"
  by (induction p) auto

lemma split_dots_token: "CHR ''.'' \<notin> set p \<Longrightarrow> split_dots p = [p]"
  by (induction p) auto

lemma split_join_dots:
  "ps \<noteq> [] \<Longrightarrow> \<forall>p \<in> set ps. CHR ''.'' \<notin> set p \<Longrightarrow> split_dots (join_dots ps) = ps"
  by (induction ps rule: join_dots.induct) (auto simp: split_dots_append split_dots_token)

lemma split_ok_unique: "split_ok split \<Longrightarrow> split = split_dots"
  using split_join_dots unfolding split_ok_def by (metis ext)

subsection \<open>ConfigManager\<close>

record ConfigManager =
  m_json :: json
  m_configLoaded :: bool

definition new_ConfigManager :: ConfigManager where
  "new_ConfigManager = \<lparr>m_json = JNull, m_configLoaded = False\<rparr>"

definition k_defaultConfigPath :: string where
  "k_defaultConfigPath = ''configs/config.json''"

definition loadConfig ::
  "(string \<Rightarrow> string option) \<Rightarrow> (string \<Rightarrow> json option) \<Rightarrow> ConfigManager \<Rightarrow> string
   \<Rightarrow> bool res \<times> ConfigManager" where
  \<comment> \<open>\<open>fs\<close>: the readable files; \<open>parse\<close>: \<^verbatim>\<open>json::parse\<close>, \<open>None\<close> where it throws\<close>
  "loadConfig fs parse cm configPath =
     (case fs configPath of
        None \<Rightarrow> (Inr False, cm)
      | Some txt \<Rightarrow>
          (case parse txt of
             None \<Rightarrow> (Inl ParseError, cm)
           | Some j \<Rightarrow> (Inr True, cm\<lparr>m_json := j, m_configLoaded := True\<rparr>)))"

fun json_walk :: "json \<Rightarrow> string list \<Rightarrow> json res" where
  \<comment> \<open>the \<^verbatim>\<open>std::accumulate\<close> over the tokens\<close>
  "json_walk j [] = Inr j"
| "json_walk j (p # ps) = res_bind (json_index j p) (\<lambda>j'. json_walk j' ps)"

definition getValue ::
  "(string \<Rightarrow> string list) \<Rightarrow> (json \<Rightarrow> 'a res) \<Rightarrow> ConfigManager \<Rightarrow> string \<Rightarrow> 'a res" where
  "getValue split get cm jsonPath = res_bind (json_walk (m_json cm) (split jsonPath)) get"

definition dumpConfig :: "(json \<Rightarrow> nat \<Rightarrow> string) \<Rightarrow> ConfigManager \<Rightarrow> string" where
  "dumpConfig dump cm = dump (m_json cm) 2"

definition isConfigLoaded :: "ConfigManager \<Rightarrow> bool" where
  "isConfigLoaded cm = m_configLoaded cm"

subsection \<open>The walk and the plain lookup of a path\<close>

fun json_lookup :: "json \<Rightarrow> string list \<Rightarrow> json option" where
  \<comment> \<open>the value at a path, when the file has one\<close>
  "json_lookup j [] = Some j"
| "json_lookup (JObject kvs) (p # ps) =
     (case map_of kvs p of None \<Rightarrow> None | Some v \<Rightarrow> json_lookup v ps)"
| "json_lookup _ (p # ps) = None"

lemma json_walk_null [simp]: "json_walk JNull ps = Inr JNull"
  by (induction ps) auto

lemma json_walk_lookup: "json_lookup j ps = Some v \<Longrightarrow> json_walk j ps = Inr v"
  by (induction j ps rule: json_lookup.induct) (auto split: option.splits)

lemma json_walk_missing:
  "json_lookup j ps = None \<Longrightarrow> json_walk j ps = Inr JNull \<or> json_walk j ps = Inl (TypeError 305)"
  by (induction j ps rule: json_lookup.induct) (auto split: option.splits)

lemma json_walk_append:
  "json_walk j (ps @ qs) = res_bind (json_walk j ps) (\<lambda>j'. json_walk j' qs)"
  by (induction ps arbitrary: j) (auto split: sum.split)

lemma fp_to_int_Inl: "fp_to_int lo hi x = Inl e \<Longrightarrow> e = Undefined FloatConversion"
  by (auto simp: fp_to_int_def split: if_splits)

lemma fp_conversion_Inl:
  "fp_to_u32 x = Inl e \<Longrightarrow> e = Undefined FloatConversion"
  "fp_to_u8 x = Inl e \<Longrightarrow> e = Undefined FloatConversion"
  "fp_to_i8 x = Inl e \<Longrightarrow> e = Undefined FloatConversion"
  by (auto simp: fp_to_u32_def fp_to_u8_def fp_to_i8_def res_simps dest: fp_to_int_Inl)

text \<open>The conversions fail in two ways only, and never on a null value without a type error.\<close>

definition get_fails_ok :: "(json \<Rightarrow> 'a res) \<Rightarrow> bool" where
  "get_fails_ok get \<longleftrightarrow> get JNull = Inl (TypeError 302) \<and>
     (\<forall>j e. get j = Inl e \<longrightarrow> e = TypeError 302 \<or> e = Undefined FloatConversion)"

lemma get_fails_okI:
  "get JNull = Inl (TypeError 302)
   \<Longrightarrow> (\<And>j e. get j = Inl e \<Longrightarrow> e = TypeError 302 \<or> e = Undefined FloatConversion)
   \<Longrightarrow> get_fails_ok get"
  by (auto simp: get_fails_ok_def)

lemma get_fails_ok_all:
  "get_fails_ok get_string" "get_fails_ok get_u32" "get_fails_ok get_u8" "get_fails_ok get_i8"
  "get_fails_ok get_double"
proof -
  show "get_fails_ok get_string" by (rule get_fails_okI, simp) (case_tac j; auto)
  show "get_fails_ok get_u32"
    by (rule get_fails_okI, simp) (case_tac j; auto dest: fp_conversion_Inl)
  show "get_fails_ok get_u8"
    by (rule get_fails_okI, simp) (case_tac j; auto dest: fp_conversion_Inl)
  show "get_fails_ok get_i8"
    by (rule get_fails_okI, simp) (case_tac j; auto dest: fp_conversion_Inl)
  show "get_fails_ok get_double" by (rule get_fails_okI, simp) (case_tac j; auto)
qed

lemma getValue_present:
  "split_ok split \<Longrightarrow> json_lookup (m_json cm) (split_dots path) = Some v
   \<Longrightarrow> getValue split get cm path = get v"
  by (drule split_ok_unique) (simp add: getValue_def json_walk_lookup)

lemma getValue_missing:
  assumes "split_ok split" "get_fails_ok get" "json_lookup (m_json cm) (split_dots path) = None"
  shows "getValue split get cm path = Inl (TypeError 302)
       \<or> getValue split get cm path = Inl (TypeError 305)"
  using json_walk_missing[OF assms(3)] split_ok_unique[OF assms(1)] assms(2)
  by (auto simp: getValue_def get_fails_ok_def)

lemma getValue_fault:
  assumes "split_ok split" "get_fails_ok get" "getValue split get cm path = Inl e"
  shows "e = TypeError 302 \<or> e = TypeError 305 \<or> e = Undefined FloatConversion"
proof (cases "json_lookup (m_json cm) (split_dots path)")
  case None
  then show ?thesis using getValue_missing[OF assms(1,2), of cm path] assms(3) by auto
next
  case (Some v)
  then have "get v = Inl e" using getValue_present[OF assms(1) Some, of get] assms(3) by simp
  then show ?thesis using assms(2) by (auto simp: get_fails_ok_def)
qed

subsection \<open>The shipped configuration\<close>

text \<open>\<^verbatim>\<open>configs/config.json\<close> as the parser gives it: non-negative integers are unsigned.\<close>

abbreviation json_decimal :: "rat \<Rightarrow> json" where
  "json_decimal r \<equiv> JFloat (fp_of_rat binary64 r)"

definition crlf :: string where
  "crlf = [CHR 0x0D, CHR 0x0A]"

definition config_json :: json where
  "config_json = JObject [(''rcplane'', JObject [
     (''autopilot'', JObject [
        (''max_aileron_deflection'', JUnsigned 35), (''max_elevator_deflection'', JUnsigned 40),
        (''max_rudder_deflection'', JUnsigned 20), (''max_throttle'', JUnsigned 255),
        (''stabilize'', JObject [(''kd'', json_decimal (8 / 100)), (''ki'', json_decimal (5 / 100)),
           (''kp'', json_decimal (5 / 10)), (''max_integral_error'', JUnsigned 4),
           (''tau'', json_decimal (5 / 100))])]),
     (''common'', JObject [(''handshake_termination_string'', JString (''flush'' @ crlf))]),
     (''io'', JObject [
        (''journal'', JObject [(''log_destination'', JString ''./logs/''),
           (''severity'', JString ''trace'')]),
        (''serial_controller'', JObject [(''baud_rate'', JUnsigned 115200),
           (''read_timeout_ms'', JUnsigned 500), (''tty_dev'', JString ''/dev/ttyACM0''),
           (''write_timeout_ms'', JUnsigned 500)]),
        (''telemetry'', JObject [(''attitude_mq_name'', JString ''rcplane_mq_attitude''),
           (''debug_mq_name'', JString ''rcplane_mq_debug''), (''mq_size'', JUnsigned 100),
           (''onboard_mq_name'', JString ''rcplane_mq_onboard'')])]),
     (''som'', JObject [(''som_controller'', JObject [(''handshake_attempts'', JUnsigned 20),
        (''main_loop_delay_ms'', JUnsigned 4000)])])])]"

definition shipped :: ConfigManager where
  "shipped = \<lparr>m_json = config_json, m_configLoaded = True\<rparr>"

subsection \<open>Properties\<close>

text \<open>
  C39 Reading a configuration value: a path the file has gives the conversion of the value found there; a path it does
  not have is a \<^verbatim>\<open>type_error\<close> (302 or 305), for every type read by the program, and never an \<^verbatim>\<open>out_of_range\<close>.
\<close>
theorem config_missing:
  assumes "split_ok split" "get_fails_ok get"
  shows "case json_lookup (m_json cm) (split_dots path) of
      Some v \<Rightarrow> getValue split get cm path = get v
    | None \<Rightarrow> getValue split get cm path \<in> {Inl (TypeError 302), Inl (TypeError 305)}"
  using getValue_present[OF assms(1)] getValue_missing[OF assms]
  by (auto split: option.split)

theorem config_missing_witness:
  "getValue split_dots get_u32 shipped ''rcplane.io.telemetry.debug_mq_size'' = Inl (TypeError 302)
   \<or> getValue split_dots get_u32 shipped ''rcplane.io.telemetry.debug_mq_size'' = Inl (TypeError 305)"
proof -
  have "json_lookup (m_json shipped) (split_dots ''rcplane.io.telemetry.debug_mq_size'') = None" by code_simp
  then show ?thesis
    using config_missing[OF split_dots_ok get_fails_ok_all(2), of shipped "''rcplane.io.telemetry.debug_mq_size''"]
    by simp
qed

text \<open>
  A path is read back as the keys it was written from: any non-empty sequence of keys without dots, joined by
  dots, leads to the value those keys lead to.
\<close>
lemma config_path:
  assumes "split_ok split" "ps \<noteq> []" "\<forall>p \<in> set ps. CHR ''.'' \<notin> set p"
  shows "getValue split get cm (join_dots ps) = res_bind (json_walk (m_json cm) ps) get"
  using split_join_dots[OF assms(2,3)] split_ok_unique[OF assms(1)] by (simp add: getValue_def)

end
