(* ===== verification/Bytes.thy ===== *)
theory Bytes
  imports Prelude
begin

section \<open>Object representations as bytes\<close>

text \<open>
  The program sends and stores objects as their bytes: \<^verbatim>\<open>Serial.write((byte *)&packet, sizeof(packet))\<close>,
  \<^verbatim>\<open>try_send((uint8_t *)&message, sizeof(...), 0)\<close>, and back by a pointer cast or a read into the
  object. Both targets are little-endian. Here are the little-endian encoding of an integer and the
  interface \<open>codec\<close> of a type with a fixed-size representation, with what its clients need: a
  value survives the trip, alone or at the head of a longer stream.
\<close>

subsection \<open>Little-endian integers\<close>

fun le_nat :: "nat \<Rightarrow> nat \<Rightarrow> byte list" where
  "le_nat 0 x = []"
| "le_nat (Suc n) x = word_of_nat (x mod 256) # le_nat n (x div 256)"

fun nat_le :: "byte list \<Rightarrow> nat" where
  "nat_le [] = 0"
| "nat_le (b # bs) = unat b + 256 * nat_le bs"

lemma length_le_nat [simp]: "length (le_nat n x) = n"
  by (induction n arbitrary: x) auto

lemma unat_bound_len: "unat (w :: 'a::len word) < 2 ^ LENGTH('a)"
  by (rule unsigned_less)

lemma unat_byte_of_mod: "unat (word_of_nat (x mod 256) :: byte) = x mod 256"
  by (simp add: unat_of_nat)

lemma nat_le_le_nat: "nat_le (le_nat n x) = x mod 256 ^ n"
proof (induction n arbitrary: x)
  case 0
  then show ?case by simp
next
  case (Suc n)
  then show ?case by (simp add: unat_byte_of_mod mod_mult2_eq)
qed

lemma unat_byte_less: "unat (b :: byte) < 256"
  using unat_bound_len[of b] by simp

lemma le_nat_nat_le: "le_nat (length bs) (nat_le bs) = bs"
proof (induction bs)
  case (Cons b bs)
  have "(unat b + 256 * nat_le bs) mod 256 = unat b" "(unat b + 256 * nat_le bs) div 256 = nat_le bs"
    using unat_byte_less[of b] by simp_all
  with Cons show ?case by simp
qed simp

lemma nat_le_less: "nat_le bs < 256 ^ length bs"
proof (induction bs)
  case (Cons b bs)
  then show ?case using unat_byte_less[of b] by simp
qed simp

definition le_u32 :: "u32 \<Rightarrow> byte list" where
  "le_u32 w = le_nat 4 (unat w)"

definition u32_le :: "byte list \<Rightarrow> u32" where
  "u32_le bs = word_of_nat (nat_le bs)"

definition le_u64 :: "u64 \<Rightarrow> byte list" where
  "le_u64 w = le_nat 8 (unat w)"

definition u64_le :: "byte list \<Rightarrow> u64" where
  "u64_le bs = word_of_nat (nat_le bs)"

named_theorems byte_simps \<open>lengths and round trips of the byte encodings\<close>

lemma length_le_u32 [simp, byte_simps]: "length (le_u32 w) = 4"
  and length_le_u64 [simp, byte_simps]: "length (le_u64 x) = 8"
  by (simp_all add: le_u32_def le_u64_def)

lemma u32_le_le_u32 [simp, byte_simps]: "u32_le (le_u32 w) = w"
proof -
  have "unat w mod 256 ^ 4 = unat w" using unat_bound_len[of w] by simp
  then show ?thesis by (simp add: u32_le_def le_u32_def nat_le_le_nat)
qed

lemma u64_le_le_u64 [simp, byte_simps]: "u64_le (le_u64 w) = w"
proof -
  have "unat w mod 256 ^ 8 = unat w" using unat_bound_len[of w] by simp
  then show ?thesis by (simp add: u64_le_def le_u64_def nat_le_le_nat)
qed

lemma le_u32_u32_le [byte_simps]: "length bs = 4 \<Longrightarrow> le_u32 (u32_le bs) = bs"
  using nat_le_less[of bs] le_nat_nat_le[of bs]
  by (simp add: u32_le_def le_u32_def unat_of_nat)

lemma le_u64_u64_le [byte_simps]: "length bs = 8 \<Longrightarrow> le_u64 (u64_le bs) = bs"
  using nat_le_less[of bs] le_nat_nat_le[of bs]
  by (simp add: u64_le_def le_u64_def unat_of_nat)

text \<open>A field of an object: the bytes at an offset.\<close>

definition field_bytes :: "nat \<Rightarrow> nat \<Rightarrow> byte list \<Rightarrow> byte list" where
  "field_bytes off n bs = take n (drop off bs)"

definition byte_at :: "nat \<Rightarrow> byte list \<Rightarrow> byte" where
  "byte_at off bs = (case drop off bs of b # _ \<Rightarrow> b | [] \<Rightarrow> 0)"

lemma byte_at_nth: "off < length bs \<Longrightarrow> byte_at off bs = bs ! off"
  by (simp add: byte_at_def Cons_nth_drop_Suc [symmetric])

lemma field_bytes_append: "take n (drop off bs) @ drop (n + off) bs = drop off bs"
  using append_take_drop_id[of n "drop off bs"] by (simp add: add.commute)

lemma split_bytes:
  assumes "length bs = n + k"
  obtains cs ds where "bs = cs @ ds" "length cs = n" "length ds = k"
proof
  show "bs = take n bs @ drop n bs" by simp
qed (use assms in auto)

subsection \<open>The interface of a type with a fixed-size representation\<close>

locale codec =
  fixes size :: nat
    and enc :: "'p \<Rightarrow> byte list"
    and dec :: "byte list \<Rightarrow> 'p"
  assumes enc_length: "length (enc p) = size"
    and dec_enc: "dec (enc p) = p"
begin

lemma dec_take: "dec (take size (enc p @ rest)) = p"
  using enc_length[of p] dec_enc[of p] by simp

lemma drop_enc: "drop size (enc p @ rest) = rest"
  using enc_length[of p] by simp

lemma enc_inject: "enc p = enc q \<longleftrightarrow> p = q"
  using dec_enc by metis

lemma enc_append_inject: "enc p @ r = enc q @ s \<longleftrightarrow> p = q \<and> r = s"
  using enc_length enc_inject by auto

lemma length_concat_enc: "length (concat (map enc ps)) = size * length ps"
  by (induction ps) (simp_all add: enc_length)

end

text \<open>A packed type has no padding: every byte string of its size is one of its values.\<close>

locale packed_codec = codec size enc dec
  for size :: nat and enc :: "'p \<Rightarrow> byte list" and dec :: "byte list \<Rightarrow> 'p" +
  assumes enc_dec: "length bs = size \<Longrightarrow> enc (dec bs) = bs"
begin

lemma dec_inject: "length bs = size \<Longrightarrow> length cs = size \<Longrightarrow> dec bs = dec cs \<longleftrightarrow> bs = cs"
  using enc_dec by metis

end

end
