(* ===== verification/Ieee754_Widen.thy ===== *)
theory Ieee754_Widen
  imports Ieee754
begin

section \<open>Conversion from float to double\<close>

text \<open>
  The assignment of a \<^verbatim>\<open>float\<close> to a \<^verbatim>\<open>double\<close>, on the bits of the two objects, as
  \<^verbatim>\<open>SomController::runMainLoop\<close> does it to the angles of the attitude message: every finite value and
  infinity is exact, a NaN stays a NaN (and becomes quiet). The lemma \<open>fp_of_bits64_double_of_float\<close>
  states that the value is kept, for all \<open>2 ^ 32\<close> floats.
\<close>

fun fp_of_fields64 :: "bool \<Rightarrow> int \<Rightarrow> int \<Rightarrow> fp" where
  \<comment> \<open>sign, biased exponent and fraction of a \<^verbatim>\<open>double\<close>\<close>
  "fp_of_fields64 s e f =
     (if e = 2047 then (if f = 0 then Inf s else NaN)
      else if e = 0 then (if f = 0 \<and> s then NegZero
        else Fin ((if s then - 1 else 1) * of_int f * pow2 (- 1074)))
      else Fin ((if s then - 1 else 1) * of_int (2 ^ 52 + f) * pow2 (e - 1075)))"

definition fp_of_bits64 :: "u64 \<Rightarrow> fp" where
  "fp_of_bits64 w =
     fp_of_fields64 (2 ^ 63 \<le> uint w) ((uint w div 2 ^ 52) mod 2 ^ 11) (uint w mod 2 ^ 52)"

definition bits_of_fields64 :: "bool \<Rightarrow> int \<Rightarrow> int \<Rightarrow> u64" where
  "bits_of_fields64 s e f = word_of_int ((if s then 2 ^ 63 else 0) + e * 2 ^ 52 + f)"

fun widen_fields :: "bool \<Rightarrow> int \<Rightarrow> int \<Rightarrow> u64" where
  "widen_fields s e f =
     (if e = 255 then bits_of_fields64 s 2047 (if f = 0 then 0 else (2 ^ 22 + f mod 2 ^ 22) * 2 ^ 29)
      else if e = 0 then
        (if f = 0 then bits_of_fields64 s 0 0
         else bits_of_fields64 s (bitlen f + 873) (f * 2 ^ nat (53 - bitlen f) - 2 ^ 52))
      else bits_of_fields64 s (e + 896) (f * 2 ^ 29))"

definition double_of_float :: "u32 \<Rightarrow> u64" where
  "double_of_float w =
     widen_fields (2 ^ 31 \<le> uint w) ((uint w div 2 ^ 23) mod 2 ^ 8) (uint w mod 2 ^ 23)"

lemma fp_of_bits64_fields:
  assumes e: "0 \<le> e" "e < 2048" and f: "0 \<le> f" "f < 2 ^ 52"
  shows "fp_of_bits64 (bits_of_fields64 s e f) = fp_of_fields64 s e f"
proof -
  let ?n = "(if s then 2 ^ 63 else 0) + e * 2 ^ 52 + f :: int"
  have "e * 2 ^ 52 \<le> 2047 * 2 ^ 52" using e by (intro mult_right_mono) auto
  then have lo: "0 \<le> e * 2 ^ 52 + f" "e * 2 ^ 52 + f < 2 ^ 63" using e f by auto
  then have "0 \<le> ?n" "?n < 2 ^ 64" by auto
  then have u: "uint (bits_of_fields64 s e f) = ?n"
    unfolding bits_of_fields64_def uint_word_of_int len_of_numeral_defs
    by (intro mod_pos_pos_trivial) auto
  have q: "?n = (if s then 2048 + e else e) * 2 ^ 52 + f" by simp
  have "?n div 2 ^ 52 = (if s then 2048 + e else e)" "?n mod 2 ^ 52 = f"
    unfolding q using f by (simp_all only: div_mult_self3 mod_mult_self3 mod_pos_pos_trivial
        div_pos_pos_trivial power_eq_0_iff simp_thms zero_neq_numeral) auto
  moreover have "(if s then 2048 + e else e) mod 2 ^ 11 = e" using e by (auto simp: mod_add_self1)
  moreover have "(2 ^ 63 \<le> ?n) = s" using lo by auto
  ultimately show ?thesis by (simp only: fp_of_bits64_def u)
qed

lemma pow2_shift: "0 \<le> k \<Longrightarrow> 2 ^ nat k * pow2 e = pow2 (e + k)"
  using pow2_add_nat[of e "nat k"] by simp

lemma widen_subnormal:
  assumes f: "0 < f" "f < 2 ^ 23"
  shows "fp_of_bits64 (bits_of_fields64 s (bitlen f + 873) (f * 2 ^ nat (53 - bitlen f) - 2 ^ 52))
    = Fin ((if s then - 1 else 1) * of_int f * pow2 (- 149))"
proof -
  let ?m = "f * 2 ^ nat (53 - bitlen f) :: int"
  have b: "0 < bitlen f" using f bitlen_eq_zero_iff[of f] bitlen_nonneg[of f] by linarith
  have "bitlen f \<le> 23" using bitlen_le_iff_power[of f 23] f by simp
  note b = b this
  have "2 ^ nat (bitlen f - 1) \<le> f" "f < 2 ^ nat (bitlen f)" using bitlen_bounds[OF f(1)] by auto
  then have "(2::int) ^ nat (bitlen f - 1) * 2 ^ nat (53 - bitlen f) \<le> ?m"
    "?m < 2 ^ nat (bitlen f) * 2 ^ nat (53 - bitlen f)" by simp_all
  moreover have "nat (bitlen f - 1) + nat (53 - bitlen f) = 52"
    "nat (bitlen f) + nat (53 - bitlen f) = 53" using b by auto
  ultimately have m: "2 ^ 52 \<le> ?m" "?m < 2 ^ 53"
    by (metis power_add)+
  have "(of_int ?m :: rat) * pow2 (bitlen f + 873 - 1075)
      = of_int f * (2 ^ nat (53 - bitlen f) * pow2 (bitlen f + 873 - 1075))" by simp
  also have "\<dots> = of_int f * pow2 (- 149)" using b by (simp only: pow2_shift) simp
  finally have v: "(of_int ?m :: rat) * pow2 (bitlen f + 873 - 1075) = of_int f * pow2 (- 149)" .
  have "fp_of_bits64 (bits_of_fields64 s (bitlen f + 873) (?m - 2 ^ 52))
      = fp_of_fields64 s (bitlen f + 873) (?m - 2 ^ 52)"
    by (rule fp_of_bits64_fields) (use b m in auto)
  also have "\<dots> = Fin ((if s then - 1 else 1) * (of_int ?m * pow2 (bitlen f + 873 - 1075)))"
    using b by (simp add: mult.assoc)
  finally show ?thesis by (simp only: v mult.assoc)
qed

lemma fp_of_bits64_double_of_float: "fp_of_bits64 (double_of_float w) = fp_of_bits32 w"
proof -
  let ?s = "2 ^ 31 \<le> uint w" and ?e = "(uint w div 2 ^ 23) mod 2 ^ 8" and ?f = "uint w mod 2 ^ 23"
  have e: "0 \<le> ?e" "?e < 256" and f: "0 \<le> ?f" "?f < 2 ^ 23" by simp_all
  have "fp_of_bits64 (widen_fields s e f) = fp_of_fields32 s e f"
    if e: "0 \<le> e" "e < 256" and f: "0 \<le> f" "f < 2 ^ 23" for s and e f :: int
  proof -
    consider "e = 255" | "e = 0" "f = 0" | "e = 0" "f \<noteq> 0" | "e \<noteq> 255" "e \<noteq> 0" by blast
    then show ?thesis
    proof cases
      case 1
      have "0 \<le> f mod 2 ^ 22" "f mod 2 ^ 22 < 2 ^ 22" by simp_all
      then have m: "0 < (2 ^ 22 + f mod 2 ^ 22) * 2 ^ 29" "(2 ^ 22 + f mod 2 ^ 22) * 2 ^ 29 < 2 ^ 52"
        by (simp_all only: zero_less_mult_iff) auto
      then show ?thesis using 1 by (auto simp: fp_of_bits64_fields simp del: distrib_right_numeral)
    next
      case 2
      then show ?thesis by (simp add: fp_of_bits64_fields)
    next
      case 3
      then show ?thesis using widen_subnormal[of f s] f by simp
    next
      case 4
      have "fp_of_bits64 (bits_of_fields64 s (e + 896) (f * 2 ^ 29))
          = fp_of_fields64 s (e + 896) (f * 2 ^ 29)"
        by (rule fp_of_bits64_fields) (use e f in auto)
      moreover have "(of_int (2 ^ 52 + f * 2 ^ 29) :: rat) * pow2 (e + 896 - 1075)
          = of_int (2 ^ 23 + f) * pow2 (e - 150)"
      proof -
        have "(of_int (2 ^ 52 + f * 2 ^ 29) :: rat) = of_int (2 ^ 23 + f) * 2 ^ nat 29" by simp
        then show ?thesis by (simp only: mult.assoc pow2_shift) simp
      qed
      ultimately show ?thesis using 4 e by (simp add: mult.assoc)
    qed
  qed
  from this[OF e f] show ?thesis unfolding double_of_float_def fp_of_bits32_def .
qed

end
