(* ===== verification/Show.thy ===== *)
theory Show
  imports Ieee754_Widen
begin

section \<open>The text of numbers\<close>

text \<open>
  What \<^verbatim>\<open>std::ostream\<close> prints for the integers, the bit sets and the floating-point numbers of log
  lines: integers in decimal, \<^verbatim>\<open>std::bitset<8>\<close> from the highest bit on, a \<^verbatim>\<open>double\<close> (and a \<^verbatim>\<open>float\<close>,
  which is converted to one) as \<^verbatim>\<open>printf\<close> does with \<^verbatim>\<open>%g\<close> and the default precision of six digits: the
  exact value is rounded to six significant digits, ties to even, trailing zeros are dropped, and the exponent is
  written out below \<open>10 ^ -4\<close> and from \<open>10 ^ 6\<close> on. The main lemmas: an integer is read back from its
  text, and the six digits are within half a unit of the last of them.
\<close>

subsection \<open>Integers\<close>

fun show_nat :: "nat \<Rightarrow> string" where
  "show_nat n = (if n < 10 then [char_of (48 + n)] else show_nat (n div 10) @ [char_of (48 + n mod 10)])"

definition show_int :: "int \<Rightarrow> string" where
  "show_int i = (if i < 0 then ''-'' @ show_nat (nat (- i)) else show_nat (nat i))"

definition show_bits8 :: "u8 \<Rightarrow> string" where
  "show_bits8 b = map (\<lambda>i. if bit b i then CHR ''1'' else CHR ''0'') [7, 6, 5, 4, 3, 2, 1, 0]"

declare show_nat.simps [simp del]

definition read_digit :: "char \<Rightarrow> nat" where
  "read_digit c = of_char c - 48"

definition read_nat :: "string \<Rightarrow> nat" where
  "read_nat s = foldl (\<lambda>n c. 10 * n + read_digit c) 0 s"

fun read_int :: "string \<Rightarrow> int" where
  "read_int [] = 0"
| "read_int (c # s) = (if c = CHR ''-'' then - int (read_nat s) else int (read_nat (c # s)))"

lemma read_digit_char: "n < 10 \<Longrightarrow> read_digit (char_of (48 + n)) = n"
  by (simp add: read_digit_def)

lemma read_show_nat: "read_nat (show_nat n) = n"
proof (induction n rule: show_nat.induct)
  case (1 n)
  then show ?case
    by (cases "n < 10")
      (simp_all add: show_nat.simps[of n] read_nat_def read_digit_char)
qed

lemma digit_char_neq:
  fixes n :: nat
  assumes "n < 10" "of_char c < (48::nat) \<or> (57::nat) < of_char c"
  shows "char_of (48 + n) \<noteq> c"
proof
  assume "char_of (48 + n) = c"
  then have "(of_char c :: nat) = of_char (char_of (48 + n) :: char)" by simp
  then have "(of_char c :: nat) = 48 + n" using assms(1) by simp
  then show False using assms by simp
qed

lemma show_nat_chars:
  "of_char c < (48::nat) \<or> (57::nat) < of_char c \<Longrightarrow> c \<notin> set (show_nat n)"
proof (induction n rule: show_nat.induct)
  case (1 n)
  have "n mod 10 < 10" by simp
  with 1 digit_char_neq[of n c] digit_char_neq[of "n mod 10" c] show ?case
    by (cases "n < 10") (auto simp: show_nat.simps[of n])
qed

lemma show_nat_nonempty [simp]: "show_nat n \<noteq> []"
  by (subst show_nat.simps) simp

lemma show_nat_inject [simp]: "show_nat m = show_nat n \<longleftrightarrow> m = n"
  using read_show_nat by metis

lemma read_show_int: "read_int (show_int i) = i"
proof (cases "i < 0")
  case True
  then show ?thesis by (simp add: show_int_def read_show_nat)
next
  case False
  obtain c s where s: "show_nat (nat i) = c # s" by (cases "show_nat (nat i)") auto
  moreover have "c \<noteq> CHR ''-''" using s show_nat_chars[of "CHR ''-''" "nat i"] by auto
  ultimately show ?thesis using False read_show_nat[of "nat i"] by (simp add: show_int_def)
qed

lemma show_int_inject [simp]: "show_int i = show_int j \<longleftrightarrow> i = j"
  using read_show_int by metis

lemma show_bits8_inject [simp]: "show_bits8 a = show_bits8 b \<longleftrightarrow> a = b"
proof
  assume eq: "show_bits8 a = show_bits8 b"
  have "bit a n = bit b n" if "n < 8" for n
  proof -
    have "n = 7 \<or> n = 6 \<or> n = 5 \<or> n = 4 \<or> n = 3 \<or> n = 2 \<or> n = 1 \<or> n = 0" using that by auto
    then show ?thesis using eq by (auto simp: show_bits8_def split: if_splits)
  qed
  then show "a = b" by (intro bit_word_eqI) auto
qed simp

text \<open>The fields of a line are separated by spaces, which no field contains.\<close>

named_theorems text_simps \<open>taking log lines apart at their spaces\<close>

lemma no_space [text_simps]:
  "CHR '' '' \<notin> set (show_nat n)" "CHR '' '' \<notin> set (show_int i)" "CHR '' '' \<notin> set (show_bits8 b)"
  using show_nat_chars[of "CHR '' ''"] by (auto simp: show_int_def show_bits8_def)

lemma split_at_space [text_simps]:
  "CHR '' '' \<notin> set x \<Longrightarrow> CHR '' '' \<notin> set y \<Longrightarrow>
     x @ CHR '' '' # r = y @ CHR '' '' # r' \<longleftrightarrow> x = y \<and> r = r'"
  by (auto simp: append_eq_append_conv2 append_eq_Cons_conv Cons_eq_append_conv)

lemma unat_inject: "unat a = unat b \<longleftrightarrow> a = b" for a b :: "'a::len word"
  by (rule word_unat_eq_iff[symmetric])

lemma sint_inject: "sint a = sint b \<longleftrightarrow> a = b" for a b :: "'a::len word"
  using signed_word_eqI[of a b] by auto

subsection \<open>Six significant digits\<close>

definition pow10 :: "int \<Rightarrow> rat" where
  "pow10 k = (if 0 \<le> k then 10 ^ nat k else 1 / 10 ^ nat (- k))"

fun ndigits :: "nat \<Rightarrow> nat" where
  "ndigits n = (if n < 10 then 1 else Suc (ndigits (n div 10)))"

declare ndigits.simps [simp del]

definition ilog10 :: "rat \<Rightarrow> int" where
  \<comment> \<open>the decimal exponent of a positive number\<close>
  "ilog10 r = (if 1 \<le> r then int (ndigits (nat \<lfloor>r\<rfloor>)) - 1 else - int (ndigits (nat (\<lceil>1 / r\<rceil> - 1))))"

fun carry6 :: "int \<Rightarrow> int \<Rightarrow> nat \<times> int" where
  "carry6 x d = (if d = 1000000 then (100000, x + 1) else (nat d, x))"

definition sig6 :: "rat \<Rightarrow> nat \<times> int" where
  \<comment> \<open>the six digits and the exponent of the first of them\<close>
  "sig6 r = carry6 (ilog10 r) (round_even (r * pow10 (5 - ilog10 r)))"

lemma pow10_pos [simp]: "0 < pow10 k" and pow10_neq0 [simp]: "pow10 k \<noteq> 0"
  by (simp_all add: pow10_def)

lemma pow10_0 [simp]: "pow10 0 = 1"
  by (simp add: pow10_def)

lemma pow10_Suc: "pow10 (k + 1) = 10 * pow10 k"
proof (cases "0 \<le> k")
  case True
  then show ?thesis by (simp add: pow10_def nat_add_distrib)
next
  case False
  then have "nat (- k) = Suc (nat (- (k + 1)))" by simp
  with False show ?thesis by (auto simp: pow10_def)
qed

lemma pow10_add_nat: "pow10 (k + int n) = pow10 k * 10 ^ n"
proof (induction n)
  case (Suc n)
  then show ?case using pow10_Suc[of "k + int n"] by (simp add: algebra_simps)
qed simp

lemma pow10_neg: "pow10 (- k) = 1 / pow10 k"
  by (auto simp: pow10_def)

lemma pow10_shift: "pow10 (5 - x) * pow10 (x - 5) = 1"
  using pow10_neg[of "x - 5"] pow10_pos[of "x - 5"] by simp

lemma ndigits_bounds: "n < 10 ^ ndigits n \<and> (0 < n \<longrightarrow> 10 ^ (ndigits n - 1) \<le> n) \<and> 0 < ndigits n"
proof (induction n rule: ndigits.induct)
  case (1 n)
  show ?case
  proof (cases "n < 10")
    case True
    then show ?thesis by (simp add: ndigits.simps)
  next
    case False
    let ?m = "n div 10"
    have IH: "?m < 10 ^ ndigits ?m" "10 ^ (ndigits ?m - 1) \<le> ?m" "0 < ndigits ?m"
      using 1 False by auto
    have e: "ndigits n = Suc (ndigits ?m)" using False by (simp add: ndigits.simps)
    have "Suc ?m \<le> 10 ^ ndigits ?m" using IH(1) by simp
    then have "10 * Suc ?m \<le> 10 * 10 ^ ndigits ?m" by (rule mult_le_mono2)
    moreover have "n < 10 * Suc ?m" by presburger
    ultimately have "n < 10 ^ ndigits n" by (simp add: e)
    moreover have "10 * 10 ^ (ndigits ?m - 1) \<le> 10 * ?m" using IH(2) by (rule mult_le_mono2)
    then have "10 ^ ndigits ?m \<le> n" using IH(3) by (cases "ndigits ?m") auto
    ultimately show ?thesis by (simp add: e)
  qed
qed

lemma pow10_of_nat: "pow10 (int n) = of_nat (10 ^ n)"
  by (simp add: pow10_def)

lemma ilog10_bounds:
  assumes r: "0 < r"
  shows "pow10 (ilog10 r) \<le> r \<and> r < pow10 (ilog10 r + 1)"
proof (cases "1 \<le> r")
  case True
  define n where "n = nat \<lfloor>r\<rfloor>"
  have n: "0 < n" "of_nat n \<le> r" "r < of_nat n + 1"
    using True floor_correct[of r] by (auto simp: n_def le_floor_iff of_nat_nat)
  note b = ndigits_bounds[of n]
  have i: "ilog10 r = int (ndigits n - 1)" "ilog10 r + 1 = int (ndigits n)"
    using True b by (auto simp: ilog10_def n_def)
  have "(of_nat (10 ^ (ndigits n - 1)) :: rat) \<le> of_nat n" using b n by (simp only: of_nat_le_iff)
  then have lo: "pow10 (int (ndigits n - 1)) \<le> r" using n(2) unfolding pow10_of_nat by (rule order_trans)
  have "(of_nat (Suc n) :: rat) \<le> of_nat (10 ^ ndigits n)" using b by (simp only: of_nat_le_iff) simp
  then have "r < pow10 (int (ndigits n))" using n(3) by (simp add: pow10_of_nat)
  with lo show ?thesis unfolding i(2) unfolding i(1) by blast
next
  case False
  define s where "s = 1 / r"
  define n where "n = nat (\<lceil>s\<rceil> - 1)"
  have s: "1 < s" using r False by (simp add: s_def)
  then have "2 \<le> \<lceil>s\<rceil>" by linarith
  then have n: "0 < n" "of_nat n < s" "s \<le> of_nat n + 1"
    using ceiling_correct[of s] by (auto simp: n_def of_nat_nat)
  note b = ndigits_bounds[of n]
  have i: "ilog10 r = - int (ndigits n)" "ilog10 r + 1 = - int (ndigits n - 1)"
    using False b by (auto simp: ilog10_def n_def s_def)
  have "(of_nat (10 ^ (ndigits n - 1)) :: rat) \<le> of_nat n" using b n by (simp only: of_nat_le_iff)
  then have lo: "(of_nat (10 ^ (ndigits n - 1)) :: rat) < s" using n(2) by (rule le_less_trans)
  have "(of_nat (Suc n) :: rat) \<le> of_nat (10 ^ ndigits n)" using b by (simp only: of_nat_le_iff) simp
  then have hi: "s \<le> of_nat (10 ^ ndigits n)" using n(3) by simp
  have rs: "r = 1 / s" by (simp add: s_def)
  have "1 / of_nat (10 ^ ndigits n) \<le> 1 / s" using hi s by (intro divide_left_mono) auto
  moreover have "1 / s < 1 / of_nat (10 ^ (ndigits n - 1))" using lo s by (intro divide_strict_left_mono) auto
  moreover have "pow10 (ilog10 r) = 1 / of_nat (10 ^ ndigits n)"
    "pow10 (ilog10 r + 1) = 1 / of_nat (10 ^ (ndigits n - 1))"
    by (simp_all only: i(2) pow10_neg pow10_of_nat) (simp only: i(1) pow10_neg pow10_of_nat)
  ultimately show ?thesis using rs by metis
qed

lemma sig6_correct:
  assumes r: "0 < r" and s: "sig6 r = (d, x)"
  shows "100000 \<le> d \<and> d < 1000000 \<and> \<bar>of_nat d * pow10 (x - 5) - r\<bar> \<le> pow10 (x - 5) / 2"
proof -
  let ?k = "ilog10 r" and ?y = "r * pow10 (5 - ilog10 r)"
  note b = ilog10_bounds[OF r]
  have p5: "pow10 ?k * pow10 (5 - ?k) = 100000"
    using pow10_neg[of "?k"] pow10_add_nat[of "- ?k" 5] pow10_pos[of ?k] by (simp add: field_simps)
  have "pow10 ?k * pow10 (5 - ?k) \<le> ?y" using b by (intro mult_right_mono) (auto simp: less_imp_le)
  then have lo: "of_int 100000 \<le> ?y" using p5 by simp
  have "?y < 10 * pow10 ?k * pow10 (5 - ?k)"
    using b pow10_Suc[of ?k] by (intro mult_strict_right_mono) auto
  then have hi: "?y \<le> of_int 1000000" using p5 by (simp add: mult.assoc)
  let ?e = "round_even ?y"
  have e: "100000 \<le> ?e" "?e \<le> 1000000" using round_even_ge[OF lo] round_even_le[OF hi] by auto
  have r': "r = ?y * pow10 (?k - 5)" using pow10_shift[of ?k] by (simp add: mult.assoc)
  have "of_int ?e * pow10 (?k - 5) - r = (of_int ?e - ?y) * pow10 (?k - 5)"
    using r' by (simp add: left_diff_distrib)
  then have "\<bar>of_int ?e * pow10 (?k - 5) - r\<bar> = \<bar>of_int ?e - ?y\<bar> * pow10 (?k - 5)"
    by (simp add: abs_mult less_imp_le)
  also have "\<dots> \<le> 1 / 2 * pow10 (?k - 5)"
    using round_even_dist by (intro mult_right_mono) (auto simp: less_imp_le)
  finally have err: "\<bar>of_int ?e * pow10 (?k - 5) - r\<bar> \<le> pow10 (?k - 5) / 2" by simp
  show ?thesis
  proof (cases "?e = 1000000")
    case True
    then have dx: "d = 100000" "x = ?k + 1" using s by (simp_all add: sig6_def)
    have p: "pow10 (x - 5) = 10 * pow10 (?k - 5)" using pow10_Suc[of "?k - 5"] by (simp add: dx)
    have "\<bar>of_nat d * pow10 (x - 5) - r\<bar> \<le> pow10 (?k - 5) / 2" using err True by (simp add: dx(1) p)
    also have "\<dots> \<le> pow10 (x - 5) / 2" using pow10_pos[of "?k - 5"] by (simp add: p del: pow10_pos)
    finally show ?thesis by (simp add: dx(1))
  next
    case False
    then have dx: "d = nat ?e" "x = ?k" using s by (auto simp: sig6_def)
    then have "(of_nat d :: rat) = of_int ?e" using e by simp
    then show ?thesis using err e False dx by auto
  qed
qed

subsection \<open>The text of a double\<close>

definition strip0 :: "string \<Rightarrow> string" where
  "strip0 s = rev (dropWhile (\<lambda>c. c = CHR ''0'') (rev s))"

definition with_fraction :: "string \<Rightarrow> string \<Rightarrow> string" where
  "with_fraction a f = (if strip0 f = [] then a else a @ ''.'' @ strip0 f)"

definition show_exponent :: "int \<Rightarrow> string" where
  "show_exponent x = (if x < 0 then ''-'' else ''+'') @ (if \<bar>x\<bar> < 10 then ''0'' else [])
     @ show_nat (nat \<bar>x\<bar>)"

fun show_sig6 :: "nat \<times> int \<Rightarrow> string" where
  "show_sig6 (d, x) =
     (if x < - 4 \<or> 6 \<le> x
        then with_fraction (take 1 (show_nat d)) (drop 1 (show_nat d)) @ ''e'' @ show_exponent x
      else if 0 \<le> x
        then with_fraction (take (nat (x + 1)) (show_nat d)) (drop (nat (x + 1)) (show_nat d))
      else with_fraction ''0'' (replicate (nat (- x - 1)) (CHR ''0'') @ show_nat d))"

fun show_magnitude :: "fp \<Rightarrow> string" where
  "show_magnitude NaN = ''nan''"
| "show_magnitude (Inf s) = ''inf''"
| "show_magnitude NegZero = ''0''"
| "show_magnitude (Fin r) = (if r = 0 then ''0'' else show_sig6 (sig6 \<bar>r\<bar>))"

definition show_double :: "u64 \<Rightarrow> string" where
  "show_double w = (if 2 ^ 63 \<le> uint w then ''-'' else []) @ show_magnitude (fp_of_bits64 w)"

definition show_float :: "u32 \<Rightarrow> string" where
  "show_float w = show_double (double_of_float w)"

lemma show_float_examples:
  "show_float 0x41C80000 = ''25''" "show_float 0xC1700000 = ''-15''" "show_float 0x3DCCCCCD = ''0.1''"
  "show_float 0x80000000 = ''-0''" "show_float 0x49742400 = ''1e+06''" "show_float 0x7FC00000 = ''nan''"
  by code_simp+

end
