(* ===== verification/Packet.thy ===== *)
theory Packet
  imports Bytes Show
begin

unbundle bit_operations_syntax

section \<open>Packets and state flags\<close>

text \<open>
  \<^verbatim>\<open>common/State.hpp\<close> and \<^verbatim>\<open>common/Packet.hpp\<close>: the flags of the state byte and the four packets the
  MCU and the SoM exchange, with their constructors, comparison operators and log text. The packets are packed structs with an empty base class, so their object
  representation is the fields in order, little-endian; a \<^verbatim>\<open>float\<close> field is kept as its 32 bits. Each
  packet type is shown to be a packed codec, and the comparison operators are shown to be equality
  (for the floats of \<open>ImuPacket\<close>: IEEE equality, which is not).
\<close>

subsection \<open>State flags\<close>

definition kUSER_ROLL :: u8 where "kUSER_ROLL = 0x01"
definition kUSER_PITCH :: u8 where "kUSER_PITCH = 0x02"
definition kASSISTANCE_FLAG :: u8 where "kASSISTANCE_FLAG = 0x80"
definition kAUTOPILOT_MASK :: u8 where "kAUTOPILOT_MASK = kASSISTANCE_FLAG"

lemmas state_flag_defs = kUSER_ROLL_def kUSER_PITCH_def kASSISTANCE_FLAG_def kAUTOPILOT_MASK_def

subsection \<open>Packets\<close>

record HandshakePacket =
  handshake :: u8

record RcRxPacket =
  timestamp :: u32
  state :: u8
  motorStickPosition :: u8
  aileronStickPosition :: i8
  elevatorStickPosition :: i8
  rudderStickPosition :: i8

record ControlSurfacePacket =
  motorSpeed :: u8
  aileronDeflection :: i8
  elevatorDeflection :: i8
  rudderDeflection :: i8

record ImuPacket =
  gyroX :: u32
  gyroY :: u32
  gyroZ :: u32
  accX :: u32
  accY :: u32
  accZ :: u32
  temperature :: u32

text \<open>The constructors with arguments.\<close>

definition new_HandshakePacket :: "u8 \<Rightarrow> HandshakePacket" where
  "new_HandshakePacket handshake' = \<lparr>handshake = handshake'\<rparr>"

definition new_RcRxPacket :: "u32 \<Rightarrow> u8 \<Rightarrow> u8 \<Rightarrow> i8 \<Rightarrow> i8 \<Rightarrow> i8 \<Rightarrow> RcRxPacket" where
  "new_RcRxPacket timestamp' state' motorStickPosition' aileronStickPosition' elevatorStickPosition'
       rudderStickPosition' =
     \<lparr>timestamp = timestamp', state = state', motorStickPosition = motorStickPosition',
      aileronStickPosition = aileronStickPosition', elevatorStickPosition = elevatorStickPosition',
      rudderStickPosition = rudderStickPosition'\<rparr>"

definition new_ControlSurfacePacket :: "u8 \<Rightarrow> i8 \<Rightarrow> i8 \<Rightarrow> i8 \<Rightarrow> ControlSurfacePacket" where
  "new_ControlSurfacePacket motorSpeed' aileronDeflection' elevatorDeflection' rudderDeflection' =
     \<lparr>motorSpeed = motorSpeed', aileronDeflection = aileronDeflection',
      elevatorDeflection = elevatorDeflection', rudderDeflection = rudderDeflection'\<rparr>"

definition new_ImuPacket :: "u32 \<Rightarrow> u32 \<Rightarrow> u32 \<Rightarrow> u32 \<Rightarrow> u32 \<Rightarrow> u32 \<Rightarrow> u32 \<Rightarrow> ImuPacket" where
  "new_ImuPacket gyroX' gyroY' gyroZ' accX' accY' accZ' temperature' =
     \<lparr>gyroX = gyroX', gyroY = gyroY', gyroZ = gyroZ', accX = accX', accY = accY', accZ = accZ',
      temperature = temperature'\<rparr>"

text \<open>The default member initializers: every field is zero (\<open>0.0f\<close> has all bits clear).\<close>

definition default_HandshakePacket :: HandshakePacket where
  "default_HandshakePacket = \<lparr>handshake = 0\<rparr>"

definition default_RcRxPacket :: RcRxPacket where
  "default_RcRxPacket = \<lparr>timestamp = 0, state = 0, motorStickPosition = 0,
     aileronStickPosition = 0, elevatorStickPosition = 0, rudderStickPosition = 0\<rparr>"

definition default_ControlSurfacePacket :: ControlSurfacePacket where
  "default_ControlSurfacePacket = \<lparr>motorSpeed = 0, aileronDeflection = 0,
     elevatorDeflection = 0, rudderDeflection = 0\<rparr>"

definition default_ImuPacket :: ImuPacket where
  "default_ImuPacket = \<lparr>gyroX = 0, gyroY = 0, gyroZ = 0, accX = 0, accY = 0, accZ = 0,
     temperature = 0\<rparr>"

subsection \<open>Comparison operators\<close>

definition eq_HandshakePacket :: "HandshakePacket \<Rightarrow> HandshakePacket \<Rightarrow> bool" where
  "eq_HandshakePacket p q \<longleftrightarrow> handshake p = handshake q"

definition eq_RcRxPacket :: "RcRxPacket \<Rightarrow> RcRxPacket \<Rightarrow> bool" where
  "eq_RcRxPacket p q \<longleftrightarrow> timestamp p = timestamp q \<and> state p = state q
     \<and> motorStickPosition p = motorStickPosition q
     \<and> aileronStickPosition p = aileronStickPosition q
     \<and> elevatorStickPosition p = elevatorStickPosition q
     \<and> rudderStickPosition p = rudderStickPosition q"

definition eq_ControlSurfacePacket :: "ControlSurfacePacket \<Rightarrow> ControlSurfacePacket \<Rightarrow> bool" where
  "eq_ControlSurfacePacket p q \<longleftrightarrow> motorSpeed p = motorSpeed q
     \<and> aileronDeflection p = aileronDeflection q
     \<and> elevatorDeflection p = elevatorDeflection q
     \<and> rudderDeflection p = rudderDeflection q"

definition eq_float :: "u32 \<Rightarrow> u32 \<Rightarrow> bool" where
  "eq_float a b \<longleftrightarrow> fp_eq (fp_of_bits32 a) (fp_of_bits32 b)"

definition eq_ImuPacket :: "ImuPacket \<Rightarrow> ImuPacket \<Rightarrow> bool" where
  "eq_ImuPacket p q \<longleftrightarrow> eq_float (gyroX p) (gyroX q) \<and> eq_float (gyroY p) (gyroY q)
     \<and> eq_float (gyroZ p) (gyroZ q) \<and> eq_float (accX p) (accX q) \<and> eq_float (accY p) (accY q)
     \<and> eq_float (accZ p) (accZ q) \<and> eq_float (temperature p) (temperature q)"

definition ne_HandshakePacket :: "HandshakePacket \<Rightarrow> HandshakePacket \<Rightarrow> bool" where
  "ne_HandshakePacket p q \<longleftrightarrow> handshake p \<noteq> handshake q"

definition ne_RcRxPacket :: "RcRxPacket \<Rightarrow> RcRxPacket \<Rightarrow> bool" where
  "ne_RcRxPacket p q \<longleftrightarrow> \<not> eq_RcRxPacket p q"

definition ne_ControlSurfacePacket :: "ControlSurfacePacket \<Rightarrow> ControlSurfacePacket \<Rightarrow> bool" where
  "ne_ControlSurfacePacket p q \<longleftrightarrow> \<not> eq_ControlSurfacePacket p q"

definition ne_ImuPacket :: "ImuPacket \<Rightarrow> ImuPacket \<Rightarrow> bool" where
  "ne_ImuPacket p q \<longleftrightarrow> \<not> eq_ImuPacket p q"

lemma eq_HandshakePacket_iff: "eq_HandshakePacket p q \<longleftrightarrow> p = q"
  by (cases p; cases q) (simp add: eq_HandshakePacket_def)

lemma eq_RcRxPacket_iff: "eq_RcRxPacket p q \<longleftrightarrow> p = q"
  by (cases p; cases q) (auto simp: eq_RcRxPacket_def)

lemma eq_ControlSurfacePacket_iff: "eq_ControlSurfacePacket p q \<longleftrightarrow> p = q"
  by (cases p; cases q) (auto simp: eq_ControlSurfacePacket_def)

subsection \<open>Object representations\<close>

definition enc_HandshakePacket :: "HandshakePacket \<Rightarrow> byte list" where
  "enc_HandshakePacket p = [handshake p]"

definition dec_HandshakePacket :: "byte list \<Rightarrow> HandshakePacket" where
  "dec_HandshakePacket bs = \<lparr>handshake = byte_at 0 bs\<rparr>"

definition enc_RcRxPacket :: "RcRxPacket \<Rightarrow> byte list" where
  "enc_RcRxPacket p = le_u32 (timestamp p) @ [state p, motorStickPosition p,
     aileronStickPosition p, elevatorStickPosition p, rudderStickPosition p]"

definition dec_RcRxPacket :: "byte list \<Rightarrow> RcRxPacket" where
  "dec_RcRxPacket bs = \<lparr>timestamp = u32_le (field_bytes 0 4 bs), state = byte_at 4 bs,
     motorStickPosition = byte_at 5 bs, aileronStickPosition = byte_at 6 bs,
     elevatorStickPosition = byte_at 7 bs, rudderStickPosition = byte_at 8 bs\<rparr>"

definition enc_ControlSurfacePacket :: "ControlSurfacePacket \<Rightarrow> byte list" where
  "enc_ControlSurfacePacket p = [motorSpeed p, aileronDeflection p, elevatorDeflection p,
     rudderDeflection p]"

definition dec_ControlSurfacePacket :: "byte list \<Rightarrow> ControlSurfacePacket" where
  "dec_ControlSurfacePacket bs = \<lparr>motorSpeed = byte_at 0 bs, aileronDeflection = byte_at 1 bs,
     elevatorDeflection = byte_at 2 bs, rudderDeflection = byte_at 3 bs\<rparr>"

definition enc_ImuPacket :: "ImuPacket \<Rightarrow> byte list" where
  "enc_ImuPacket p = le_u32 (gyroX p) @ le_u32 (gyroY p) @ le_u32 (gyroZ p) @ le_u32 (accX p)
     @ le_u32 (accY p) @ le_u32 (accZ p) @ le_u32 (temperature p)"

definition dec_ImuPacket :: "byte list \<Rightarrow> ImuPacket" where
  "dec_ImuPacket bs = \<lparr>gyroX = u32_le (field_bytes 0 4 bs), gyroY = u32_le (field_bytes 4 4 bs),
     gyroZ = u32_le (field_bytes 8 4 bs), accX = u32_le (field_bytes 12 4 bs),
     accY = u32_le (field_bytes 16 4 bs), accZ = u32_le (field_bytes 20 4 bs),
     temperature = u32_le (field_bytes 24 4 bs)\<rparr>"

lemmas packet_codec_defs =
  enc_HandshakePacket_def dec_HandshakePacket_def enc_RcRxPacket_def dec_RcRxPacket_def
  enc_ControlSurfacePacket_def dec_ControlSurfacePacket_def enc_ImuPacket_def dec_ImuPacket_def

interpretation handshake: packed_codec 1 enc_HandshakePacket dec_HandshakePacket
  by unfold_locales
    (auto simp: packet_codec_defs byte_at_def length_Suc_conv)

interpretation control: packed_codec 4 enc_ControlSurfacePacket dec_ControlSurfacePacket
  by unfold_locales
    (auto simp: packet_codec_defs byte_at_def length_Suc_conv eval_nat_numeral)

interpretation rcrx: packed_codec 9 enc_RcRxPacket dec_RcRxPacket
proof
  fix bs :: "byte list" assume "length bs = 9"
  then have "length bs = 4 + 5" by simp
  then obtain cs ds where bs: "bs = cs @ ds" "length cs = 4" and "length ds = 5"
    by (rule split_bytes)
  from this(3) obtain a b c d e where "ds = [a, b, c, d, e]"
    by (auto simp: length_Suc_conv eval_nat_numeral)
  with bs show "enc_RcRxPacket (dec_RcRxPacket bs) = bs"
    by (simp add: packet_codec_defs byte_at_def field_bytes_def le_u32_u32_le)
qed (auto simp: packet_codec_defs byte_at_def field_bytes_def)

interpretation imu: packed_codec 28 enc_ImuPacket dec_ImuPacket
proof
  fix bs :: "byte list" assume l: "length bs = 28"
  have "take 4 (drop 20 bs) @ drop 24 bs = drop 20 bs" "take 4 (drop 16 bs) @ drop 20 bs = drop 16 bs"
    "take 4 (drop 12 bs) @ drop 16 bs = drop 12 bs" "take 4 (drop 8 bs) @ drop 12 bs = drop 8 bs"
    "take 4 (drop 4 bs) @ drop 8 bs = drop 4 bs"
    using field_bytes_append[of 4 20 bs] field_bytes_append[of 4 16 bs] field_bytes_append[of 4 12 bs]
      field_bytes_append[of 4 8 bs] field_bytes_append[of 4 4 bs] by simp_all
  with l show "enc_ImuPacket (dec_ImuPacket bs) = bs"
    by (simp add: packet_codec_defs field_bytes_def le_u32_u32_le)
qed (auto simp: packet_codec_defs field_bytes_def)

subsection \<open>Log text\<close>

definition show_HandshakePacket :: "HandshakePacket \<Rightarrow> string" where
  "show_HandshakePacket p = ''handshake = '' @ show_nat (unat (handshake p))"

definition show_RcRxPacket :: "RcRxPacket \<Rightarrow> string" where
  "show_RcRxPacket p =
     ''timestamp = '' @ show_nat (unat (timestamp p))
     @ '' | state = '' @ show_bits8 (state p)
     @ '' | motorStickPosition = '' @ show_nat (unat (motorStickPosition p))
     @ '' | aileronStickPosition = '' @ show_int (sint (aileronStickPosition p))
     @ '' | elevatorStickPosition = '' @ show_int (sint (elevatorStickPosition p))
     @ '' | rudderStickPosition = '' @ show_int (sint (rudderStickPosition p))"

definition show_ControlSurfacePacket :: "ControlSurfacePacket \<Rightarrow> string" where
  "show_ControlSurfacePacket p =
     ''motorSpeed = '' @ show_nat (unat (motorSpeed p))
     @ '' | aileronDeflection = '' @ show_int (sint (aileronDeflection p))
     @ '' | elevatorDeflection = '' @ show_int (sint (elevatorDeflection p))
     @ '' | rudderDeflection = '' @ show_int (sint (rudderDeflection p))"

definition show_ImuPacket :: "ImuPacket \<Rightarrow> string" where
  "show_ImuPacket p =
     ''gyroX = '' @ show_float (gyroX p) @ '' | gyroY = '' @ show_float (gyroY p)
     @ ''| gyroZ = '' @ show_float (gyroZ p) @ '' | accX = '' @ show_float (accX p)
     @ '' | accY = '' @ show_float (accY p) @ '' | accZ = '' @ show_float (accZ p)
     @ '' | temperature = '' @ show_float (temperature p)"

lemmas show_packet_defs = show_HandshakePacket_def show_RcRxPacket_def show_ControlSurfacePacket_def

lemma show_HandshakePacket_inject: "show_HandshakePacket h = show_HandshakePacket h' \<longleftrightarrow> h = h'"
  by (cases h; cases h') (simp add: show_packet_defs unat_inject)

lemma show_RcRxPacket_inject: "show_RcRxPacket r = show_RcRxPacket r' \<longleftrightarrow> r = r'"
  by (cases r; cases r') (auto simp: show_packet_defs text_simps unat_inject sint_inject)

lemma show_ControlSurfacePacket_inject:
  "show_ControlSurfacePacket c = show_ControlSurfacePacket c' \<longleftrightarrow> c = c'"
  by (cases c; cases c') (auto simp: show_packet_defs text_simps unat_inject sint_inject)

subsection \<open>Properties\<close>

text \<open>
  C33 The four packets are exchanged without loss: each has a representation of its fixed size (1, 9, 4 and 28
  bytes) from which it is read back, and every byte string of that size is the representation of
  the packet read from it.
\<close>
theorem packet_roundtrip:
  "dec_HandshakePacket (enc_HandshakePacket h) = h \<and> length (enc_HandshakePacket h) = 1
   \<and> dec_RcRxPacket (enc_RcRxPacket r) = r \<and> length (enc_RcRxPacket r) = 9
   \<and> dec_ControlSurfacePacket (enc_ControlSurfacePacket c) = c \<and> length (enc_ControlSurfacePacket c) = 4
   \<and> dec_ImuPacket (enc_ImuPacket i) = i \<and> length (enc_ImuPacket i) = 28
   \<and> enc_HandshakePacket (dec_HandshakePacket [a]) = [a]
   \<and> enc_ControlSurfacePacket (dec_ControlSurfacePacket [a, b, d, e]) = [a, b, d, e]
   \<and> (length bs = 9 \<longrightarrow> enc_RcRxPacket (dec_RcRxPacket bs) = bs)
   \<and> (length bs = 28 \<longrightarrow> enc_ImuPacket (dec_ImuPacket bs) = bs)"
  using handshake.dec_enc rcrx.dec_enc control.dec_enc imu.dec_enc handshake.enc_length rcrx.enc_length
    control.enc_length imu.enc_length handshake.enc_dec[of "[a]"] control.enc_dec[of "[a, b, d, e]"]
    rcrx.enc_dec[of bs] imu.enc_dec[of bs]
  by simp

theorem packet_roundtrip_witness:
  "enc_RcRxPacket (dec_RcRxPacket [1, 2, 3, 4, 0x83, 50, 0xF9, 10, 0]) = [1, 2, 3, 4, 0x83, 50, 0xF9, 10, 0]
   \<and> enc_ImuPacket (dec_ImuPacket (replicate 28 7)) = replicate 28 7"
  using packet_roundtrip[of default_HandshakePacket default_RcRxPacket default_ControlSurfacePacket
      default_ImuPacket 0 0 0 0 "[1, 2, 3, 4, 0x83, 50, 0xF9, 10, 0]"]
    packet_roundtrip[of default_HandshakePacket default_RcRxPacket default_ControlSurfacePacket
      default_ImuPacket 0 0 0 0 "replicate 28 7"]
  by simp

text \<open>
  The comparison operators of the integer packets are equality of the packets, hence of the bytes sent; that of
  the IMU packet is not: a packet with a NaN differs from itself, and two packets that differ in the sign of a zero are
  equal though their bytes are not.
\<close>
lemma packet_equality:
  "(eq_RcRxPacket r r' \<longleftrightarrow> enc_RcRxPacket r = enc_RcRxPacket r')
   \<and> (eq_ControlSurfacePacket c c' \<longleftrightarrow> enc_ControlSurfacePacket c = enc_ControlSurfacePacket c')
   \<and> (eq_HandshakePacket h h' \<longleftrightarrow> enc_HandshakePacket h = enc_HandshakePacket h')
   \<and> \<not> eq_ImuPacket (default_ImuPacket\<lparr>gyroX := 0x7FC00000\<rparr>) (default_ImuPacket\<lparr>gyroX := 0x7FC00000\<rparr>)
   \<and> eq_ImuPacket (default_ImuPacket\<lparr>gyroX := 0x80000000\<rparr>) default_ImuPacket
   \<and> enc_ImuPacket (default_ImuPacket\<lparr>gyroX := 0x80000000\<rparr>) \<noteq> enc_ImuPacket default_ImuPacket"
proof -
  have "\<not> eq_ImuPacket (default_ImuPacket\<lparr>gyroX := 0x7FC00000\<rparr>) (default_ImuPacket\<lparr>gyroX := 0x7FC00000\<rparr>)"
    "eq_ImuPacket (default_ImuPacket\<lparr>gyroX := 0x80000000\<rparr>) default_ImuPacket" by code_simp+
  then show ?thesis
    by (simp add: eq_RcRxPacket_iff eq_ControlSurfacePacket_iff eq_HandshakePacket_iff rcrx.enc_inject
        control.enc_inject handshake.enc_inject imu.enc_inject default_ImuPacket_def)
qed

end
