(* ===== verification/AutopilotUtility.thy ===== *)
theory AutopilotUtility
  imports Config Packet
begin

section \<open>AutopilotUtility: limits and range mapping\<close>

text \<open>
  \<^verbatim>\<open>autopilot/AutopilotUtility\<close>: the configured limits and the functions that map a stick position or
  a controller output into them. \<open>bindToRange\<close> is computed in \<^verbatim>\<open>int\<close> (no 8-bit argument overflows a
  32-bit \<^verbatim>\<open>int\<close>) and converted back to the 8-bit type, which wraps. The lemmas give the closed form
  of each mapping on sticks within their nominal range, its bounds and its monotonicity.
\<close>

record AutopilotUtility =
  c_maxThrottle :: u8
  c_maxAileronDeflection :: i8
  c_maxElevatorDeflection :: i8
  c_maxRudderDeflection :: i8
  m_configManager :: ConfigManager

definition new_AutopilotUtility ::
  "(string \<Rightarrow> string list) \<Rightarrow> ConfigManager \<Rightarrow> AutopilotUtility res" where
  "new_AutopilotUtility split cm =
     res_bind (getValue split get_u8 cm ''rcplane.autopilot.max_throttle'') (\<lambda>t.
     res_bind (getValue split get_i8 cm ''rcplane.autopilot.max_aileron_deflection'') (\<lambda>a.
     res_bind (getValue split get_i8 cm ''rcplane.autopilot.max_elevator_deflection'') (\<lambda>e.
     res_bind (getValue split get_i8 cm ''rcplane.autopilot.max_rudder_deflection'') (\<lambda>r.
       Inr \<lparr>c_maxThrottle = t, c_maxAileronDeflection = a, c_maxElevatorDeflection = e,
            c_maxRudderDeflection = r, m_configManager = cm\<rparr>))))"

definition getConfigManager :: "AutopilotUtility \<Rightarrow> ConfigManager" where
  "getConfigManager u = m_configManager u"

definition bindToRange ::
  "('a::len word \<Rightarrow> int) \<Rightarrow> 'a word \<Rightarrow> 'a word \<Rightarrow> 'a word \<Rightarrow> 'a word \<Rightarrow> 'a word \<Rightarrow> 'a word" where
  \<comment> \<open>\<open>val\<close> reads the type: \<open>uint\<close> for \<^verbatim>\<open>uint8_t\<close>, \<open>sint\<close> for \<^verbatim>\<open>int8_t\<close>\<close>
  "bindToRange val value inputMin inputMax outputMin outputMax =
     word_of_int (cdiv ((val value - val inputMin) * (val outputMax - val outputMin))
                       (val inputMax - val inputMin) + val outputMin)"

definition bindRcThrottle :: "AutopilotUtility \<Rightarrow> u8 \<Rightarrow> u8" where
  "bindRcThrottle u value = bindToRange uint value 0 100 0 (c_maxThrottle u)"

definition bindRcAileronDeflection :: "AutopilotUtility \<Rightarrow> i8 \<Rightarrow> i8" where
  "bindRcAileronDeflection u value =
     bindToRange sint value (- 100) 100 (- c_maxAileronDeflection u) (c_maxAileronDeflection u)"

definition bindRcElevatorDeflection :: "AutopilotUtility \<Rightarrow> i8 \<Rightarrow> i8" where
  "bindRcElevatorDeflection u value =
     bindToRange sint value (- 100) 100 (- c_maxElevatorDeflection u) (c_maxElevatorDeflection u)"

definition bindRcRudderDeflection :: "AutopilotUtility \<Rightarrow> i8 \<Rightarrow> i8" where
  "bindRcRudderDeflection u value =
     bindToRange sint value (- 100) 100 (- c_maxRudderDeflection u) (c_maxRudderDeflection u)"

definition bindPidAileronDeflection :: "AutopilotUtility \<Rightarrow> fp \<Rightarrow> fp" where
  \<comment> \<open>the \<^verbatim>\<open>int8_t\<close> limit and its \<^verbatim>\<open>int\<close> negation are converted to \<^verbatim>\<open>double\<close>\<close>
  "bindPidAileronDeflection u value =
     (if fp_less (fp_of_int binary64 (sint (c_maxAileronDeflection u))) value
        then fp_of_int binary64 (sint (c_maxAileronDeflection u))
      else if fp_less value (fp_of_int binary64 (- sint (c_maxAileronDeflection u)))
        then fp_of_int binary64 (- sint (c_maxAileronDeflection u))
      else value)"

definition bindPidElevatorDeflection :: "AutopilotUtility \<Rightarrow> i8 \<Rightarrow> i8" where
  "bindPidElevatorDeflection u value =
     (if sint value > sint (c_maxElevatorDeflection u) then c_maxElevatorDeflection u
      else if sint value < - sint (c_maxElevatorDeflection u)
        then word_of_int (- sint (c_maxElevatorDeflection u))
      else value)"

subsection \<open>Well-formed limits and inputs\<close>

definition limits_ok :: "AutopilotUtility \<Rightarrow> bool" where
  "limits_ok u \<longleftrightarrow> 0 \<le> sint (c_maxAileronDeflection u) \<and> 0 \<le> sint (c_maxElevatorDeflection u)
     \<and> 0 \<le> sint (c_maxRudderDeflection u)"

definition stick_ok :: "i8 \<Rightarrow> bool" where
  "stick_ok v \<longleftrightarrow> - 100 \<le> sint v \<and> sint v \<le> 100"

definition sticks_ok :: "RcRxPacket \<Rightarrow> bool" where
  "sticks_ok r \<longleftrightarrow> uint (motorStickPosition r) \<le> 100 \<and> stick_ok (aileronStickPosition r)
     \<and> stick_ok (elevatorStickPosition r) \<and> stick_ok (rudderStickPosition r)"

definition in_envelope :: "AutopilotUtility \<Rightarrow> ControlSurfacePacket \<Rightarrow> bool" where
  "in_envelope u c \<longleftrightarrow> uint (motorSpeed c) \<le> uint (c_maxThrottle u)
     \<and> \<bar>sint (aileronDeflection c)\<bar> \<le> sint (c_maxAileronDeflection u)
     \<and> \<bar>sint (elevatorDeflection c)\<bar> \<le> sint (c_maxElevatorDeflection u)
     \<and> \<bar>sint (rudderDeflection c)\<bar> \<le> sint (c_maxRudderDeflection u)"

subsection \<open>Stick mappings\<close>

lemma sint_uminus8: "0 \<le> sint (c :: 8 word) \<Longrightarrow> sint (- c) = - sint c"
  using sint_word_of_int8[of "- sint c"] sint8_range[of c] by simp

definition scaled :: "int \<Rightarrow> int \<Rightarrow> int" where
  \<comment> \<open>a percentage of a limit, rounded down\<close>
  "scaled c v = v * c div 100"

lemma scaled_bounds: "- 100 \<le> v \<Longrightarrow> v \<le> 100 \<Longrightarrow> 0 \<le> c \<Longrightarrow> \<bar>scaled c v\<bar> \<le> c"
proof -
  assume v: "- 100 \<le> v" "v \<le> 100" and c: "0 \<le> c"
  have "v * c \<le> 100 * c" "- 100 * c \<le> v * c"
    using mult_right_mono[OF v(2) c] mult_right_mono[OF v(1) c] by simp_all
  then have "v * c div 100 \<le> c" "- c \<le> v * c div 100" by linarith+
  then show ?thesis by (simp add: scaled_def abs_le_iff)
qed

lemma scaled_mono: "v \<le> w \<Longrightarrow> 0 \<le> c \<Longrightarrow> scaled c v \<le> scaled c w"
  by (simp add: scaled_def zdiv_mono1 mult_right_mono)

lemma bindToRange_deflection:
  fixes v c :: i8
  assumes "- 100 \<le> sint v" "sint v \<le> 100" "0 \<le> sint c"
  shows "sint (bindToRange sint v (- 100) 100 (- c) c) = scaled (sint c) (sint v)"
proof -
  let ?v = "sint v" and ?c = "sint c"
  have lits: "sint (- 100 :: i8) = - 100" "sint (100 :: i8) = 100" by simp_all
  have "(?v + 100) * (2 * ?c) = (?v * ?c + 100 * ?c) * 2" by (simp add: algebra_simps)
  moreover have "0 \<le> (?v + 100) * (2 * ?c)" using assms by simp
  ultimately have "cdiv ((?v + 100) * (2 * ?c)) 200 = scaled ?c ?v + ?c"
    by (simp add: cdiv_nonneg scaled_def mult.commute)
  then have "bindToRange sint v (- 100) 100 (- c) c = word_of_int (scaled ?c ?v)"
    using assms(3) lits by (simp add: bindToRange_def sint_uminus8)
  moreover have "\<bar>scaled ?c ?v\<bar> \<le> ?c" using assms by (intro scaled_bounds) auto
  ultimately show ?thesis using sint8_range[of c] by (simp add: sint_word_of_int8)
qed

lemma bindRc_deflections:
  assumes "limits_ok u" "stick_ok v"
  shows "sint (bindRcAileronDeflection u v) = scaled (sint (c_maxAileronDeflection u)) (sint v)"
    "sint (bindRcElevatorDeflection u v) = scaled (sint (c_maxElevatorDeflection u)) (sint v)"
    "sint (bindRcRudderDeflection u v) = scaled (sint (c_maxRudderDeflection u)) (sint v)"
  using assms
  by (simp_all add: bindRcAileronDeflection_def bindRcElevatorDeflection_def
      bindRcRudderDeflection_def bindToRange_deflection limits_ok_def stick_ok_def)

lemma bindRcThrottle_eq:
  assumes "uint v \<le> 100"
  shows "uint (bindRcThrottle u v) = scaled (uint (c_maxThrottle u)) (uint v)"
proof -
  let ?v = "uint v" and ?c = "uint (c_maxThrottle u)"
  have "bindRcThrottle u v = word_of_int (scaled ?c ?v)"
    by (simp add: bindRcThrottle_def bindToRange_def cdiv_nonneg scaled_def)
  moreover have "0 \<le> scaled ?c ?v" by (simp add: scaled_def pos_imp_zdiv_nonneg_iff)
  moreover have "\<bar>scaled ?c ?v\<bar> \<le> ?c"
    using scaled_bounds[of ?v ?c] assms uint8_range[of v] by simp
  ultimately show ?thesis using uint8_range[of "c_maxThrottle u"] by (simp add: uint_word_of_int8)
qed

lemma bindRc_bounds:
  assumes "limits_ok u" "stick_ok v"
  shows "\<bar>sint (bindRcAileronDeflection u v)\<bar> \<le> sint (c_maxAileronDeflection u)"
    "\<bar>sint (bindRcElevatorDeflection u v)\<bar> \<le> sint (c_maxElevatorDeflection u)"
    "\<bar>sint (bindRcRudderDeflection u v)\<bar> \<le> sint (c_maxRudderDeflection u)"
  using assms scaled_bounds by (simp_all add: bindRc_deflections limits_ok_def stick_ok_def)

lemma bindRcThrottle_bound: "uint v \<le> 100 \<Longrightarrow> uint (bindRcThrottle u v) \<le> uint (c_maxThrottle u)"
  using scaled_bounds[of "uint v" "uint (c_maxThrottle u)"] uint8_range[of v]
  by (simp add: bindRcThrottle_eq)

subsection \<open>Controller outputs\<close>

lemma bindPidElevatorDeflection_bound:
  "0 \<le> sint (c_maxElevatorDeflection u)
   \<Longrightarrow> \<bar>sint (bindPidElevatorDeflection u v)\<bar> \<le> sint (c_maxElevatorDeflection u)"
  using sint8_range[of "c_maxElevatorDeflection u"]
    sint_uminus8[of "c_maxElevatorDeflection u"]
  by (auto simp: bindPidElevatorDeflection_def)

lemma bindPidElevatorDeflection_id:
  "\<bar>sint v\<bar> \<le> sint (c_maxElevatorDeflection u) \<Longrightarrow> bindPidElevatorDeflection u v = v"
  by (auto simp: bindPidElevatorDeflection_def)

lemma fp_of_small_int:
  assumes "\<bar>n\<bar> \<le> 128"
  shows "is_fin (fp_of_int binary64 n) \<and> fp_val (fp_of_int binary64 n) = of_int n"
proof -
  have rep: "representable binary64 (of_int k)" if "\<bar>k\<bar> \<le> 128" for k
    using that by (intro representable_int) (auto simp: binary64_def qmin_def)
  have "(of_int \<bar>n\<bar> :: rat) \<le> of_int 128" using assms by (simp only: of_int_le_iff)
  then have "is_fin (fp_of_int binary64 n) \<and> fp_val (fp_of_int binary64 n) = rnd binary64 (of_int n)"
    unfolding fp_of_int_def fp_of_rat_def using rep[of 128]
    by (intro round_fp_val[of _ 128]) (auto simp: binary64_def pow2_def)
  then show ?thesis using rnd_representable[OF rep[OF assms]] by simp
qed

lemma bindPidAileronDeflection_fin:
  assumes c: "0 \<le> sint (c_maxAileronDeflection u)" and x: "is_fin x"
  shows "is_fin (bindPidAileronDeflection u x)"
    "\<bar>fp_val (bindPidAileronDeflection u x)\<bar> \<le> of_int (sint (c_maxAileronDeflection u))"
    "fp_val (bindPidAileronDeflection u x) =
       max (- of_int (sint (c_maxAileronDeflection u)))
           (min (of_int (sint (c_maxAileronDeflection u))) (fp_val x))"
proof -
  let ?c = "sint (c_maxAileronDeflection u)"
  have s: "is_fin (fp_of_int binary64 ?c)" "fp_val (fp_of_int binary64 ?c) = of_int ?c"
    "is_fin (fp_of_int binary64 (- ?c))" "fp_val (fp_of_int binary64 (- ?c)) = - of_int ?c"
    using fp_of_small_int[of ?c] fp_of_small_int[of "- ?c"] c sint8_range[of "c_maxAileronDeflection u"]
    by auto
  have c': "(0::rat) \<le> of_int ?c" using c by (simp only: of_int_0_le_iff)
  show "is_fin (bindPidAileronDeflection u x)"
    using s x by (simp add: bindPidAileronDeflection_def)
  show "fp_val (bindPidAileronDeflection u x) = max (- of_int ?c) (min (of_int ?c) (fp_val x))"
    using s x c' by (simp add: bindPidAileronDeflection_def fp_less_fin)
  then show "\<bar>fp_val (bindPidAileronDeflection u x)\<bar> \<le> of_int ?c" using c' by (simp add: abs_le_iff)
qed

subsection \<open>Properties\<close>

text \<open>
  A surface stick within its range is mapped into the limits: centre to centre, either end to the
  limit of that side, no further than the limit, and never against the stick (monotone), for aileron, elevator and
  rudder alike.
\<close>
lemma stick_mapping:
  assumes "limits_ok u" "stick_ok v" "stick_ok w" "sint v \<le> sint w"
  shows "sint (bindRcAileronDeflection u v) \<le> sint (bindRcAileronDeflection u w)
    \<and> sint (bindRcElevatorDeflection u v) \<le> sint (bindRcElevatorDeflection u w)
    \<and> sint (bindRcRudderDeflection u v) \<le> sint (bindRcRudderDeflection u w)
    \<and> \<bar>sint (bindRcAileronDeflection u v)\<bar> \<le> sint (AutopilotUtility.c_maxAileronDeflection u)
    \<and> \<bar>sint (bindRcElevatorDeflection u v)\<bar> \<le> sint (c_maxElevatorDeflection u)
    \<and> \<bar>sint (bindRcRudderDeflection u v)\<bar> \<le> sint (c_maxRudderDeflection u)
    \<and> sint (bindRcAileronDeflection u 0) = 0
    \<and> sint (bindRcAileronDeflection u 100) = sint (AutopilotUtility.c_maxAileronDeflection u)
    \<and> sint (bindRcAileronDeflection u (- 100)) = - sint (AutopilotUtility.c_maxAileronDeflection u)"
proof -
  have "stick_ok 0" "stick_ok 100" "stick_ok (- 100)" by (simp_all add: stick_ok_def)
  note ends = this[THEN bindRc_deflections(1)[OF assms(1)]]
  have "scaled c 0 = 0" "scaled c 100 = c" "scaled c (- 100) = - c" for c by (simp_all add: scaled_def)
  then show ?thesis
    using assms bindRc_bounds[OF assms(1,2)] ends
    by (simp add: bindRc_deflections scaled_mono limits_ok_def)
qed

lemma stick_mapping_example:
  "sint (bindRcAileronDeflection \<lparr>c_maxThrottle = 255, c_maxAileronDeflection = 35,
      c_maxElevatorDeflection = 40, c_maxRudderDeflection = 20, m_configManager = new_ConfigManager\<rparr> (- 7))
   \<le> sint (bindRcAileronDeflection \<lparr>c_maxThrottle = 255, c_maxAileronDeflection = 35,
      c_maxElevatorDeflection = 40, c_maxRudderDeflection = 20, m_configManager = new_ConfigManager\<rparr> 60)"
  using stick_mapping[of "\<lparr>c_maxThrottle = 255, c_maxAileronDeflection = 35,
      c_maxElevatorDeflection = 40, c_maxRudderDeflection = 20, m_configManager = new_ConfigManager\<rparr>" "- 7" 60]
  by (simp add: limits_ok_def stick_ok_def)

text \<open>
  C35 The throttle stick is not bounded before it is mapped: for every byte the result is the scaled value modulo
  256. Up to 100 that is a fraction of the limit; with the shipped limit of 255, a stick of 101 gives a motor
  speed of 1 instead of 255.
\<close>
theorem throttle_mapping:
  "uint (bindRcThrottle u v) = uint v * uint (c_maxThrottle u) div 100 mod 256
   \<and> (uint v \<le> 100 \<longrightarrow> uint (bindRcThrottle u v) = uint v * uint (c_maxThrottle u) div 100
        \<and> uint (bindRcThrottle u v) \<le> uint (c_maxThrottle u))
   \<and> (c_maxThrottle u = 255 \<longrightarrow> bindRcThrottle u 100 = 255 \<and> bindRcThrottle u 101 = 1)"
proof -
  let ?x = "uint v * uint (c_maxThrottle u) div 100"
  have "bindRcThrottle u v = word_of_int ?x"
    by (simp add: bindRcThrottle_def bindToRange_def cdiv_nonneg)
  then have "uint (bindRcThrottle u v) = ?x mod 256" by (simp add: uint_word_of_int)
  moreover have "uint (bindRcThrottle u v) = ?x" "uint (bindRcThrottle u v) \<le> uint (c_maxThrottle u)" if "uint v \<le> 100"
    using bindRcThrottle_eq[OF that] bindRcThrottle_bound[OF that, of u] by (simp_all add: scaled_def)
  moreover have "bindRcThrottle u 100 = 255 \<and> bindRcThrottle u 101 = 1" if "c_maxThrottle u = 255"
    using that by (simp add: bindRcThrottle_def bindToRange_def cdiv_nonneg)
  ultimately show ?thesis by blast
qed

theorem throttle_mapping_witness:
  "uint (bindRcThrottle \<lparr>c_maxThrottle = 200, c_maxAileronDeflection = 35,
      c_maxElevatorDeflection = 40, c_maxRudderDeflection = 20, m_configManager = new_ConfigManager\<rparr> 50) = 100"
  using throttle_mapping[of "\<lparr>c_maxThrottle = 200, c_maxAileronDeflection = 35,
      c_maxElevatorDeflection = 40, c_maxRudderDeflection = 20, m_configManager = new_ConfigManager\<rparr>" 50]
  by simp

end
