(* ===== verification/Autopilot.thy ===== *)
theory Autopilot
  imports AutopilotUtility
begin

section \<open>The autopilot interface and the manual autopilot\<close>

text \<open>
  \<^verbatim>\<open>autopilot/IAutopilot.hpp\<close> and \<^verbatim>\<open>autopilot/ManualAutopilot\<close>. The interface has one operation,
  \<^verbatim>\<open>trigger\<close>, which fills the control surface packet it is given. The contract every autopilot keeps
  and every caller relies on is the locale \<open>iautopilot\<close>: all four fields are written, the throttle and
  rudder sticks pass through, the result stays within the configured limits, and the invariant of
  the autopilot's own state is kept. What follows from it for a run of triggers is proved once.
\<close>

fun run_triggers ::
  "('s \<Rightarrow> ControlSurfacePacket \<Rightarrow> RcRxPacket \<Rightarrow> ImuPacket \<Rightarrow> ('s \<times> ControlSurfacePacket) res)
   \<Rightarrow> 's \<Rightarrow> (RcRxPacket \<times> ImuPacket) list \<Rightarrow> ('s \<times> ControlSurfacePacket list) res" where
  \<comment> \<open>one trigger per received pair of packets, each on a fresh control surface packet\<close>
  "run_triggers trig s [] = Inr (s, [])"
| "run_triggers trig s ((r, i) # ps) =
     res_bind (trig s default_ControlSurfacePacket r i) (\<lambda>(s', c).
     res_bind (run_triggers trig s' ps) (\<lambda>(s'', cs). Inr (s'', c # cs)))"

locale iautopilot =
  fixes util :: AutopilotUtility
    and trigger :: "'s \<Rightarrow> ControlSurfacePacket \<Rightarrow> RcRxPacket \<Rightarrow> ImuPacket
                    \<Rightarrow> ('s \<times> ControlSurfacePacket) res"
    and inv :: "'s \<Rightarrow> bool"
    and imu_ok :: "ImuPacket \<Rightarrow> bool"
  assumes overwrites: "trigger s c r i = trigger s c' r i"
    and throttle: "trigger s c r i = Inr (s', c')
      \<Longrightarrow> motorSpeed c' = bindRcThrottle util (motorStickPosition r)"
    and rudder: "trigger s c r i = Inr (s', c')
      \<Longrightarrow> rudderDeflection c' = bindRcRudderDeflection util (rudderStickPosition r)"
    and defined: "limits_ok util \<Longrightarrow> inv s \<Longrightarrow> imu_ok i \<Longrightarrow> \<exists>s' c'. trigger s c r i = Inr (s', c') \<and> inv s'"
    and envelope: "limits_ok util \<Longrightarrow> inv s \<Longrightarrow> imu_ok i \<Longrightarrow> sticks_ok r
      \<Longrightarrow> trigger s c r i = Inr (s', c') \<Longrightarrow> in_envelope util c'"
begin

lemma run_safe:
  assumes "limits_ok util" "inv s" "\<forall>(r, i) \<in> set ps. imu_ok i \<and> sticks_ok r"
  shows "\<exists>s' cs. run_triggers trigger s ps = Inr (s', cs) \<and> inv s' \<and> length cs = length ps
                \<and> (\<forall>c \<in> set cs. in_envelope util c)"
  using assms(2,3)
proof (induction ps arbitrary: s)
  case (Cons p ps)
  obtain r i where p: "p = (r, i)" by force
  with Cons.prems have ok: "imu_ok i" "sticks_ok r" by auto
  obtain s' c where t: "trigger s default_ControlSurfacePacket r i = Inr (s', c)" "inv s'"
    using defined[OF assms(1) Cons.prems(1) ok(1)] by blast
  have c: "in_envelope util c" using envelope[OF assms(1) Cons.prems(1) ok t(1)] .
  obtain s'' cs where "run_triggers trigger s' ps = Inr (s'', cs)" "inv s''" "length cs = length ps"
    "\<forall>c \<in> set cs. in_envelope util c" using Cons.IH[OF t(2)] Cons.prems(2) by auto
  with t c p show ?case by simp
qed simp

end

subsection \<open>ManualAutopilot\<close>

text \<open>The class has no state beside the reference to the utility.\<close>

definition ManualAutopilot_trigger ::
  "AutopilotUtility \<Rightarrow> ControlSurfacePacket \<Rightarrow> RcRxPacket \<Rightarrow> ControlSurfacePacket" where
  "ManualAutopilot_trigger u controlSurfacePacket rcRxPacket =
     controlSurfacePacket
       \<lparr>motorSpeed := bindRcThrottle u (motorStickPosition rcRxPacket),
        aileronDeflection := bindRcAileronDeflection u (aileronStickPosition rcRxPacket),
        elevatorDeflection := bindRcElevatorDeflection u (elevatorStickPosition rcRxPacket),
        rudderDeflection := bindRcRudderDeflection u (rudderStickPosition rcRxPacket)\<rparr>"

lemma ManualAutopilot_trigger_envelope:
  "limits_ok u \<Longrightarrow> sticks_ok r \<Longrightarrow> in_envelope u (ManualAutopilot_trigger u c r)"
  using bindRc_bounds bindRcThrottle_bound
  by (simp add: ManualAutopilot_trigger_def in_envelope_def sticks_ok_def)

interpretation manual: iautopilot u
  "\<lambda>s c r (i :: ImuPacket). Inr (s :: unit, ManualAutopilot_trigger u c r)" "\<lambda>_. True" "\<lambda>_. True"
  for u
  by unfold_locales (auto simp: ManualAutopilot_trigger_envelope, simp_all add: ManualAutopilot_trigger_def)

end
