(* ===== verification/Stabilize.thy ===== *)
theory Stabilize
  imports Autopilot
begin

section \<open>StabilizeAutopilot: the two PID controllers\<close>

text \<open>
  \<^verbatim>\<open>autopilot/StabilizeAutopilot\<close>. The record holds the members of the class, configuration and
  controller state; every assignment of the two \<^verbatim>\<open>compute...\<close> functions is an update, in the order of
  the source, and each expression is associated as C++ parses it, one rounding per operation (no
  contraction to fused multiply-add). The conversions of a \<^verbatim>\<open>double\<close> to \<^verbatim>\<open>int8_t\<close>, the implicit one in
  the call of \<^verbatim>\<open>bindIntegralError\<close> included, are undefined out of range.
\<close>

record StabilizeAutopilot =
  c_maxAileronDeflection_d :: fp
  c_kp :: fp
  c_ki :: fp
  c_kd :: fp
  c_tau :: fp
  c_maxIntegralError :: fp
  m_timeStamp :: fp
  m_prevRollError :: fp
  m_prevPitchError :: fp
  m_rollDerivativeError :: fp
  m_rollIntegralError :: fp
  m_pitchIntegralError :: fp
  m_desiredRollAngle :: fp
  m_desiredPitchAngle :: fp

abbreviation (input) fadd :: "fp \<Rightarrow> fp \<Rightarrow> fp" where "fadd \<equiv> fp_add binary64"
abbreviation (input) fsub :: "fp \<Rightarrow> fp \<Rightarrow> fp" where "fsub \<equiv> fp_sub binary64"
abbreviation (input) fmul :: "fp \<Rightarrow> fp \<Rightarrow> fp" where "fmul \<equiv> fp_mul binary64"
abbreviation (input) fdiv :: "fp \<Rightarrow> fp \<Rightarrow> fp" where "fdiv \<equiv> fp_div binary64"

definition new_StabilizeAutopilot ::
  "(string \<Rightarrow> string list) \<Rightarrow> AutopilotUtility \<Rightarrow> StabilizeAutopilot res" where
  "new_StabilizeAutopilot split u =
     (let cm = getConfigManager u in
     res_bind (getValue split get_double cm ''rcplane.autopilot.max_aileron_deflection'') (\<lambda>a.
     res_bind (getValue split get_double cm ''rcplane.autopilot.stabilize.kp'') (\<lambda>kp.
     res_bind (getValue split get_double cm ''rcplane.autopilot.stabilize.ki'') (\<lambda>ki.
     res_bind (getValue split get_double cm ''rcplane.autopilot.stabilize.kd'') (\<lambda>kd.
     res_bind (getValue split get_double cm ''rcplane.autopilot.stabilize.tau'') (\<lambda>tau.
     res_bind (getValue split get_double cm ''rcplane.autopilot.stabilize.max_integral_error'') (\<lambda>mi.
       Inr \<lparr>c_maxAileronDeflection_d = a, c_kp = kp, c_ki = ki, c_kd = kd, c_tau = tau,
            c_maxIntegralError = mi, m_timeStamp = Fin 0, m_prevRollError = Fin 0,
            m_prevPitchError = Fin 0, m_rollDerivativeError = Fin 0, m_rollIntegralError = Fin 0,
            m_pitchIntegralError = Fin 0, m_desiredRollAngle = Fin 0,
            m_desiredPitchAngle = Fin 0\<rparr>)))))))"

subsection \<open>Roll\<close>

definition loop_dt :: fp where
  \<comment> \<open>\<^verbatim>\<open>constexpr double timestamp = 0.04\<close>\<close>
  "loop_dt = fp_of_rat binary64 (4 / 100)"

definition roll_integral :: "StabilizeAutopilot \<Rightarrow> fp \<Rightarrow> fp" where
  "roll_integral s error =
     fadd (m_rollIntegralError s)
          (fmul (fdiv loop_dt (Fin 2)) (fadd error (m_prevRollError s)))"

definition roll_derivative :: "StabilizeAutopilot \<Rightarrow> fp \<Rightarrow> fp" where
  "roll_derivative s error =
     fadd (fmul (fdiv (fsub (fmul (Fin 2) (c_tau s)) loop_dt) (fadd (fmul (Fin 2) (c_tau s)) loop_dt))
                (m_rollDerivativeError s))
          (fmul (fdiv (Fin 2) (fadd (fmul (Fin 2) (c_tau s)) loop_dt))
                (fsub error (m_prevRollError s)))"

definition pid_output :: "StabilizeAutopilot \<Rightarrow> fp \<Rightarrow> fp \<Rightarrow> fp \<Rightarrow> fp" where
  "pid_output s error integral derivative =
     fadd (fadd (fmul (c_kp s) error) (fmul (c_ki s) integral)) (fmul (c_kd s) derivative)"

fun anti_windup :: "StabilizeAutopilot \<Rightarrow> fp \<Rightarrow> fp \<Rightarrow> fp" where
  \<comment> \<open>the integral error after the output was bounded\<close>
  "anti_windup s unsaturatedOutput output =
     fadd (m_rollIntegralError s)
          (fmul (fdiv loop_dt (c_ki s)) (fsub output unsaturatedOutput))"

definition roll_errors :: "StabilizeAutopilot \<Rightarrow> fp \<Rightarrow> StabilizeAutopilot" where
  \<comment> \<open>the integral, derivative and previous error, up to the computation of the output\<close>
  "roll_errors s error =
     s\<lparr>m_rollIntegralError := roll_integral s error,
       m_rollDerivativeError := roll_derivative s error,
       m_prevRollError := error\<rparr>"

definition roll_output :: "StabilizeAutopilot \<Rightarrow> fp" where
  "roll_output s = pid_output s (m_prevRollError s) (m_rollIntegralError s) (m_rollDerivativeError s)"

definition roll_saturate ::
  "AutopilotUtility \<Rightarrow> StabilizeAutopilot \<Rightarrow> fp \<Rightarrow> (StabilizeAutopilot \<times> i8) res" where
  \<comment> \<open>from the bounding of the output to the return; \<open>output\<close> is unsaturated\<close>
  "roll_saturate u s output =
     res_bind (fp_to_i8 (bindPidAileronDeflection u output)) (\<lambda>b.
       Inr (s\<lparr>m_rollIntegralError :=
                anti_windup s output (bindPidAileronDeflection u output)\<rparr>, b))"

definition roll_step ::
  "AutopilotUtility \<Rightarrow> StabilizeAutopilot \<Rightarrow> (StabilizeAutopilot \<times> i8) res" where
  "roll_step u s = roll_saturate u s (roll_output s)"

definition computeRollToAileronDeflection ::
  "AutopilotUtility \<Rightarrow> StabilizeAutopilot \<Rightarrow> fp \<Rightarrow> (StabilizeAutopilot \<times> i8) res" where
  "computeRollToAileronDeflection u s rollAngle =
     roll_step u (roll_errors s (fsub (m_desiredRollAngle s) rollAngle))"

subsection \<open>Pitch\<close>

definition bindIntegralError :: "StabilizeAutopilot \<Rightarrow> i8 \<Rightarrow> i8 res" where
  "bindIntegralError s integralError =
     (if fp_less (c_maxIntegralError s) (fp_of_int binary64 (sint integralError))
        then fp_to_i8 (c_maxIntegralError s)
      else if fp_less (fp_of_int binary64 (sint integralError)) (fp_neg (c_maxIntegralError s))
        then fp_to_i8 (fp_neg (c_maxIntegralError s))
      else Inr integralError)"

definition pitch_finish ::
  "StabilizeAutopilot \<Rightarrow> fp \<Rightarrow> fp \<Rightarrow> i8 \<Rightarrow> (StabilizeAutopilot \<times> i8) res" where
  \<comment> \<open>from the bounded integral error to the return\<close>
  "pitch_finish s error derivative integral =
     res_bind (fp_to_i8 (pid_output s error (fp_of_int binary64 (sint integral)) derivative)) (\<lambda>b.
       Inr (s\<lparr>m_pitchIntegralError := fp_of_int binary64 (sint integral),
              m_prevPitchError := error\<rparr>, b))"

definition pitch_step :: "StabilizeAutopilot \<Rightarrow> fp \<Rightarrow> (StabilizeAutopilot \<times> i8) res" where
  "pitch_step s error =
     res_bind (fp_to_i8 (fadd (m_pitchIntegralError s) error)) (\<lambda>arg.
     res_bind (bindIntegralError s arg) (\<lambda>integral.
       pitch_finish s error (fsub error (m_prevPitchError s)) integral))"

definition computePitchToElevatorDeflection ::
  "StabilizeAutopilot \<Rightarrow> fp \<Rightarrow> (StabilizeAutopilot \<times> i8) res" where
  "computePitchToElevatorDeflection s pitchAngle =
     pitch_step s (fsub (m_desiredPitchAngle s) pitchAngle)"

subsection \<open>Trigger\<close>

definition StabilizeAutopilot_trigger ::
  "AutopilotUtility \<Rightarrow> StabilizeAutopilot \<Rightarrow> ControlSurfacePacket \<Rightarrow> RcRxPacket \<Rightarrow> ImuPacket
   \<Rightarrow> (StabilizeAutopilot \<times> ControlSurfacePacket) res" where
  "StabilizeAutopilot_trigger u s controlSurfacePacket rcRxPacket imuPacket =
     res_bind (computeRollToAileronDeflection u s (fp_of_bits32 (gyroX imuPacket))) (\<lambda>(s1, aileron).
     res_bind (computePitchToElevatorDeflection s1 (fp_of_bits32 (gyroY imuPacket))) (\<lambda>(s2, elevator).
       Inr (s2, controlSurfacePacket
         \<lparr>motorSpeed := bindRcThrottle u (motorStickPosition rcRxPacket),
          aileronDeflection := aileron,
          elevatorDeflection := bindPidElevatorDeflection u elevator,
          rudderDeflection := bindRcRudderDeflection u (rudderStickPosition rcRxPacket)\<rparr>)))"

subsection \<open>Properties\<close>

lemma fp_nonfin_add: "\<not> is_fin x \<or> \<not> is_fin y \<Longrightarrow> \<not> is_fin (fp_add F x y)"
  by (cases x; cases y) auto

lemma fp_nonfin_mul: "\<not> is_fin x \<Longrightarrow> \<not> is_fin (fp_mul F x y)"
  by (cases x; cases y) auto

lemma fp_zero_mul_nonfin: "\<not> is_fin y \<Longrightarrow> fp_mul F (Fin 0) y = NaN"
  by (cases y) auto

lemma fp_add_NaN [simp]: "fp_add F x NaN = NaN" "fp_add F NaN x = NaN"
  by (cases x; simp)+

lemma fp_less_NaN [simp]: "fp_less x NaN = False"
  by (cases x) auto

lemma loop_dt_over_zero: "fp_div binary64 loop_dt (Fin 0) = Inf False"
  by code_simp

lemma roll_integral_nonfin_undefined:
  assumes "c_ki s = Fin 0" "\<not> is_fin (m_rollIntegralError s)"
  shows "computeRollToAileronDeflection u s a = Inl (Undefined FloatConversion)"
proof -
  define s1 where "s1 = roll_errors s (fp_sub binary64 (m_desiredRollAngle s) a)"
  have "\<not> is_fin (m_rollIntegralError s1)" "c_ki s1 = Fin 0"
    using assms fp_nonfin_add by (simp_all add: s1_def roll_errors_def roll_integral_def)
  then have "roll_output s1 = NaN"
    by (simp add: roll_output_def pid_output_def fp_zero_mul_nonfin)
  then have "bindPidAileronDeflection u (roll_output s1) = NaN" by (simp add: bindPidAileronDeflection_def)
  then have "roll_saturate u s1 (roll_output s1) = Inl (Undefined FloatConversion)"
    by (simp add: roll_saturate_def fp_to_i8_def fp_to_int_def)
  then show ?thesis by (simp add: computeRollToAileronDeflection_def roll_step_def s1_def)
qed

text \<open>
  C38 With an integral gain of zero the roll controller works once: the anti-windup term divides by the gain, the
  first call leaves an integral error that is no number or infinite, and whatever the angle, the
  second call converts a NaN to \<^verbatim>\<open>int8_t\<close>.
\<close>
theorem zero_ki_undefined:
  assumes "c_ki s = Fin 0" "computeRollToAileronDeflection u s a = Inr (s', b)"
  shows "\<not> is_fin (m_rollIntegralError s')
    \<and> computeRollToAileronDeflection u s' a' = Inl (Undefined FloatConversion)"
proof -
  define s1 where "s1 = roll_errors s (fp_sub binary64 (m_desiredRollAngle s) a)"
  have k: "c_ki s1 = Fin 0" using assms(1) by (simp add: s1_def roll_errors_def)
  from assms(2) have s': "s' = s1\<lparr>m_rollIntegralError := anti_windup s1 (roll_output s1)
      (bindPidAileronDeflection u (roll_output s1))\<rparr>"
    by (auto simp: computeRollToAileronDeflection_def roll_step_def roll_saturate_def res_simps s1_def[symmetric])
  have "\<not> is_fin (m_rollIntegralError s')"
    using k by (simp add: s' loop_dt_over_zero fp_nonfin_add fp_nonfin_mul)
  moreover have "c_ki s' = Fin 0" using k by (simp add: s')
  ultimately show ?thesis using roll_integral_nonfin_undefined by blast
qed

theorem zero_ki_undefined_witness:
  "\<exists>s' b. computeRollToAileronDeflection
      \<lparr>c_maxThrottle = 255, c_maxAileronDeflection = 35, c_maxElevatorDeflection = 40,
       c_maxRudderDeflection = 20, m_configManager = new_ConfigManager\<rparr>
      \<lparr>c_maxAileronDeflection_d = Fin 35, c_kp = Fin 1, c_ki = Fin 0, c_kd = Fin 0, c_tau = Fin 1,
       c_maxIntegralError = Fin 4, m_timeStamp = Fin 0, m_prevRollError = Fin 0, m_prevPitchError = Fin 0,
       m_rollDerivativeError = Fin 0, m_rollIntegralError = Fin 0, m_pitchIntegralError = Fin 0,
       m_desiredRollAngle = Fin 0, m_desiredPitchAngle = Fin 0\<rparr> (Fin 0) = Inr (s', b)
    \<and> computeRollToAileronDeflection
      \<lparr>c_maxThrottle = 255, c_maxAileronDeflection = 35, c_maxElevatorDeflection = 40,
       c_maxRudderDeflection = 20, m_configManager = new_ConfigManager\<rparr> s' (Fin 0)
      = Inl (Undefined FloatConversion)"
proof -
  let ?u = "\<lparr>c_maxThrottle = 255, c_maxAileronDeflection = 35, c_maxElevatorDeflection = 40,
       c_maxRudderDeflection = 20, m_configManager = new_ConfigManager\<rparr>"
  let ?s = "\<lparr>c_maxAileronDeflection_d = Fin 35, c_kp = Fin 1, c_ki = Fin 0, c_kd = Fin 0, c_tau = Fin 1,
       c_maxIntegralError = Fin 4, m_timeStamp = Fin 0, m_prevRollError = Fin 0, m_prevPitchError = Fin 0,
       m_rollDerivativeError = Fin 0, m_rollIntegralError = Fin 0, m_pitchIntegralError = Fin 0,
       m_desiredRollAngle = Fin 0, m_desiredPitchAngle = Fin 0\<rparr>"
  have "\<not> isl (computeRollToAileronDeflection ?u ?s (Fin 0))" by code_simp
  then obtain s' b where e: "computeRollToAileronDeflection ?u ?s (Fin 0) = Inr (s', b)"
    by (cases "computeRollToAileronDeflection ?u ?s (Fin 0)") auto
  from zero_ki_undefined[OF _ e] e show ?thesis by auto
qed

end
