(* ===== verification/Stabilize_Bounds.thy ===== *)
theory Stabilize_Bounds
  imports Stabilize
begin

section \<open>Boundedness of the stabilizing controllers\<close>

text \<open>
  With the shipped gains (\<^verbatim>\<open>configs/config.json\<close>) the state of both controllers stays bounded over any
  number of triggers, so no operation overflows, no NaN arises and every conversion to \<^verbatim>\<open>int8_t\<close> is
  defined. The argument is about the code's floating-point expressions: each operation is within
  one half of the exact one (\<open>rnd_error\<close>), and the bounds leave room for all of these errors. The
  integral of the roll controller is kept in by the anti-windup correction, which the invariant
  needs: without saturation it would grow by up to 7.7 per trigger.
\<close>

lemma near64:
  assumes "\<bar>r\<bar> \<le> 1000000"
  shows "is_fin (round_fp binary64 s r) \<and> \<bar>fp_val (round_fp binary64 s r) - r\<bar> \<le> 1 / 2"
proof -
  have "representable binary64 (of_int 1000000)"
    by (rule representable_int) (auto simp: binary64_def qmin_def)
  moreover have "\<bar>r\<bar> < 2 ^ prec binary64" using assms by (simp add: binary64_def)
  then have "\<bar>rnd binary64 r - r\<bar> \<le> 1 / 2" by (rule rnd_error) (simp add: binary64_def qmin_def)
  ultimately show ?thesis
    using round_fp_val[OF assms, of binary64] by (simp add: binary64_def pow2_def)
qed

text \<open>One operation on operands whose exact result is below a million.\<close>

lemma fadd_near:
  assumes "is_fin x" "is_fin y" "\<bar>fp_val x + fp_val y\<bar> \<le> 1000000"
  shows "is_fin (fadd x y)" "\<bar>fp_val (fadd x y) - (fp_val x + fp_val y)\<bar> \<le> 1 / 2"
  using near64[OF assms(3)] assms(1,2) by (cases x; cases y; simp add: fp_of_rat_def)+

lemma fsub_near:
  assumes "is_fin x" "is_fin y" "\<bar>fp_val x - fp_val y\<bar> \<le> 1000000"
  shows "is_fin (fsub x y)" "\<bar>fp_val (fsub x y) - (fp_val x - fp_val y)\<bar> \<le> 1 / 2"
  using fadd_near[of x "fp_neg y"] assms by (simp_all add: fp_sub_def)

lemma fmul_near:
  assumes "is_fin x" "is_fin y" "\<bar>fp_val x * fp_val y\<bar> \<le> 1000000"
  shows "is_fin (fmul x y)" "\<bar>fp_val (fmul x y) - fp_val x * fp_val y\<bar> \<le> 1 / 2"
  using near64[OF assms(3)] assms(1,2) by (cases x; cases y; simp)+

lemma fmul_const_near:
  assumes "is_fin x" "\<bar>k * fp_val x\<bar> \<le> 1000000"
  shows "is_fin (fmul (Fin k) x)" "\<bar>fp_val (fmul (Fin k) x) - k * fp_val x\<bar> \<le> 1 / 2"
  using fmul_near[of "Fin k" x] assms by simp_all

definition fp_within :: "fp \<Rightarrow> rat \<Rightarrow> bool" where
  "fp_within x b \<longleftrightarrow> is_fin x \<and> \<bar>fp_val x\<bar> \<le> b"

subsection \<open>The shipped gains\<close>

definition shipped_gains :: "StabilizeAutopilot \<Rightarrow> bool" where
  "shipped_gains s \<longleftrightarrow> c_kp s = fp_of_rat binary64 (5 / 10)
     \<and> c_ki s = fp_of_rat binary64 (5 / 100) \<and> c_kd s = fp_of_rat binary64 (8 / 100)
     \<and> c_tau s = fp_of_rat binary64 (5 / 100) \<and> c_maxIntegralError s = fp_of_int binary64 4
     \<and> m_desiredRollAngle s = Fin 0 \<and> m_desiredPitchAngle s = Fin 0"

lemma gain_values:
  "fp_of_rat binary64 (5 / 10) = Fin (1 / 2)"
  "fp_of_rat binary64 (5 / 100) = Fin (3602879701896397 / 72057594037927936)"
  "fp_of_rat binary64 (8 / 100) = Fin (5764607523034235 / 72057594037927936)"
  "fp_of_int binary64 4 = Fin 4" "fp_of_int binary64 (- 4) = Fin (- 4)"
  "loop_dt = Fin (5764607523034235 / 144115188075855872)"
  by code_simp+

lemma shipped_gainsD:
  assumes "shipped_gains s"
  shows "c_kp s = Fin (1 / 2)" "c_ki s = Fin (3602879701896397 / 72057594037927936)"
    "c_kd s = Fin (5764607523034235 / 72057594037927936)"
    "c_tau s = Fin (3602879701896397 / 72057594037927936)" "c_maxIntegralError s = Fin 4"
    "m_desiredRollAngle s = Fin 0" "m_desiredPitchAngle s = Fin 0"
  using assms unfolding shipped_gains_def gain_values by blast+

lemma tau_terms:
  "fdiv loop_dt (Fin 2) = Fin (5764607523034235 / 288230376151711744)"
  "fdiv (fsub (fmul (Fin 2) (Fin (3602879701896397 / 72057594037927936))) loop_dt)
        (fadd (fmul (Fin 2) (Fin (3602879701896397 / 72057594037927936))) loop_dt)
     = Fin (7720456504063707 / 18014398509481984)"
  "fdiv (Fin 2) (fadd (fmul (Fin 2) (Fin (3602879701896397 / 72057594037927936))) loop_dt)
     = Fin (2010535547933257 / 140737488355328)"
  "fdiv loop_dt (Fin (3602879701896397 / 72057594037927936))
     = Fin (7205759403792793 / 9007199254740992)"
  by code_simp+

subsection \<open>Roll\<close>

definition roll_inv :: "StabilizeAutopilot \<Rightarrow> bool" where
  "roll_inv s \<longleftrightarrow> shipped_gains s \<and> fp_within (m_prevRollError s) 181
     \<and> fp_within (m_rollDerivativeError s) 9500 \<and> fp_within (m_rollIntegralError s) 25000"

lemma roll_integral_bound:
  assumes "roll_inv s" "fp_within e 181"
  shows "fp_within (roll_integral s e) 25009"
proof -
  let ?p = "m_prevRollError s" and ?i = "m_rollIntegralError s"
  let ?k = "5764607523034235 / 288230376151711744 :: rat"
  let ?a = "fadd e ?p" let ?m = "fmul (Fin ?k) ?a"
  have b: "\<bar>fp_val e\<bar> \<le> 181" "\<bar>fp_val ?p\<bar> \<le> 181" "\<bar>fp_val ?i\<bar> \<le> 25000"
    and f: "is_fin e" "is_fin ?p" "is_fin ?i" using assms by (auto simp: roll_inv_def fp_within_def)
  have "\<bar>fp_val e + fp_val ?p\<bar> \<le> 1000000" using b unfolding abs_le_iff by linarith
  note a = fadd_near[OF f(1,2) this]
  have "\<bar>?k * fp_val ?a\<bar> \<le> 1000000" using b a(2) unfolding abs_le_iff by linarith
  note m = fmul_const_near[OF a(1) this]
  have "\<bar>fp_val ?i + fp_val ?m\<bar> \<le> 1000000" using b a(2) m(2) unfolding abs_le_iff by linarith
  note r = fadd_near[OF f(3) m(1) this]
  have "\<bar>fp_val (fadd ?i ?m)\<bar> \<le> 25009" using b a(2) m(2) r(2) unfolding abs_le_iff by linarith
  then show ?thesis using r(1) by (simp only: fp_within_def roll_integral_def tau_terms(1) simp_thms)
qed

lemma roll_derivative_bound:
  assumes "roll_inv s" "fp_within e 181"
  shows "fp_within (roll_derivative s e) 9500"
proof -
  let ?p = "m_prevRollError s" and ?d = "m_rollDerivativeError s"
  let ?A = "7720456504063707 / 18014398509481984 :: rat"
  let ?B = "2010535547933257 / 140737488355328 :: rat"
  let ?a = "fsub e ?p" let ?m = "fmul (Fin ?A) ?d" let ?n = "fmul (Fin ?B) ?a"
  have b: "\<bar>fp_val e\<bar> \<le> 181" "\<bar>fp_val ?p\<bar> \<le> 181" "\<bar>fp_val ?d\<bar> \<le> 9500"
    and f: "is_fin e" "is_fin ?p" "is_fin ?d" using assms by (auto simp: roll_inv_def fp_within_def)
  have "\<bar>fp_val e - fp_val ?p\<bar> \<le> 1000000" using b unfolding abs_le_iff by linarith
  note a = fsub_near[OF f(1,2) this]
  have "\<bar>?A * fp_val ?d\<bar> \<le> 1000000" using b unfolding abs_le_iff by linarith
  note m = fmul_const_near[OF f(3) this]
  have "\<bar>?B * fp_val ?a\<bar> \<le> 1000000" using b a(2) unfolding abs_le_iff by linarith
  note n = fmul_const_near[OF a(1) this]
  have "\<bar>fp_val ?m + fp_val ?n\<bar> \<le> 1000000" using b a(2) m(2) n(2) unfolding abs_le_iff by linarith
  note r = fadd_near[OF m(1) n(1) this]
  have "\<bar>fp_val (fadd ?m ?n)\<bar> \<le> 9500" using b a(2) m(2) n(2) r(2) unfolding abs_le_iff by linarith
  moreover have "roll_derivative s e = fadd ?m ?n"
    using assms(1) by (simp only: roll_derivative_def roll_inv_def shipped_gainsD tau_terms)
  ultimately show ?thesis using r(1) by (simp only: fp_within_def simp_thms)
qed

text \<open>
  The anti-windup correction on rationals: \<open>o'\<close> is the unsaturated output, \<open>c\<close> the limit, \<open>i2\<close> the
  corrected integral, each within the rounding errors of its exact value.
\<close>

lemma windup_arith:
  fixes i1 p d x y out c w z i2 :: rat
  assumes "\<bar>i1\<bar> \<le> 25009" "\<bar>p\<bar> \<le> 92" "\<bar>d\<bar> \<le> 762" "0 \<le> c" "c \<le> 127"
    and "\<bar>x - 3602879701896397 / 72057594037927936 * i1\<bar> \<le> 1 / 2"
    and "\<bar>y - (p + x)\<bar> \<le> 1 / 2" "\<bar>out - (y + d)\<bar> \<le> 1 / 2"
    and "\<bar>w - (max (- c) (min c out) - out)\<bar> \<le> 1 / 2"
    and "\<bar>z - 7205759403792793 / 9007199254740992 * w\<bar> \<le> 1 / 2" "\<bar>i2 - (i1 + z)\<bar> \<le> 1 / 2"
  shows "\<bar>i2\<bar> \<le> 25000"
proof -
  consider "c < out" | "out < - c" | "- c \<le> out" "out \<le> c" by linarith
  then show ?thesis
  proof cases
    case 1
    then have "max (- c) (min c out) = c" using assms(4) by simp
    with 1 assms show ?thesis unfolding abs_le_iff by linarith
  next
    case 2
    then have "max (- c) (min c out) = - c" using assms(4) by simp
    with 2 assms show ?thesis unfolding abs_le_iff by linarith
  next
    case 3
    then have "max (- c) (min c out) = out" by simp
    with 3 assms show ?thesis unfolding abs_le_iff by linarith
  qed
qed

lemma roll_output_bound:
  assumes g: "shipped_gains s" and "fp_within (m_prevRollError s) 181"
    "fp_within (m_rollDerivativeError s) 9500" "fp_within (m_rollIntegralError s) 25009"
  obtains p x y d where "is_fin (roll_output s)" "\<bar>p\<bar> \<le> 92" "\<bar>d\<bar> \<le> 762"
    "\<bar>x - 3602879701896397 / 72057594037927936 * fp_val (m_rollIntegralError s)\<bar> \<le> 1 / 2"
    "\<bar>y - (p + x)\<bar> \<le> 1 / 2" "\<bar>fp_val (roll_output s) - (y + d)\<bar> \<le> 1 / 2"
proof -
  let ?e = "m_prevRollError s" and ?i = "m_rollIntegralError s" and ?d = "m_rollDerivativeError s"
  let ?ki = "3602879701896397 / 72057594037927936 :: rat"
  let ?kd = "5764607523034235 / 72057594037927936 :: rat"
  let ?p = "fmul (Fin (1 / 2)) ?e" and ?x = "fmul (Fin ?ki) ?i" and ?n = "fmul (Fin ?kd) ?d"
  have b: "\<bar>fp_val ?e\<bar> \<le> 181" "\<bar>fp_val ?d\<bar> \<le> 9500" "\<bar>fp_val ?i\<bar> \<le> 25009"
    and f: "is_fin ?e" "is_fin ?d" "is_fin ?i" using assms by (auto simp: fp_within_def)
  have "\<bar>1 / 2 * fp_val ?e\<bar> \<le> 1000000" using b unfolding abs_le_iff by linarith
  note p = fmul_const_near[OF f(1) this]
  have "\<bar>?ki * fp_val ?i\<bar> \<le> 1000000" using b unfolding abs_le_iff by linarith
  note x = fmul_const_near[OF f(3) this]
  have "\<bar>?kd * fp_val ?d\<bar> \<le> 1000000" using b unfolding abs_le_iff by linarith
  note n = fmul_const_near[OF f(2) this]
  have "\<bar>fp_val ?p + fp_val ?x\<bar> \<le> 1000000" using b p(2) x(2) unfolding abs_le_iff by linarith
  note y = fadd_near[OF p(1) x(1) this]
  have "\<bar>fp_val (fadd ?p ?x) + fp_val ?n\<bar> \<le> 1000000"
    using b p(2) x(2) n(2) y(2) unfolding abs_le_iff by linarith
  note o = fadd_near[OF y(1) n(1) this]
  have eq: "roll_output s = fadd (fadd ?p ?x) ?n"
    by (simp only: roll_output_def pid_output_def shipped_gainsD[OF g])
  have "\<bar>fp_val ?p\<bar> \<le> 92" "\<bar>fp_val ?n\<bar> \<le> 762"
    using b p(2) n(2) unfolding abs_le_iff by linarith+
  with that[of "fp_val ?p" "fp_val ?n" "fp_val ?x" "fp_val (fadd ?p ?x)"] x(2) y(2) o eq
  show ?thesis by simp
qed

lemma roll_step_inv:
  assumes u: "0 \<le> sint (AutopilotUtility.c_maxAileronDeflection u)"
    and s: "shipped_gains s" "fp_within (m_prevRollError s) 181"
    "fp_within (m_rollDerivativeError s) 9500" "fp_within (m_rollIntegralError s) 25009"
  shows "\<exists>i b. roll_step u s = Inr (s\<lparr>m_rollIntegralError := i\<rparr>, b) \<and> fp_within i 25000
    \<and> \<bar>sint b\<bar> \<le> sint (AutopilotUtility.c_maxAileronDeflection u)"
proof -
  let ?out = "roll_output s" and ?i = "m_rollIntegralError s"
  let ?sat = "bindPidAileronDeflection u ?out"
  let ?c = "of_int (sint (AutopilotUtility.c_maxAileronDeflection u)) :: rat"
  let ?k = "7205759403792793 / 9007199254740992 :: rat"
  let ?w = "fsub ?sat ?out"  let ?z = "fmul (Fin ?k) ?w"
  obtain p x y d where o: "is_fin ?out" "\<bar>p\<bar> \<le> 92" "\<bar>d\<bar> \<le> 762"
    "\<bar>x - 3602879701896397 / 72057594037927936 * fp_val ?i\<bar> \<le> 1 / 2"
    "\<bar>y - (p + x)\<bar> \<le> 1 / 2" "\<bar>fp_val ?out - (y + d)\<bar> \<le> 1 / 2"
    by (rule roll_output_bound[OF s])
  have i: "is_fin ?i" "\<bar>fp_val ?i\<bar> \<le> 25009" using s(4) by (auto simp: fp_within_def)
  note sat = bindPidAileronDeflection_fin[OF u o(1)]
  have "?c \<le> of_int 127" "of_int 0 \<le> ?c"
    using u sint8_range(2)[of "AutopilotUtility.c_maxAileronDeflection u"] by (simp_all only: of_int_le_iff)
  then have c: "0 \<le> ?c" "?c \<le> 127" by (simp_all only: of_int_numeral of_int_0)
  have "\<bar>fp_val ?sat - fp_val ?out\<bar> \<le> 1000000"
    using o i sat(2) c unfolding abs_le_iff by linarith
  note w = fsub_near[OF sat(1) o(1) this]
  have "\<bar>?k * fp_val ?w\<bar> \<le> 1000000" using o i sat(2) c w(2) unfolding abs_le_iff by linarith
  note z = fmul_const_near[OF w(1) this]
  have "\<bar>fp_val ?i + fp_val ?z\<bar> \<le> 1000000"
    using o i sat(2) c w(2) z(2) unfolding abs_le_iff by linarith
  note r = fadd_near[OF i(1) z(1) this]
  have aw: "anti_windup s ?out ?sat = fadd ?i ?z"
    by (simp only: anti_windup.simps shipped_gainsD[OF s(1)] tau_terms)
  have "\<bar>fp_val (fadd ?i ?z)\<bar> \<le> 25000"
    using windup_arith[OF i(2) o(2,3) c o(4-6) w(2)[unfolded sat(3)] z(2) r(2)] .
  then have iw: "fp_within (anti_windup s ?out ?sat) 25000"
    using r(1) by (simp only: aw fp_within_def simp_thms)
  have t: "fp_to_int (- 128) 127 ?sat = Inr (trunc_rat (fp_val ?sat))"
    using sat(1,2) c by (intro fp_to_int_ok) (simp_all only: abs_le_iff, linarith+)
  have "trunc_rat (fp_val ?sat) \<le> trunc_rat ?c" "trunc_rat (- ?c) \<le> trunc_rat (fp_val ?sat)"
    using sat(2) by (intro trunc_rat_mono; linarith)+
  then have tb: "\<bar>trunc_rat (fp_val ?sat)\<bar> \<le> sint (AutopilotUtility.c_maxAileronDeflection u)"
    unfolding trunc_rat_minus trunc_rat_of_int abs_le_iff by linarith
  then have "sint (word_of_int (trunc_rat (fp_val ?sat)) :: i8) = trunc_rat (fp_val ?sat)"
    using sint8_range[of "AutopilotUtility.c_maxAileronDeflection u"]
    by (intro sint_word_of_int8) linarith+
  with tb iw t show ?thesis
    by (auto simp: roll_step_def roll_saturate_def fp_to_i8_def simp del: anti_windup.simps)
qed

lemma within64:
  \<comment> \<open>a bound that is an integer of the format is kept exactly\<close>
  assumes "\<bar>r\<bar> \<le> of_int n" "0 \<le> n" "n \<le> 1000000"
  shows "fp_within (round_fp binary64 s r) (of_int n)"
proof -
  have rep: "representable binary64 (of_int n)"
    using assms by (intro representable_int) (auto simp: binary64_def qmin_def)
  have "(of_int n :: rat) \<le> of_int 1000000" using assms(3) by (simp only: of_int_le_iff)
  then have "(of_int n :: rat) < pow2 (emax binary64 + 1)" by (simp add: binary64_def pow2_def)
  then show ?thesis using round_fp_val[OF assms(1) rep] rnd_abs_le[OF rep assms(1)]
    by (simp only: fp_within_def simp_thms)
qed

lemma fadd_within:
  assumes "fp_within x a" "fp_within y b" "a + b \<le> of_int n" "0 \<le> n" "n \<le> 1000000"
  shows "fp_within (fadd x y) (of_int n)"
proof -
  have "\<bar>fp_val x + fp_val y\<bar> \<le> of_int n" using assms(1-3) unfolding fp_within_def by linarith
  note w = within64[OF this assms(4,5)]
  have f: "is_fin x" "is_fin y" using assms(1,2) by (auto simp: fp_within_def)
  show ?thesis
  proof (cases "x = NegZero \<and> y = NegZero")
    case True
    have "(0 :: rat) \<le> of_int n" using assms(4) by (simp only: of_int_0_le_iff)
    with True show ?thesis by (simp add: fp_within_def)
  next
    case False
    then show ?thesis using w f by (cases x; cases y; simp add: fp_of_rat_def)
  qed
qed

lemma fp_within_neg [simp]: "fp_within (fp_neg x) b = fp_within x b"
  by (simp add: fp_within_def)

lemma fsub_within:
  "fp_within x a \<Longrightarrow> fp_within y b \<Longrightarrow> a + b \<le> of_int n \<Longrightarrow> 0 \<le> n \<Longrightarrow> n \<le> 1000000
   \<Longrightarrow> fp_within (fsub x y) (of_int n)"
  unfolding fp_sub_def by (rule fadd_within) auto

lemma computeRoll_inv:
  assumes u: "0 \<le> sint (AutopilotUtility.c_maxAileronDeflection u)"
    and s: "roll_inv s" and a: "fp_within rollAngle 180"
  shows "\<exists>i d e b. computeRollToAileronDeflection u s rollAngle =
        Inr (s\<lparr>m_rollIntegralError := i, m_rollDerivativeError := d, m_prevRollError := e\<rparr>, b)
      \<and> roll_inv (s\<lparr>m_rollIntegralError := i, m_rollDerivativeError := d, m_prevRollError := e\<rparr>)
      \<and> \<bar>sint b\<bar> \<le> sint (AutopilotUtility.c_maxAileronDeflection u)"
proof -
  have g: "shipped_gains s" using s by (simp add: roll_inv_def)
  let ?e = "fsub (m_desiredRollAngle s) rollAngle"
  have "fp_within (fsub (Fin 0) rollAngle) (of_int 181)"
    using a by (intro fsub_within[of _ 0 _ 180]) (auto simp: fp_within_def)
  then have e: "fp_within ?e 181" by (simp add: shipped_gainsD[OF g])
  let ?t = "roll_errors s ?e"
  have "shipped_gains ?t" using g by (simp add: shipped_gains_def roll_errors_def)
  moreover have "fp_within (m_prevRollError ?t) 181" "fp_within (m_rollDerivativeError ?t) 9500"
    "fp_within (m_rollIntegralError ?t) 25009"
    using roll_derivative_bound[OF s e] roll_integral_bound[OF s e] e by (simp_all add: roll_errors_def)
  ultimately obtain i b where r: "roll_step u ?t = Inr (?t\<lparr>m_rollIntegralError := i\<rparr>, b)"
    "fp_within i 25000" "\<bar>sint b\<bar> \<le> sint (AutopilotUtility.c_maxAileronDeflection u)"
    using roll_step_inv[OF u] by blast
  have t: "?t\<lparr>m_rollIntegralError := i\<rparr> = s\<lparr>m_rollIntegralError := i,
      m_rollDerivativeError := roll_derivative s ?e, m_prevRollError := ?e\<rparr>"
    by (simp add: roll_errors_def)
  have "roll_inv (s\<lparr>m_rollIntegralError := i, m_rollDerivativeError := roll_derivative s ?e,
      m_prevRollError := ?e\<rparr>)"
    using g r(2) e roll_derivative_bound[OF s e] by (simp add: roll_inv_def shipped_gains_def)
  with r t show ?thesis unfolding computeRollToAileronDeflection_def by metis
qed

end
