(* ===== verification/StabilizeSafety.thy ===== *)
theory StabilizeSafety
  imports Stabilize_Bounds
begin

section \<open>The stabilizing autopilot keeps the contract\<close>

text \<open>
  The pitch controller under the shipped gains, the invariant of the whole autopilot, and its
  interpretation of the interface \<open>iautopilot\<close>: for roll angles up to 180 degrees and pitch angles up
  to 123 degrees every trigger is defined, keeps the invariant and stays within the limits. The
  bound of the pitch angle is the code's: the sum of the pitch error and the integral error (at
  most 4) is converted to \<^verbatim>\<open>int8_t\<close> before it is bounded.
\<close>

subsection \<open>Pitch\<close>

definition pitch_inv :: "StabilizeAutopilot \<Rightarrow> bool" where
  "pitch_inv s \<longleftrightarrow> fp_within (m_prevPitchError s) 123 \<and> fp_within (m_pitchIntegralError s) 4"

lemma fp_to_i8_within:
  assumes "fp_within x 127"
  shows "fp_to_i8 x = Inr (word_of_int (trunc_rat (fp_val x)))"
    "sint (word_of_int (trunc_rat (fp_val x)) :: i8) = trunc_rat (fp_val x)"
proof -
  have b: "is_fin x" "\<bar>fp_val x\<bar> \<le> 127" using assms by (auto simp: fp_within_def)
  then have t: "fp_to_int (- 128) 127 x = Inr (trunc_rat (fp_val x))"
    by (intro fp_to_int_ok) auto
  then show "fp_to_i8 x = Inr (word_of_int (trunc_rat (fp_val x)))" by (simp add: fp_to_i8_def)
  have "- 128 \<le> trunc_rat (fp_val x) \<and> trunc_rat (fp_val x) \<le> 127"
    using t by (auto simp: fp_to_int_def split: if_splits)
  then show "sint (word_of_int (trunc_rat (fp_val x)) :: i8) = trunc_rat (fp_val x)"
    by (intro sint_word_of_int8) auto
qed

lemma fp_of_i8: "is_fin (fp_of_int binary64 (sint (b :: i8)))"
  "fp_val (fp_of_int binary64 (sint (b :: i8))) = of_int (sint b)"
  using fp_of_small_int[of "sint b"] sint8_range[of b] by (auto simp: abs_le_iff)

lemma bindIntegralError_shipped:
  assumes "shipped_gains s"
  shows "bindIntegralError s b = Inr (word_of_int (max (- 4) (min 4 (sint b))))"
proof -
  have l: "fp_less (Fin 4) (fp_of_int binary64 (sint b)) \<longleftrightarrow> 4 < sint b"
    "fp_less (fp_of_int binary64 (sint b)) (fp_neg (Fin 4)) \<longleftrightarrow> sint b < - 4"
    using fp_of_i8[of b] of_int_less_iff[of 4 "sint b", where 'a = rat]
      of_int_less_iff[of "sint b" "- 4", where 'a = rat]
    by (simp_all add: fp_less_fin del: of_int_less_iff)
  have "fp_to_i8 (Fin 4) = Inr 4" "fp_to_i8 (fp_neg (Fin 4)) = Inr (- 4)" by code_simp+
  then show ?thesis using l by (auto simp: bindIntegralError_def shipped_gainsD[OF assms])
qed

lemma pid_pitch_within:
  assumes g: "shipped_gains s" and e: "fp_within e 123" and i: "fp_within i 4" and d: "fp_within d 246"
  shows "fp_within (pid_output s e i d) 127"
proof -
  let ?ki = "3602879701896397 / 72057594037927936 :: rat"
  let ?kd = "5764607523034235 / 72057594037927936 :: rat"
  have b: "\<bar>fp_val e\<bar> \<le> 123" "\<bar>fp_val i\<bar> \<le> 4" "\<bar>fp_val d\<bar> \<le> 246"
    and f: "is_fin e" "is_fin i" "is_fin d" using assms by (auto simp: fp_within_def)
  have "\<bar>1 / 2 * fp_val e\<bar> \<le> 1000000" "\<bar>?ki * fp_val i\<bar> \<le> 1000000" "\<bar>?kd * fp_val d\<bar> \<le> 1000000"
    using b unfolding abs_le_iff by linarith+
  note m = fmul_const_near[OF f(1) this(1)] fmul_const_near[OF f(2) this(2)] fmul_const_near[OF f(3) this(3)]
  have "fp_within (fmul (Fin (1 / 2)) e) 63" "fp_within (fmul (Fin ?ki) i) 1" "fp_within (fmul (Fin ?kd) d) 21"
    using m b unfolding fp_within_def abs_le_iff by linarith+
  then have "fp_within (fadd (fadd (fmul (Fin (1 / 2)) e) (fmul (Fin ?ki) i)) (fmul (Fin ?kd) d)) (of_int 127)"
    by (intro fadd_within[of _ "of_int 64" _ 21] fadd_within[of _ 63 _ 1]) auto
  then show ?thesis by (simp add: pid_output_def shipped_gainsD[OF g])
qed

lemma computePitch_inv:
  assumes g: "shipped_gains s" and s: "pitch_inv s" and a: "fp_within pitchAngle 123"
  shows "\<exists>i e b. computePitchToElevatorDeflection s pitchAngle =
        Inr (s\<lparr>m_pitchIntegralError := i, m_prevPitchError := e\<rparr>, b)
      \<and> pitch_inv (s\<lparr>m_pitchIntegralError := i, m_prevPitchError := e\<rparr>)"
proof -
  let ?e = "fsub (m_desiredPitchAngle s) pitchAngle"
  have "fp_within (fsub (Fin 0) pitchAngle) (of_int 123)"
    using a by (intro fsub_within[of _ 0 _ 123]) (auto simp: fp_within_def)
  then have e: "fp_within ?e 123" by (simp add: shipped_gainsD[OF g])
  have "fp_within (fadd (m_pitchIntegralError s) ?e) (of_int 127)"
    using s e by (intro fadd_within[of _ 4 _ 123]) (auto simp: pitch_inv_def)
  then have c: "fp_to_i8 (fadd (m_pitchIntegralError s) ?e)
      = Inr (word_of_int (trunc_rat (fp_val (fadd (m_pitchIntegralError s) ?e))))"
    using fp_to_i8_within(1) by simp
  have "fp_within (fsub ?e (m_prevPitchError s)) (of_int 246)"
    using s e by (intro fsub_within[of _ 123 _ 123]) (auto simp: pitch_inv_def)
  then have d: "fp_within (fsub ?e (m_prevPitchError s)) 246" by simp
  define k where "k = max (- 4) (min 4 (sint (word_of_int (trunc_rat
      (fp_val (fadd (m_pitchIntegralError s) ?e))) :: i8)))"
  have k: "\<bar>k\<bar> \<le> 4" by (auto simp: k_def)
  then have sk: "sint (word_of_int k :: i8) = k" by (intro sint_word_of_int8) auto
  have "(of_int \<bar>k\<bar> :: rat) \<le> of_int 4" using k by (simp only: of_int_le_iff)
  then have i: "fp_within (fp_of_int binary64 k) 4"
    using fp_of_small_int[of k] k by (simp add: fp_within_def)
  have p: "fp_to_i8 (pid_output s ?e (fp_of_int binary64 k) (fsub ?e (m_prevPitchError s)))
      = Inr (word_of_int (trunc_rat (fp_val (pid_output s ?e (fp_of_int binary64 k)
          (fsub ?e (m_prevPitchError s))))))"
    using fp_to_i8_within(1)[OF pid_pitch_within[OF g e i d]] .
  have "computePitchToElevatorDeflection s pitchAngle =
      Inr (s\<lparr>m_pitchIntegralError := fp_of_int binary64 k, m_prevPitchError := ?e\<rparr>,
        word_of_int (trunc_rat (fp_val (pid_output s ?e (fp_of_int binary64 k)
          (fsub ?e (m_prevPitchError s))))))"
    using c p sk unfolding computePitchToElevatorDeflection_def pitch_step_def pitch_finish_def
    by (simp add: bindIntegralError_shipped[OF g] k_def)
  moreover have "pitch_inv (s\<lparr>m_pitchIntegralError := fp_of_int binary64 k, m_prevPitchError := ?e\<rparr>)"
    using i e by (simp add: pitch_inv_def)
  ultimately show ?thesis by blast
qed

subsection \<open>The whole trigger\<close>

definition stab_inv :: "StabilizeAutopilot \<Rightarrow> bool" where
  "stab_inv s \<longleftrightarrow> roll_inv s \<and> pitch_inv s"

definition attitude_ok :: "ImuPacket \<Rightarrow> bool" where
  "attitude_ok i \<longleftrightarrow> fp_within (fp_of_bits32 (gyroX i)) 180 \<and> fp_within (fp_of_bits32 (gyroY i)) 123"

lemma StabilizeAutopilot_trigger_defined:
  assumes u: "limits_ok u" and s: "stab_inv s" and i: "attitude_ok i"
  shows "\<exists>s' c'. StabilizeAutopilot_trigger u s c r i = Inr (s', c') \<and> stab_inv s'
    \<and> \<bar>sint (aileronDeflection c')\<bar> \<le> sint (AutopilotUtility.c_maxAileronDeflection u)"
proof -
  obtain i1 d1 e1 b1 where a: "computeRollToAileronDeflection u s (fp_of_bits32 (gyroX i)) =
        Inr (s\<lparr>m_rollIntegralError := i1, m_rollDerivativeError := d1, m_prevRollError := e1\<rparr>, b1)"
    "roll_inv (s\<lparr>m_rollIntegralError := i1, m_rollDerivativeError := d1, m_prevRollError := e1\<rparr>)"
    "\<bar>sint b1\<bar> \<le> sint (AutopilotUtility.c_maxAileronDeflection u)"
    using computeRoll_inv[of u s "fp_of_bits32 (gyroX i)"] u s i
    unfolding limits_ok_def stab_inv_def attitude_ok_def by blast
  let ?s = "s\<lparr>m_rollIntegralError := i1, m_rollDerivativeError := d1, m_prevRollError := e1\<rparr>"
  have "shipped_gains ?s" "pitch_inv ?s"
    using a(2) s by (auto simp: roll_inv_def stab_inv_def pitch_inv_def)
  then obtain i2 e2 b2 where b: "computePitchToElevatorDeflection ?s (fp_of_bits32 (gyroY i)) =
        Inr (?s\<lparr>m_pitchIntegralError := i2, m_prevPitchError := e2\<rparr>, b2)"
    "pitch_inv (?s\<lparr>m_pitchIntegralError := i2, m_prevPitchError := e2\<rparr>)"
    using computePitch_inv i by (metis attitude_ok_def)
  have "roll_inv (?s\<lparr>m_pitchIntegralError := i2, m_prevPitchError := e2\<rparr>)"
    using a(2) by (simp add: roll_inv_def shipped_gains_def)
  with a b show ?thesis by (simp add: StabilizeAutopilot_trigger_def stab_inv_def)
qed

lemma StabilizeAutopilot_trigger_fields:
  assumes "StabilizeAutopilot_trigger u s c r i = Inr (s', c')"
  shows "motorSpeed c' = bindRcThrottle u (motorStickPosition r)"
    "rudderDeflection c' = bindRcRudderDeflection u (rudderStickPosition r)"
    "limits_ok u \<Longrightarrow> \<bar>sint (elevatorDeflection c')\<bar> \<le> sint (c_maxElevatorDeflection u)"
  using assms by (auto simp: StabilizeAutopilot_trigger_def bindPidElevatorDeflection_bound limits_ok_def
      split: sum.splits)

interpretation stabilize: iautopilot u "StabilizeAutopilot_trigger u" stab_inv attitude_ok for u
proof
  fix s c c' r i s' c''
  show "StabilizeAutopilot_trigger u s c r i = StabilizeAutopilot_trigger u s c' r i"
    by (cases c; cases c') (auto simp: StabilizeAutopilot_trigger_def split: sum.split)
  assume t: "StabilizeAutopilot_trigger u s c r i = Inr (s', c'')"
  note f = StabilizeAutopilot_trigger_fields[OF t]
  show "motorSpeed c'' = bindRcThrottle u (motorStickPosition r)"
    "rudderDeflection c'' = bindRcRudderDeflection u (rudderStickPosition r)" by (rule f)+
  assume a: "limits_ok u" "stab_inv s" "attitude_ok i" "sticks_ok r"
  then have "\<bar>sint (aileronDeflection c'')\<bar> \<le> sint (AutopilotUtility.c_maxAileronDeflection u)"
    using StabilizeAutopilot_trigger_defined[OF a(1-3), of c r] t by auto
  with a f show "in_envelope u c''"
    using bindRc_bounds[of u] bindRcThrottle_bound[of _ u]
    by (auto simp: in_envelope_def sticks_ok_def limits_ok_def)
qed (use StabilizeAutopilot_trigger_defined in blast)

subsection \<open>Properties\<close>

text \<open>
  C5 The stabilizing autopilot over any flight, with the shipped gains: as long as the roll angle stays within 180
  and the pitch angle within 123 degrees, every trigger is defined, every command stays within the limits, and
  the controller state stays bounded (integral errors by 25000 and 4, the derivative error by 9500), for any
  number of triggers.
\<close>
theorem stabilize_bounded:
  assumes "limits_ok u" "stab_inv s" "\<forall>(r, i) \<in> set ps. attitude_ok i \<and> sticks_ok r"
  shows "\<exists>s' cs. run_triggers (StabilizeAutopilot_trigger u) s ps = Inr (s', cs) \<and> length cs = length ps
    \<and> (\<forall>c \<in> set cs. in_envelope u c)
    \<and> fp_within (m_rollIntegralError s') 25000 \<and> fp_within (m_rollDerivativeError s') 9500
    \<and> fp_within (m_pitchIntegralError s') 4"
proof -
  obtain s' cs where r: "run_triggers (StabilizeAutopilot_trigger u) s ps = Inr (s', cs)" "stab_inv s'"
    "length cs = length ps" "\<forall>c \<in> set cs. in_envelope u c"
    using stabilize.run_safe[OF assms] by blast
  then show ?thesis by (auto simp: stab_inv_def roll_inv_def pitch_inv_def)
qed

definition level_stabilize :: StabilizeAutopilot where
  "level_stabilize = \<lparr>c_maxAileronDeflection_d = Fin 35, c_kp = fp_of_rat binary64 (5 / 10),
     c_ki = fp_of_rat binary64 (5 / 100), c_kd = fp_of_rat binary64 (8 / 100),
     c_tau = fp_of_rat binary64 (5 / 100), c_maxIntegralError = Fin 4, m_timeStamp = Fin 0,
     m_prevRollError = Fin 0, m_prevPitchError = Fin 0, m_rollDerivativeError = Fin 0,
     m_rollIntegralError = Fin 0, m_pitchIntegralError = Fin 0, m_desiredRollAngle = Fin 0,
     m_desiredPitchAngle = Fin 0\<rparr>"

definition level_utility :: AutopilotUtility where
  "level_utility = \<lparr>c_maxThrottle = 255, c_maxAileronDeflection = 35, c_maxElevatorDeflection = 40,
     c_maxRudderDeflection = 20, m_configManager = new_ConfigManager\<rparr>"

lemma level_ok: "stab_inv level_stabilize" "shipped_gains level_stabilize" "limits_ok level_utility"
  by (simp_all add: stab_inv_def roll_inv_def pitch_inv_def shipped_gains_def level_stabilize_def
      fp_within_def gain_values limits_ok_def level_utility_def)

lemma banked: "attitude_ok (default_ImuPacket\<lparr>gyroX := 0xC1700000, gyroY := 0x41200000\<rparr>)"
  \<comment> \<open>roll -15, pitch 10 degrees\<close>
  by code_simp

theorem stabilize_bounded_witness:
  "\<exists>s' cs. run_triggers (StabilizeAutopilot_trigger level_utility) level_stabilize
     (replicate 3 (default_RcRxPacket, default_ImuPacket\<lparr>gyroX := 0xC1700000, gyroY := 0x41200000\<rparr>)) = Inr (s', cs)
    \<and> length cs = 3 \<and> fp_within (m_pitchIntegralError s') 4"
  using stabilize_bounded[OF level_ok(3,1), of
      "replicate 3 (default_RcRxPacket, default_ImuPacket\<lparr>gyroX := 0xC1700000, gyroY := 0x41200000\<rparr>)"] banked
  by (auto simp: sticks_ok_def stick_ok_def default_RcRxPacket_def)

lemma fp_to_i8_far:
  assumes "is_fin x" "129 \<le> \<bar>fp_val x\<bar>"
  shows "fp_to_i8 x = Inl (Undefined FloatConversion)"
proof -
  have "\<not> (- 128 \<le> trunc_rat (fp_val x) \<and> trunc_rat (fp_val x) \<le> 127)"
  proof (cases "0 \<le> fp_val x")
    case True
    then have "trunc_rat (of_int 129) \<le> trunc_rat (fp_val x)" using assms(2) by (intro trunc_rat_mono) simp
    then have "129 \<le> trunc_rat (fp_val x)" by (simp only: trunc_rat_of_int)
    then show ?thesis by simp
  next
    case False
    then have "trunc_rat (fp_val x) \<le> trunc_rat (of_int (- 129))" using assms(2) by (intro trunc_rat_mono) simp
    then have "trunc_rat (fp_val x) \<le> - 129" by (simp only: trunc_rat_of_int)
    then show ?thesis by simp
  qed
  then show ?thesis by (auto simp: fp_to_i8_def fp_to_int_def)
qed

text \<open>
  C37 The pitch controller converts the sum of the pitch error and the integral error to \<^verbatim>\<open>int8_t\<close> before it bounds
  it: from 134 degrees of pitch on, either way, the trigger is undefined, whatever the state the flight
  so far has left.
\<close>
theorem pitch_undefined:
  assumes "limits_ok u" "stab_inv s" "fp_within (fp_of_bits32 (gyroX i)) 180"
    and "is_fin (fp_of_bits32 (gyroY i))" "134 \<le> \<bar>fp_val (fp_of_bits32 (gyroY i))\<bar>"
      "\<bar>fp_val (fp_of_bits32 (gyroY i))\<bar> \<le> 180"
  shows "StabilizeAutopilot_trigger u s c r i = Inl (Undefined FloatConversion)"
proof -
  let ?a = "fp_of_bits32 (gyroY i)"
  obtain i1 d1 e1 b1 where a: "computeRollToAileronDeflection u s (fp_of_bits32 (gyroX i)) =
        Inr (s\<lparr>m_rollIntegralError := i1, m_rollDerivativeError := d1, m_prevRollError := e1\<rparr>, b1)"
    using computeRoll_inv[of u s "fp_of_bits32 (gyroX i)"] assms(1-3)
    unfolding limits_ok_def stab_inv_def by blast
  let ?s = "s\<lparr>m_rollIntegralError := i1, m_rollDerivativeError := d1, m_prevRollError := e1\<rparr>"
  have g: "shipped_gains s" and p: "pitch_inv s" using assms(2) by (auto simp: stab_inv_def roll_inv_def)
  let ?e = "fsub (Fin 0) ?a"
  have "\<bar>fp_val (Fin 0) - fp_val ?a\<bar> \<le> 1000000" using assms(6) by simp
  note e = fsub_near[OF _ assms(4) this]
  have q: "is_fin (m_pitchIntegralError s)" "\<bar>fp_val (m_pitchIntegralError s)\<bar> \<le> 4"
    using p by (auto simp: pitch_inv_def fp_within_def)
  have eb: "is_fin ?e" "133 + 1 / 2 \<le> \<bar>fp_val ?e\<bar>" "\<bar>fp_val ?e\<bar> \<le> 181"
    using e assms(5,6) by (auto simp: abs_if split: if_splits)
  have "\<bar>fp_val (m_pitchIntegralError s) + fp_val ?e\<bar> \<le> 1000000" using q eb unfolding abs_le_iff by linarith
  note f = fadd_near[OF q(1) eb(1) this]
  have "129 \<le> \<bar>fp_val (fadd (m_pitchIntegralError s) ?e)\<bar>"
    using f(2) q(2) eb(2) by (auto simp: abs_if split: if_splits)
  then have "fp_to_i8 (fadd (m_pitchIntegralError s) ?e) = Inl (Undefined FloatConversion)"
    by (rule fp_to_i8_far[OF f(1)])
  then have "computePitchToElevatorDeflection ?s ?a = Inl (Undefined FloatConversion)"
    using shipped_gainsD(7)[OF g] by (simp add: computePitchToElevatorDeflection_def pitch_step_def)
  with a show ?thesis by (simp add: StabilizeAutopilot_trigger_def)
qed

theorem pitch_undefined_witness:
  "StabilizeAutopilot_trigger level_utility level_stabilize default_ControlSurfacePacket default_RcRxPacket
     (default_ImuPacket\<lparr>gyroY := 0x430C0000\<rparr>) = Inl (Undefined FloatConversion)"
proof -
  have "fp_of_bits32 0x430C0000 = Fin 140" "fp_of_bits32 0 = Fin 0" by code_simp+
  then show ?thesis
    using pitch_undefined[OF level_ok(3,1), of "default_ImuPacket\<lparr>gyroY := 0x430C0000\<rparr>"
        default_ControlSurfacePacket default_RcRxPacket]
    by (simp add: fp_within_def default_ImuPacket_def)
qed

text \<open>
  The pitch integral error is kept as a whole number, truncated: from zero, a pitch angle of half a degree or
  less leaves it at zero however long it lasts.
\<close>
lemma pitch_deadband:
  assumes "shipped_gains s" "pitch_inv s" "m_pitchIntegralError s = Fin 0" "fp_within a (1 / 2)"
  shows "\<exists>s' b. computePitchToElevatorDeflection s a = Inr (s', b) \<and> m_pitchIntegralError s' = Fin 0"
proof -
  let ?e = "fsub (Fin 0) a"
  have "representable binary64 (of_int 1 * pow2 (- 1))"
    unfolding representable_def by (intro exI[of _ 1] exI[of _ "- 1"]) (simp add: binary64_def qmin_def)
  then have h: "representable binary64 (1 / 2)" by (simp add: pow2_def)
  have a: "is_fin a" "\<bar>fp_val a\<bar> \<le> 1 / 2" using assms(4) by (auto simp: fp_within_def)
  have lt: "(1 / 2 :: rat) < pow2 (emax binary64 + 1)" by (simp add: binary64_def pow2_def)
  have e: "is_fin ?e" "fp_val ?e = rnd binary64 (- fp_val a)" "\<bar>rnd binary64 (- fp_val a)\<bar> \<le> 1 / 2"
    using fp_sub_val[OF _ a(1) _ h lt, of "Fin 0"] a(2) rnd_abs_le[OF h, of "- fp_val a"] by auto
  have t: "is_fin (fadd (Fin 0) ?e)" "\<bar>fp_val (fadd (Fin 0) ?e)\<bar> \<le> 1 / 2"
    using fp_add_val[OF _ e(1) _ h lt, of "Fin 0"] e rnd_abs_le[OF h, of "fp_val ?e"] by auto
  let ?x = "fp_val (fadd (Fin 0) ?e)"
  have "?x < of_int 0 + 1" "of_int 0 - 1 < ?x" using t(2) by (auto simp: abs_if split: if_splits)
  then have "trunc_rat ?x = 0" using trunc_rat_le[of ?x 0] trunc_rat_ge[of 0 ?x] by simp
  moreover have "fp_within (fadd (Fin 0) ?e) 127" using t by (simp add: fp_within_def)
  ultimately have c: "fp_to_i8 (fadd (Fin 0) ?e) = Inr 0" using fp_to_i8_within(1) by simp
  have "fp_within a 123" using assms(4) by (auto simp: fp_within_def)
  then obtain i e' b where r: "computePitchToElevatorDeflection s a =
        Inr (s\<lparr>m_pitchIntegralError := i, m_prevPitchError := e'\<rparr>, b)"
    using computePitch_inv[OF assms(1,2)] by blast
  have "fp_of_int binary64 0 = Fin 0" by code_simp
  then have "i = Fin 0" using r c assms(3) shipped_gainsD(7)[OF assms(1)] bindIntegralError_shipped[OF assms(1), of 0]
    by (auto simp: computePitchToElevatorDeflection_def pitch_step_def pitch_finish_def res_simps
        dest!: arg_cong[of _ _ m_pitchIntegralError])
  with r show ?thesis by auto
qed

lemma pitch_deadband_witness:
  "\<exists>s' b. computePitchToElevatorDeflection level_stabilize (Fin (3 / 8)) = Inr (s', b)
    \<and> m_pitchIntegralError s' = Fin 0"
  using pitch_deadband[OF level_ok(2), of "Fin (3 / 8)"] level_ok(1)
  by (simp add: stab_inv_def level_stabilize_def fp_within_def)

end
