(* ===== verification/AutopilotManager.thy ===== *)
theory AutopilotManager
  imports StabilizeSafety
begin

section \<open>AutopilotManager: switching between the autopilots\<close>

text \<open>
  \<^verbatim>\<open>autopilot/AutopilotManager\<close>. The pointer to the active autopilot is a value of \<open>autopilot_ptr\<close>;
  the manual autopilot has no state. The manager keeps the previous masked state and switches on a
  change only; the specification \<open>spec_trigger\<close> chooses by the received state alone, and the manager
  is shown to implement it and to keep the contract \<open>iautopilot\<close> itself.
\<close>

datatype autopilot_ptr = ManualAutopilot | StabilizeAutopilot

record AutopilotManager =
  m_stabilizeAutopilot :: StabilizeAutopilot
  m_autopilot :: autopilot_ptr
  m_prevState :: u8

definition new_AutopilotManager ::
  "(string \<Rightarrow> string list) \<Rightarrow> AutopilotUtility \<Rightarrow> AutopilotManager res" where
  "new_AutopilotManager split u =
     res_bind (new_StabilizeAutopilot split u) (\<lambda>s.
       Inr \<lparr>m_stabilizeAutopilot = s, m_autopilot = ManualAutopilot, m_prevState = 0\<rparr>)"

definition isInManualMode :: "AutopilotManager \<Rightarrow> bool" where
  "isInManualMode m \<longleftrightarrow> m_autopilot m = ManualAutopilot"

definition isInStabilizeMode :: "AutopilotManager \<Rightarrow> bool" where
  "isInStabilizeMode m \<longleftrightarrow> m_autopilot m = StabilizeAutopilot"

definition handleState :: "AutopilotManager \<Rightarrow> u8 \<Rightarrow> AutopilotManager" where
  "handleState m st =
     (if st = m_prevState m then m
      else if st AND kASSISTANCE_FLAG \<noteq> 0
        then m\<lparr>m_autopilot := StabilizeAutopilot, m_prevState := st\<rparr>
      else m\<lparr>m_autopilot := ManualAutopilot, m_prevState := st\<rparr>)"

definition active_trigger ::
  "AutopilotUtility \<Rightarrow> AutopilotManager \<Rightarrow> ControlSurfacePacket \<Rightarrow> RcRxPacket \<Rightarrow> ImuPacket
   \<Rightarrow> (AutopilotManager \<times> ControlSurfacePacket) res" where
  \<comment> \<open>the virtual call \<^verbatim>\<open>m_autopilot->trigger\<close>\<close>
  "active_trigger u m c rcRxPacket imuPacket =
     (case m_autopilot m of
        ManualAutopilot \<Rightarrow> Inr (m, ManualAutopilot_trigger u c rcRxPacket)
      | StabilizeAutopilot \<Rightarrow>
          res_bind (StabilizeAutopilot_trigger u (m_stabilizeAutopilot m) c rcRxPacket imuPacket)
            (\<lambda>(s, c'). Inr (m\<lparr>m_stabilizeAutopilot := s\<rparr>, c')))"

definition AutopilotManager_trigger ::
  "AutopilotUtility \<Rightarrow> AutopilotManager \<Rightarrow> RcRxPacket \<Rightarrow> ImuPacket
   \<Rightarrow> (AutopilotManager \<times> ControlSurfacePacket) res" where
  "AutopilotManager_trigger u m rcRxPacket imuPacket =
     active_trigger u (handleState m (state rcRxPacket AND kAUTOPILOT_MASK))
       default_ControlSurfacePacket rcRxPacket imuPacket"

subsection \<open>The mode\<close>

definition assistance :: "RcRxPacket \<Rightarrow> bool" where
  "assistance r \<longleftrightarrow> state r AND kASSISTANCE_FLAG \<noteq> 0"

definition mode_ok :: "AutopilotManager \<Rightarrow> bool" where
  \<comment> \<open>the pointer agrees with the state it was last set for\<close>
  "mode_ok m \<longleftrightarrow> (m_autopilot m = StabilizeAutopilot \<longleftrightarrow> m_prevState m AND kASSISTANCE_FLAG \<noteq> 0)"

lemma autopilot_ptr_not [simp]:
  "m_autopilot m \<noteq> StabilizeAutopilot \<longleftrightarrow> m_autopilot m = ManualAutopilot"
  "m_autopilot m \<noteq> ManualAutopilot \<longleftrightarrow> m_autopilot m = StabilizeAutopilot"
  by (cases "m_autopilot m"; simp)+

lemma handleState_mode: "mode_ok m \<Longrightarrow> mode_ok (handleState m st)"
  by (auto simp: mode_ok_def handleState_def)

lemma handleState_prev [simp]: "m_prevState (handleState m st) = st"
  by (simp add: handleState_def)

lemma handleState_stab [simp]: "m_stabilizeAutopilot (handleState m st) = m_stabilizeAutopilot m"
  by (simp add: handleState_def)

lemma handleState_ptr:
  assumes "mode_ok m"
  shows "m_autopilot (handleState m (state r AND kAUTOPILOT_MASK))
    = (if assistance r then StabilizeAutopilot else ManualAutopilot)"
proof -
  have "(state r AND kAUTOPILOT_MASK) AND kASSISTANCE_FLAG = state r AND kASSISTANCE_FLAG"
    by (simp add: state_flag_defs and.assoc)
  then show ?thesis using handleState_mode[OF assms, of "state r AND kAUTOPILOT_MASK"]
    by (auto simp: mode_ok_def assistance_def)
qed

lemma active_trigger_frame:
  assumes "active_trigger u m c r i = Inr (m', c')"
  shows "m_autopilot m' = m_autopilot m" "m_prevState m' = m_prevState m"
  using assms by (auto simp: active_trigger_def split: autopilot_ptr.splits sum.splits)

lemma new_AutopilotManager_mode: "new_AutopilotManager split u = Inr m \<Longrightarrow> mode_ok m"
  by (auto simp: new_AutopilotManager_def mode_ok_def split: sum.splits)

lemma AutopilotManager_trigger_mode:
  assumes "mode_ok m" "AutopilotManager_trigger u m r i = Inr (m', c)"
  shows "mode_ok m'" "isInStabilizeMode m' \<longleftrightarrow> assistance r" "isInManualMode m' \<longleftrightarrow> \<not> assistance r"
proof -
  let ?h = "handleState m (state r AND kAUTOPILOT_MASK)"
  note f = active_trigger_frame[OF assms(2)[unfolded AutopilotManager_trigger_def]]
  show "mode_ok m'" using handleState_mode[OF assms(1)] f unfolding mode_ok_def by metis
  show "isInStabilizeMode m' \<longleftrightarrow> assistance r" "isInManualMode m' \<longleftrightarrow> \<not> assistance r"
    using f handleState_ptr[OF assms(1), of r]
    by (auto simp: isInStabilizeMode_def isInManualMode_def split: if_splits)
qed

subsection \<open>Refinement of the stateless choice\<close>

definition spec_trigger ::
  "AutopilotUtility \<Rightarrow> StabilizeAutopilot \<Rightarrow> RcRxPacket \<Rightarrow> ImuPacket
   \<Rightarrow> (StabilizeAutopilot \<times> ControlSurfacePacket) res" where
  "spec_trigger u s r i =
     (if assistance r then StabilizeAutopilot_trigger u s default_ControlSurfacePacket r i
      else Inr (s, ManualAutopilot_trigger u default_ControlSurfacePacket r))"

lemma AutopilotManager_refines:
  assumes "mode_ok m"
  shows "map_sum id (\<lambda>(m', c). (m_stabilizeAutopilot m', c)) (AutopilotManager_trigger u m r i)
    = spec_trigger u (m_stabilizeAutopilot m) r i"
  using handleState_ptr[OF assms, of r]
  by (auto simp: AutopilotManager_trigger_def active_trigger_def spec_trigger_def split: sum.split)

subsection \<open>The contract\<close>

definition manager_inv :: "AutopilotManager \<Rightarrow> bool" where
  "manager_inv m \<longleftrightarrow> mode_ok m \<and> stab_inv (m_stabilizeAutopilot m)"

lemma map_sum_eq_Inr: "map_sum id f r = Inr y \<longleftrightarrow> (\<exists>x. r = Inr x \<and> y = f x)"
  by (cases r) auto

lemma AutopilotManager_trigger_spec:
  assumes "mode_ok m"
  shows "AutopilotManager_trigger u m r i = Inr (m', c) \<Longrightarrow>
      spec_trigger u (m_stabilizeAutopilot m) r i = Inr (m_stabilizeAutopilot m', c)"
    and "spec_trigger u (m_stabilizeAutopilot m) r i = Inr (s', c) \<Longrightarrow>
      \<exists>m'. AutopilotManager_trigger u m r i = Inr (m', c) \<and> m_stabilizeAutopilot m' = s'"
  unfolding AutopilotManager_refines[OF assms, symmetric] by (auto simp: map_sum_eq_Inr)

lemma spec_trigger_defined:
  assumes "limits_ok u" "stab_inv s" "attitude_ok i"
  shows "\<exists>s' c. spec_trigger u s r i = Inr (s', c) \<and> stab_inv s'"
  using stabilize.defined[OF assms] assms(2) by (auto simp: spec_trigger_def)

lemma AutopilotManager_trigger_passthrough:
  assumes "AutopilotManager_trigger u m r i = Inr (m', c)"
  shows "motorSpeed c = bindRcThrottle u (motorStickPosition r)
    \<and> rudderDeflection c = bindRcRudderDeflection u (rudderStickPosition r)"
  using assms StabilizeAutopilot_trigger_fields(1,2)
  unfolding AutopilotManager_trigger_def active_trigger_def
  by (fastforce simp: ManualAutopilot_trigger_def split: autopilot_ptr.splits sum.splits)

interpretation manager: iautopilot u "\<lambda>m c r i. AutopilotManager_trigger u m r i" manager_inv attitude_ok
  for u
proof
  fix m r i m' c
  assume t: "AutopilotManager_trigger u m r i = Inr (m', c)"
  then show "motorSpeed c = bindRcThrottle u (motorStickPosition r)"
    "rudderDeflection c = bindRcRudderDeflection u (rudderStickPosition r)"
    using AutopilotManager_trigger_passthrough by blast+
  assume a: "limits_ok u" "manager_inv m" "attitude_ok i" "sticks_ok r"
  then have "spec_trigger u (m_stabilizeAutopilot m) r i = Inr (m_stabilizeAutopilot m', c)"
    using AutopilotManager_trigger_spec(1) t by (simp add: manager_inv_def)
  then show "in_envelope u c"
    using a stabilize.envelope[OF a(1) _ a(3,4)] ManualAutopilot_trigger_envelope[OF a(1,4)]
    by (auto simp: spec_trigger_def manager_inv_def split: if_splits)
next
  fix m r i
  assume a: "limits_ok u" "manager_inv m" "attitude_ok i"
  then show "\<exists>m' c. AutopilotManager_trigger u m r i = Inr (m', c) \<and> manager_inv m'"
    using spec_trigger_defined[of u "m_stabilizeAutopilot m" i r] AutopilotManager_trigger_spec(2)
      AutopilotManager_trigger_mode(1) unfolding manager_inv_def by metis
qed simp

subsection \<open>Properties\<close>

text \<open>
  C13 The manager with its pointer, its remembered state and its switching on a change of state implements the
  stateless choice: whatever its history, a trigger is the stabilizing autopilot's if the packet has the assistance flag, and
  the manual autopilot's otherwise, with the same outcome, faults included.
\<close>
theorem manager_refines:
  assumes "mode_ok m"
  shows "map_sum id (\<lambda>(m', c). (m_stabilizeAutopilot m', c)) (AutopilotManager_trigger u m r i)
      = spec_trigger u (m_stabilizeAutopilot m) r i
    \<and> (\<forall>m' c. AutopilotManager_trigger u m r i = Inr (m', c) \<longrightarrow>
         mode_ok m' \<and> (isInStabilizeMode m' \<longleftrightarrow> assistance r) \<and> (isInManualMode m' \<longleftrightarrow> \<not> assistance r))"
  using AutopilotManager_refines[OF assms] AutopilotManager_trigger_mode[OF assms] by blast

theorem manager_refines_witness:
  "map_sum id (\<lambda>(m', c). (m_stabilizeAutopilot m', c))
     (AutopilotManager_trigger level_utility
        \<lparr>m_stabilizeAutopilot = level_stabilize, m_autopilot = ManualAutopilot, m_prevState = 0\<rparr>
        (default_RcRxPacket\<lparr>state := 0x81\<rparr>) default_ImuPacket)
   = StabilizeAutopilot_trigger level_utility level_stabilize default_ControlSurfacePacket
       (default_RcRxPacket\<lparr>state := 0x81\<rparr>) default_ImuPacket"
proof -
  have "mode_ok \<lparr>m_stabilizeAutopilot = level_stabilize, m_autopilot = ManualAutopilot, m_prevState = 0\<rparr>"
    by (simp add: mode_ok_def)
  from manager_refines[OF this, of level_utility "default_RcRxPacket\<lparr>state := 0x81\<rparr>" default_ImuPacket]
  show ?thesis by (simp add: spec_trigger_def assistance_def state_flag_defs)
qed

text \<open>
  Without the assistance flag a run of triggers passes the sticks through, one command per packet whatever the IMU
  reports (NaN included), and leaves the stabilizing autopilot's state as it was: when assistance
  is switched on again, its integral errors are still those of the last time.
\<close>
lemma manual_run:
  assumes "mode_ok m" "\<forall>(r, i) \<in> set ps. \<not> assistance r"
  shows "\<exists>m'. run_triggers (\<lambda>m c r i. AutopilotManager_trigger u m r i) m ps
      = Inr (m', map (\<lambda>(r, i). ManualAutopilot_trigger u default_ControlSurfacePacket r) ps)
    \<and> m_stabilizeAutopilot m' = m_stabilizeAutopilot m"
  using assms
proof (induction ps arbitrary: m)
  case (Cons p ps)
  obtain r i where p: "p = (r, i)" by force
  with Cons.prems have "spec_trigger u (m_stabilizeAutopilot m) r i
      = Inr (m_stabilizeAutopilot m, ManualAutopilot_trigger u default_ControlSurfacePacket r)"
    by (auto simp: spec_trigger_def)
  from AutopilotManager_trigger_spec(2)[OF Cons.prems(1) this] obtain m1 where
    1: "AutopilotManager_trigger u m r i = Inr (m1, ManualAutopilot_trigger u default_ControlSurfacePacket r)"
      "m_stabilizeAutopilot m1 = m_stabilizeAutopilot m" by blast
  have "mode_ok m1" using AutopilotManager_trigger_mode(1)[OF Cons.prems(1) 1(1)] .
  from Cons.IH[OF this] Cons.prems(2) 1 p show ?case by auto
qed simp

lemma manual_run_witness:
  "\<exists>m'. run_triggers (\<lambda>m c r i. AutopilotManager_trigger level_utility m r i)
      \<lparr>m_stabilizeAutopilot = level_stabilize\<lparr>m_rollIntegralError := Fin 9\<rparr>,
       m_autopilot = StabilizeAutopilot, m_prevState = 0x80\<rparr>
      [(default_RcRxPacket, default_ImuPacket\<lparr>gyroX := 0x7FC00000\<rparr>)]
      = Inr (m', [ManualAutopilot_trigger level_utility default_ControlSurfacePacket default_RcRxPacket])
    \<and> m_rollIntegralError (m_stabilizeAutopilot m') = Fin 9"
proof -
  have "mode_ok \<lparr>m_stabilizeAutopilot = level_stabilize\<lparr>m_rollIntegralError := Fin 9\<rparr>,
       m_autopilot = StabilizeAutopilot, m_prevState = 0x80\<rparr>"
    by (simp add: mode_ok_def state_flag_defs)
  from manual_run[OF this, of "[(default_RcRxPacket, default_ImuPacket\<lparr>gyroX := 0x7FC00000\<rparr>)]" level_utility]
  show ?thesis by (auto simp: assistance_def default_RcRxPacket_def)
qed

text \<open>
  With assistance on, the pilot's aileron and elevator sticks and the two flags that report their use have no
  influence: the commands are those of the same packet with any other sticks and flags.
\<close>
lemma sticks_overridden:
  assumes "mode_ok m" "assistance r"
    and "r' = r\<lparr>aileronStickPosition := x, elevatorStickPosition := y,
                state := state r OR kUSER_ROLL OR kUSER_PITCH\<rparr>"
  shows "map_sum id snd (AutopilotManager_trigger u m r i) = map_sum id snd (AutopilotManager_trigger u m r' i)"
proof -
  have "(state r OR kUSER_ROLL OR kUSER_PITCH) AND kASSISTANCE_FLAG = state r AND kASSISTANCE_FLAG"
    by (simp add: state_flag_defs bit.conj_disj_distrib2)
  then have "assistance r'" using assms(2,3) by (simp add: assistance_def)
  moreover have "StabilizeAutopilot_trigger u s c r' i = StabilizeAutopilot_trigger u s c r i" for s c
  proof -
    have "motorStickPosition r' = motorStickPosition r" "rudderStickPosition r' = rudderStickPosition r"
      by (simp_all add: assms(3))
    then show ?thesis by (auto simp: StabilizeAutopilot_trigger_def split: sum.split)
  qed
  ultimately have "spec_trigger u (m_stabilizeAutopilot m) r i = spec_trigger u (m_stabilizeAutopilot m) r' i"
    using assms(2) by (simp add: spec_trigger_def)
  then have "map_sum id snd (map_sum id (\<lambda>(m', c). (m_stabilizeAutopilot m', c)) (AutopilotManager_trigger u m r i))
      = map_sum id snd (map_sum id (\<lambda>(m', c). (m_stabilizeAutopilot m', c)) (AutopilotManager_trigger u m r' i))"
    by (simp only: AutopilotManager_refines[OF assms(1)])
  then show ?thesis by (simp add: sum.map_comp o_def case_prod_beta id_def)
qed

lemma sticks_overridden_witness:
  "map_sum id snd (AutopilotManager_trigger level_utility
      \<lparr>m_stabilizeAutopilot = level_stabilize, m_autopilot = ManualAutopilot, m_prevState = 0\<rparr>
      (default_RcRxPacket\<lparr>state := 0x80\<rparr>) default_ImuPacket)
   = map_sum id snd (AutopilotManager_trigger level_utility
      \<lparr>m_stabilizeAutopilot = level_stabilize, m_autopilot = ManualAutopilot, m_prevState = 0\<rparr>
      (default_RcRxPacket\<lparr>state := 0x83, aileronStickPosition := 100, elevatorStickPosition := - 100\<rparr>) default_ImuPacket)"
proof -
  have "mode_ok \<lparr>m_stabilizeAutopilot = level_stabilize, m_autopilot = ManualAutopilot, m_prevState = 0\<rparr>"
    "assistance (default_RcRxPacket\<lparr>state := 0x80\<rparr>)"
    by (simp_all add: mode_ok_def assistance_def state_flag_defs)
  from sticks_overridden[OF this refl, where u = level_utility and i = default_ImuPacket and x = 100 and y = "- 100"]
  show ?thesis by (simp add: state_flag_defs default_RcRxPacket_def)
qed

end
