(* ===== verification/SerialController.thy ===== *)
theory SerialController
  imports Packet Config
begin

section \<open>SerialController: packets over a byte stream\<close>

text \<open>
  \<^verbatim>\<open>io/SerialController\<close>. The operations of \<^verbatim>\<open>boost::asio\<close> it starts and waits for are parameters,
  collected in the record \<open>asio\<close> over an unknown port state \<open>'d\<close>: each returns how the wait ended, the
  bytes that reached the stream buffer, and the new port. \<open>Done\<close> is a handler that ran without error
  within the timeout; \<open>Failed\<close>, a handler that ran with an error (the code then leaves the promise
  unset, so the wait times out), and \<open>Pending\<close> are both a timeout of the future, after which the
  operation is cancelled. \<open>asio_ok\<close> states the documented behaviour relied on, over the bytes still
  to come (\<open>rx\<close>) and the bytes sent (\<open>tx\<close>). The main lemmas say that a read takes one packet off the
  stream (buffered bytes, then bytes to come) or leaves the stream alone, whatever was buffered.
\<close>

subsection \<open>The asynchronous operations\<close>

datatype completion = Done nat | Failed | Pending

record 'd asio =
  asio_open :: "string \<Rightarrow> 'd \<Rightarrow> 'd option"           \<comment> \<open>\<open>None\<close>: throws \<^verbatim>\<open>system_error\<close>\<close>
  asio_baud_rate :: "u32 \<Rightarrow> 'd \<Rightarrow> 'd option"
  asio_read :: "nat \<Rightarrow> nat \<Rightarrow> 'd \<Rightarrow> completion \<times> byte list \<times> 'd"
    \<comment> \<open>\<^verbatim>\<open>async_read\<close> of exactly so many bytes, waited for so many milliseconds\<close>
  asio_read_until :: "byte list \<Rightarrow> byte list \<Rightarrow> nat \<Rightarrow> 'd \<Rightarrow> completion \<times> byte list \<times> 'd"
    \<comment> \<open>delimiter and bytes already buffered; \<open>Done n\<close>: the match ends after \<open>n\<close> buffered bytes\<close>
  asio_write :: "byte list \<Rightarrow> nat \<Rightarrow> 'd \<Rightarrow> completion \<times> 'd"
  asio_cancel :: "'d \<Rightarrow> 'd"

fun first_end :: "byte list \<Rightarrow> byte list \<Rightarrow> nat option" where
  \<comment> \<open>where the first occurrence of a delimiter ends\<close>
  "first_end d [] = (if d = [] then Some 0 else None)"
| "first_end d (x # xs) =
     (if take (length d) (x # xs) = d then Some (length d) else map_option Suc (first_end d xs))"

definition asio_ok :: "'d asio \<Rightarrow> ('d \<Rightarrow> byte list) \<Rightarrow> ('d \<Rightarrow> byte list) \<Rightarrow> bool" where
  "asio_ok A rx tx \<longleftrightarrow>
     (\<forall>n t d c bs d'. asio_read A n t d = (c, bs, d') \<longrightarrow>
        rx d = bs @ rx d' \<and> tx d' = tx d \<and> (\<forall>k. c = Done k \<longrightarrow> k = n \<and> length bs = n)) \<and>
     (\<forall>dl buf t d c bs d'. asio_read_until A dl buf t d = (c, bs, d') \<longrightarrow>
        rx d = bs @ rx d' \<and> tx d' = tx d \<and> (\<forall>k. c = Done k \<longrightarrow> first_end dl (buf @ bs) = Some k)) \<and>
     (\<forall>bs t d c d'. asio_write A bs t d = (c, d') \<longrightarrow>
        rx d' = rx d \<and> (\<exists>n. tx d' = tx d @ take n bs) \<and> (\<forall>k. c = Done k \<longrightarrow> tx d' = tx d @ bs)) \<and>
     (\<forall>d. rx (asio_cancel A d) = rx d \<and> tx (asio_cancel A d) = tx d)"

subsection \<open>The controller\<close>

record 'd SerialController =
  c_ttyDev :: string
  c_baudRate :: u32
  c_readTimeoutMs :: u32
  c_writeTimeoutMs :: u32
  c_handshakeTerminationStr :: string
  m_streamBuffer :: "byte list"
  m_serialPort :: 'd

definition new_SerialController ::
  "(string \<Rightarrow> string list) \<Rightarrow> ConfigManager \<Rightarrow> 'd \<Rightarrow> 'd SerialController res" where
  "new_SerialController split cm port =
     res_bind (getValue split get_string cm ''rcplane.io.serial_controller.tty_dev'') (\<lambda>dev.
     res_bind (getValue split get_u32 cm ''rcplane.io.serial_controller.baud_rate'') (\<lambda>baud.
     res_bind (getValue split get_u32 cm ''rcplane.io.serial_controller.read_timeout_ms'') (\<lambda>rt.
     res_bind (getValue split get_u32 cm ''rcplane.io.serial_controller.write_timeout_ms'') (\<lambda>wt.
     res_bind (getValue split get_string cm ''rcplane.common.handshake_termination_string'') (\<lambda>hs.
       Inr \<lparr>c_ttyDev = dev, c_baudRate = baud, c_readTimeoutMs = rt, c_writeTimeoutMs = wt,
            c_handshakeTerminationStr = hs, m_streamBuffer = [], m_serialPort = port\<rparr>)))))"

definition open_port :: "'d asio \<Rightarrow> 'd SerialController \<Rightarrow> bool \<times> 'd SerialController" where
  \<comment> \<open>\<^verbatim>\<open>SerialController::open\<close>\<close>
  "open_port A sc =
     (case asio_open A (c_ttyDev sc) (m_serialPort sc) of
        None \<Rightarrow> (False, sc)
      | Some d \<Rightarrow>
          (case asio_baud_rate A (c_baudRate sc) d of
             None \<Rightarrow> (False, sc\<lparr>m_serialPort := d\<rparr>)
           | Some d' \<Rightarrow> (True, sc\<lparr>m_serialPort := d'\<rparr>)))"

record 'p ReadResult =
  packet :: 'p
  didTimeout :: bool
  bytesRead :: nat

definition default_ReadResult :: "'p \<Rightarrow> 'p ReadResult" where
  "default_ReadResult dflt = \<lparr>packet = dflt, didTimeout = True, bytesRead = 0\<rparr>"

definition readPacket ::
  "'d asio \<Rightarrow> nat \<Rightarrow> (byte list \<Rightarrow> 'p) \<Rightarrow> 'p \<Rightarrow> 'd SerialController
   \<Rightarrow> 'p ReadResult \<times> 'd SerialController" where
  \<comment> \<open>the template at a type of \<open>sz\<close> bytes with its representation \<open>dec\<close> and default value\<close>
  "readPacket A sz dec dflt sc =
     (case asio_read A sz (unat (c_readTimeoutMs sc)) (m_serialPort sc) of
        (Done _, bs, d) \<Rightarrow>
          (\<lparr>packet = dec (take sz (m_streamBuffer sc @ bs)), didTimeout = False, bytesRead = 0\<rparr>,
           sc\<lparr>m_streamBuffer := drop sz (m_streamBuffer sc @ bs), m_serialPort := d\<rparr>)
      | (_, bs, d) \<Rightarrow>
          (default_ReadResult dflt,
           sc\<lparr>m_streamBuffer := m_streamBuffer sc @ bs, m_serialPort := asio_cancel A d\<rparr>))"

definition writePacket ::
  "'d asio \<Rightarrow> ('p \<Rightarrow> byte list) \<Rightarrow> 'd SerialController \<Rightarrow> 'p \<Rightarrow> bool \<times> 'd SerialController" where
  "writePacket A enc sc p =
     (case asio_write A (enc p) (unat (c_writeTimeoutMs sc)) (m_serialPort sc) of
        (Done _, d) \<Rightarrow> (True, sc\<lparr>m_serialPort := d\<rparr>)
      | (_, d) \<Rightarrow> (False, sc\<lparr>m_serialPort := asio_cancel A d\<rparr>))"

definition string_bytes :: "string \<Rightarrow> byte list" where
  "string_bytes s = map of_char s"

definition kDelayMultiplier :: u16 where "kDelayMultiplier = 2"

definition flush :: "'d asio \<Rightarrow> 'd SerialController \<Rightarrow> bool \<times> 'd SerialController" where
  "flush A sc =
     (case asio_read_until A (string_bytes (c_handshakeTerminationStr sc)) (m_streamBuffer sc)
             (unat (c_readTimeoutMs sc * ucast kDelayMultiplier)) (m_serialPort sc) of
        (Done sz, bs, d) \<Rightarrow>
          (True, sc\<lparr>m_streamBuffer := drop (sz * 2) (m_streamBuffer sc @ bs), m_serialPort := d\<rparr>)
      | (_, bs, d) \<Rightarrow>
          (False, sc\<lparr>m_streamBuffer := m_streamBuffer sc @ bs, m_serialPort := asio_cancel A d\<rparr>))"

subsection \<open>The stream\<close>

definition stream :: "('d \<Rightarrow> byte list) \<Rightarrow> 'd SerialController \<Rightarrow> byte list" where
  \<comment> \<open>what later reads will see: the buffered bytes, then the bytes to come\<close>
  "stream rx sc = m_streamBuffer sc @ rx (m_serialPort sc)"

lemma asio_readD:
  "asio_ok A rx tx \<Longrightarrow> asio_read A n t d = (c, bs, d')
   \<Longrightarrow> rx d = bs @ rx d' \<and> tx d' = tx d \<and> (\<forall>k. c = Done k \<longrightarrow> k = n \<and> length bs = n)"
  unfolding asio_ok_def by blast

lemma asio_cancelD: "asio_ok A rx tx \<Longrightarrow> rx (asio_cancel A d) = rx d \<and> tx (asio_cancel A d) = tx d"
  unfolding asio_ok_def by blast

lemma asio_writeD:
  "asio_ok A rx tx \<Longrightarrow> asio_write A bs t d = (c, d')
   \<Longrightarrow> rx d' = rx d \<and> (\<exists>n. tx d' = tx d @ take n bs) \<and> (\<forall>k. c = Done k \<longrightarrow> tx d' = tx d @ bs)"
  unfolding asio_ok_def by blast

lemma asio_read_untilD:
  "asio_ok A rx tx \<Longrightarrow> asio_read_until A dl buf t d = (c, bs, d')
   \<Longrightarrow> rx d = bs @ rx d' \<and> tx d' = tx d \<and> (\<forall>k. c = Done k \<longrightarrow> first_end dl (buf @ bs) = Some k)"
  unfolding asio_ok_def by blast

lemma readPacket_cases:
  assumes A: "asio_ok A rx tx" and r: "readPacket A sz dec dflt sc = (res, sc')"
  shows "tx (m_serialPort sc') = tx (m_serialPort sc)"
    and "didTimeout res \<Longrightarrow> res = default_ReadResult dflt \<and> stream rx sc' = stream rx sc"
    and "\<not> didTimeout res \<Longrightarrow> packet res = dec (take sz (stream rx sc))
      \<and> stream rx sc' = drop sz (stream rx sc) \<and> sz \<le> length (stream rx sc)"
proof -
  obtain c bs d where e: "asio_read A sz (unat (c_readTimeoutMs sc)) (m_serialPort sc) = (c, bs, d)"
    using prod_cases3 by blast
  note f = asio_readD[OF A e] asio_cancelD[OF A, of d]
  have "tx (m_serialPort sc') = tx (m_serialPort sc)
    \<and> (didTimeout res \<longrightarrow> res = default_ReadResult dflt \<and> stream rx sc' = stream rx sc)
    \<and> (\<not> didTimeout res \<longrightarrow> packet res = dec (take sz (stream rx sc))
      \<and> stream rx sc' = drop sz (stream rx sc) \<and> sz \<le> length (stream rx sc))"
    using r f by (cases c) (auto simp: readPacket_def e stream_def default_ReadResult_def)
  then show "tx (m_serialPort sc') = tx (m_serialPort sc)"
    "didTimeout res \<Longrightarrow> res = default_ReadResult dflt \<and> stream rx sc' = stream rx sc"
    "\<not> didTimeout res \<Longrightarrow> packet res = dec (take sz (stream rx sc))
      \<and> stream rx sc' = drop sz (stream rx sc) \<and> sz \<le> length (stream rx sc)" by blast+
qed

lemma readPacket_frame:
  "readPacket A sz dec dflt sc = (res, sc') \<Longrightarrow>
     sc' = sc\<lparr>m_streamBuffer := m_streamBuffer sc', m_serialPort := m_serialPort sc'\<rparr>"
  by (auto simp: readPacket_def split: prod.splits completion.splits)

lemma writePacket_cases:
  assumes A: "asio_ok A rx tx" and w: "writePacket A enc sc p = (ok, sc')"
  shows "stream rx sc' = stream rx sc"
    and "ok \<Longrightarrow> tx (m_serialPort sc') = tx (m_serialPort sc) @ enc p"
    and "\<exists>n. tx (m_serialPort sc') = tx (m_serialPort sc) @ take n (enc p)"
proof -
  obtain c d where e: "asio_write A (enc p) (unat (c_writeTimeoutMs sc)) (m_serialPort sc) = (c, d)"
    by force
  note f = asio_writeD[OF A e] asio_cancelD[OF A, of d]
  show "stream rx sc' = stream rx sc" "ok \<Longrightarrow> tx (m_serialPort sc') = tx (m_serialPort sc) @ enc p"
    "\<exists>n. tx (m_serialPort sc') = tx (m_serialPort sc) @ take n (enc p)"
    using w f by (cases c; auto simp: writePacket_def e stream_def)+
qed

lemma flush_cases:
  assumes A: "asio_ok A rx tx" and f: "flush A sc = (ok, sc')"
  shows "tx (m_serialPort sc') = tx (m_serialPort sc)"
    and "\<not> ok \<Longrightarrow> stream rx sc' = stream rx sc"
    and "ok \<Longrightarrow> \<exists>bs n. stream rx sc = m_streamBuffer sc @ bs @ rx (m_serialPort sc')
      \<and> first_end (string_bytes (c_handshakeTerminationStr sc)) (m_streamBuffer sc @ bs) = Some n
      \<and> m_streamBuffer sc' = drop (n * 2) (m_streamBuffer sc @ bs)"
proof -
  obtain c bs d where e: "asio_read_until A (string_bytes (c_handshakeTerminationStr sc))
      (m_streamBuffer sc) (unat (c_readTimeoutMs sc * ucast kDelayMultiplier)) (m_serialPort sc) = (c, bs, d)"
    using prod_cases3 by blast
  note h = asio_read_untilD[OF A e] asio_cancelD[OF A, of d]
  show "tx (m_serialPort sc') = tx (m_serialPort sc)" "\<not> ok \<Longrightarrow> stream rx sc' = stream rx sc"
    "ok \<Longrightarrow> \<exists>bs n. stream rx sc = m_streamBuffer sc @ bs @ rx (m_serialPort sc')
      \<and> first_end (string_bytes (c_handshakeTerminationStr sc)) (m_streamBuffer sc @ bs) = Some n
      \<and> m_streamBuffer sc' = drop (n * 2) (m_streamBuffer sc @ bs)"
    using f h by (cases c; auto simp: flush_def e stream_def)+
qed

subsection \<open>Reading and writing a packet type\<close>

context codec
begin

lemma readPacket_enc:
  assumes "asio_ok A rx tx" "readPacket A size dec dflt sc = (res, sc')"
    and "stream rx sc = enc p @ rest" "\<not> didTimeout res"
  shows "packet res = p \<and> stream rx sc' = rest"
  using readPacket_cases(3)[OF assms(1,2,4)] assms(3) dec_take drop_enc by simp

lemma readPacket_wrong_type:
  \<comment> \<open>a timeout leaves the packet on the stream: the next read of another type gets its bytes\<close>
  assumes A: "asio_ok A rx tx" and r: "readPacket A size dec dflt sc = (res, sc1)"
    and s: "stream rx sc = enc p @ rest" and t: "didTimeout res"
    and r': "readPacket A sz' dec' dflt' sc1 = (res', sc2)" "\<not> didTimeout res'"
  shows "packet res' = dec' (take sz' (enc p @ rest))"
  using readPacket_cases(2)[OF A r t] readPacket_cases(3)[OF A r'] s by simp

lemma writePacket_enc:
  assumes "asio_ok A rx tx" "writePacket A enc sc p = (True, sc')"
  shows "tx (m_serialPort sc') = tx (m_serialPort sc) @ enc p"
  using writePacket_cases(2)[OF assms] by simp

end

subsection \<open>A scripted port\<close>

text \<open>
  A concrete port on which hypotheses of the form \<open>asio_ok\<close> are instantiated: while an operation is
  waited for, the next batch of the script arrives; a read is done when enough bytes are there.
\<close>

record tty =
  tty_isopen :: bool
  tty_batches :: "byte list list"
  tty_rx :: "byte list"
  tty_tx :: "byte list"

definition tty_arrived :: "tty \<Rightarrow> byte list" where
  "tty_arrived d = tty_rx d @ concat (take 1 (tty_batches d))"

definition tty_take :: "tty \<Rightarrow> nat \<Rightarrow> byte list \<times> tty" where
  "tty_take d n = (take n (tty_arrived d),
     d\<lparr>tty_rx := drop n (tty_arrived d), tty_batches := drop 1 (tty_batches d)\<rparr>)"

definition tty_asio :: "tty asio" where
  "tty_asio = \<lparr>
     asio_open = (\<lambda>dev d. Some (d\<lparr>tty_isopen := True\<rparr>)),
     asio_baud_rate = (\<lambda>b d. Some d),
     asio_read = (\<lambda>n t d. if \<not> tty_isopen d then (Failed, [], d)
        else if n \<le> length (tty_arrived d) then (Done n, tty_take d n)
        else (Pending, tty_take d (length (tty_arrived d)))),
     asio_read_until = (\<lambda>dl buf t d. if \<not> tty_isopen d then (Failed, [], d)
        else (case first_end dl (buf @ tty_arrived d) of
                Some k \<Rightarrow> (Done k, tty_take d (length (tty_arrived d)))
              | None \<Rightarrow> (Pending, tty_take d (length (tty_arrived d))))),
     asio_write = (\<lambda>bs t d. if tty_isopen d then (Done (length bs), d\<lparr>tty_tx := tty_tx d @ bs\<rparr>)
        else (Failed, d)),
     asio_cancel = (\<lambda>d. d)\<rparr>"

definition tty_incoming :: "tty \<Rightarrow> byte list" where
  "tty_incoming d = tty_rx d @ concat (tty_batches d)"

lemma tty_incoming_take:
  "tty_take d n = (bs, d') \<Longrightarrow>
     tty_incoming d = bs @ tty_incoming d' \<and> tty_tx d' = tty_tx d \<and> bs = take n (tty_arrived d)"
proof -
  assume t: "tty_take d n = (bs, d')"
  have "tty_incoming d = tty_arrived d @ concat (drop 1 (tty_batches d))"
    by (cases "tty_batches d") (simp_all add: tty_incoming_def tty_arrived_def)
  also have "tty_arrived d = take n (tty_arrived d) @ drop n (tty_arrived d)" by simp
  finally show ?thesis using t by (auto simp: tty_take_def tty_incoming_def)
qed

lemma tty_read_ok:
  "asio_read tty_asio n t d = (c, bs, d') \<Longrightarrow>
     tty_incoming d = bs @ tty_incoming d' \<and> tty_tx d' = tty_tx d
     \<and> (\<forall>k. c = Done k \<longrightarrow> k = n \<and> length bs = n)"
  by (auto simp: tty_asio_def dest!: tty_incoming_take split: if_splits)

lemma tty_read_until_ok:
  "asio_read_until tty_asio dl buf t d = (c, bs, d') \<Longrightarrow>
     tty_incoming d = bs @ tty_incoming d' \<and> tty_tx d' = tty_tx d
     \<and> (\<forall>k. c = Done k \<longrightarrow> first_end dl (buf @ bs) = Some k)"
  by (auto simp: tty_asio_def dest!: tty_incoming_take split: if_splits option.splits)

lemma tty_write_ok:
  "asio_write tty_asio bs t d = (c, d') \<Longrightarrow>
     tty_incoming d' = tty_incoming d \<and> (\<exists>n. tty_tx d' = tty_tx d @ take n bs)
     \<and> (\<forall>k. c = Done k \<longrightarrow> tty_tx d' = tty_tx d @ bs)"
  by (auto simp: tty_asio_def tty_incoming_def split: if_splits
           intro: exI[of _ 0] exI[of _ "length bs"])

lemma tty_asio_ok: "asio_ok tty_asio tty_incoming tty_tx"
  unfolding asio_ok_def
  by (intro conjI; (intro allI impI; (erule tty_read_ok | erule tty_read_until_ok | erule tty_write_ok))?)
    (simp add: tty_asio_def)

subsection \<open>Properties\<close>

text \<open>
  Whatever is already buffered and however the bytes arrive, a read of a packet that does not time out takes
  exactly the first bytes of the stream, in the packet's size, decodes them, and leaves the rest;
  a read that times out returns the default packet and loses no byte; neither writes.
\<close>
lemma read_takes_packet:
  assumes "asio_ok A rx tx" "readPacket A 28 dec_ImuPacket default_ImuPacket sc = (res, sc')"
  shows "tx (m_serialPort sc') = tx (m_serialPort sc)
    \<and> (if didTimeout res then packet res = default_ImuPacket \<and> stream rx sc' = stream rx sc
       else stream rx sc = enc_ImuPacket (packet res) @ stream rx sc')"
proof (cases "didTimeout res")
  case True
  then show ?thesis using readPacket_cases(1,2)[OF assms] by (simp add: default_ReadResult_def)
next
  case False
  note f = readPacket_cases(3)[OF assms False]
  then have "enc_ImuPacket (packet res) = take 28 (stream rx sc)" using imu.enc_dec by simp
  with f False show ?thesis using readPacket_cases(1)[OF assms] by simp
qed

lemma read_takes_packet_witness:
  "\<exists>res sc'. readPacket tty_asio 28 dec_ImuPacket default_ImuPacket
      \<lparr>c_ttyDev = ''tty'', c_baudRate = 9600, c_readTimeoutMs = 500, c_writeTimeoutMs = 500,
       c_handshakeTerminationStr = crlf, m_streamBuffer = [], m_serialPort =
         \<lparr>tty_isopen = True, tty_batches = [replicate 20 1, replicate 20 2], tty_rx = replicate 10 0, tty_tx = []\<rparr>\<rparr>
      = (res, sc') \<and> \<not> didTimeout res
    \<and> replicate 10 0 @ replicate 20 1 @ replicate 20 2
        = enc_ImuPacket (packet res) @ stream tty_incoming sc'"
proof -
  let ?sc = "\<lparr>c_ttyDev = ''tty'', c_baudRate = 9600, c_readTimeoutMs = 500, c_writeTimeoutMs = 500,
       c_handshakeTerminationStr = crlf, m_streamBuffer = [], m_serialPort =
         \<lparr>tty_isopen = True, tty_batches = [replicate 20 1, replicate 20 2], tty_rx = replicate 10 0, tty_tx = []\<rparr>\<rparr>
       :: tty SerialController"
  obtain res sc' where r: "readPacket tty_asio 28 dec_ImuPacket default_ImuPacket ?sc = (res, sc')" by force
  then have "\<not> didTimeout res" by (auto simp: readPacket_def tty_asio_def tty_arrived_def tty_take_def)
  then show ?thesis using read_takes_packet[OF tty_asio_ok r] r
    by (auto simp: stream_def tty_incoming_def)
qed

text \<open>
  After a timeout nothing is skipped: when the RC packet arrives only after its read gave up, the next read, of
  an IMU packet, gets its bytes. The roll angle it returns is the RC packet's timestamp, and the
  stream is left in the middle of the IMU packet, 19 bytes in.
\<close>
lemma late_packet_swap:
  assumes "asio_ok A rx tx" "stream rx sc = enc_RcRxPacket r @ enc_ImuPacket i @ rest"
    and "readPacket A 9 dec_RcRxPacket default_RcRxPacket sc = (res1, sc1)" "didTimeout res1"
    and "readPacket A 28 dec_ImuPacket default_ImuPacket sc1 = (res2, sc2)" "\<not> didTimeout res2"
  shows "gyroX (packet res2) = timestamp r \<and> stream rx sc2 = drop 19 (enc_ImuPacket i) @ rest"
proof -
  have "packet res2 = dec_ImuPacket (take 28 (enc_RcRxPacket r @ enc_ImuPacket i @ rest))"
    using rcrx.readPacket_wrong_type[OF assms(1,3,2,4,5,6)] .
  moreover have "stream rx sc2 = drop 28 (enc_RcRxPacket r @ enc_ImuPacket i @ rest)"
    using readPacket_cases(2)[OF assms(1,3,4)] readPacket_cases(3)[OF assms(1,5,6)] assms(2) by simp
  ultimately show ?thesis
    using rcrx.enc_length[of r] imu.enc_length[of i]
    by (simp add: dec_ImuPacket_def field_bytes_def enc_RcRxPacket_def)
qed

lemma late_packet_swap_example:
  "\<exists>res1 sc1 res2 sc2. readPacket tty_asio 9 dec_RcRxPacket default_RcRxPacket
      \<lparr>c_ttyDev = ''tty'', c_baudRate = 9600, c_readTimeoutMs = 500, c_writeTimeoutMs = 500,
       c_handshakeTerminationStr = crlf, m_streamBuffer = [], m_serialPort =
         \<lparr>tty_isopen = True, tty_batches = [[], enc_RcRxPacket (default_RcRxPacket\<lparr>timestamp := 1234\<rparr>)
            @ enc_ImuPacket default_ImuPacket], tty_rx = [], tty_tx = []\<rparr>\<rparr> = (res1, sc1)
    \<and> readPacket tty_asio 28 dec_ImuPacket default_ImuPacket sc1 = (res2, sc2)
    \<and> gyroX (packet res2) = 1234"
proof -
  let ?sc = "\<lparr>c_ttyDev = ''tty'', c_baudRate = 9600, c_readTimeoutMs = 500, c_writeTimeoutMs = 500,
       c_handshakeTerminationStr = crlf, m_streamBuffer = [], m_serialPort =
         \<lparr>tty_isopen = True, tty_batches = [[], enc_RcRxPacket (default_RcRxPacket\<lparr>timestamp := 1234\<rparr>)
            @ enc_ImuPacket default_ImuPacket], tty_rx = [], tty_tx = []\<rparr>\<rparr> :: tty SerialController"
  obtain res1 sc1 where 1: "readPacket tty_asio 9 dec_RcRxPacket default_RcRxPacket ?sc = (res1, sc1)" by force
  obtain res2 sc2 where 2: "readPacket tty_asio 28 dec_ImuPacket default_ImuPacket sc1 = (res2, sc2)" by force
  have s: "stream tty_incoming ?sc = enc_RcRxPacket (default_RcRxPacket\<lparr>timestamp := 1234\<rparr>)
      @ enc_ImuPacket default_ImuPacket @ []" by (simp add: stream_def tty_incoming_def)
  have t: "didTimeout res1" using 1
    by (auto simp: readPacket_def tty_asio_def tty_arrived_def tty_take_def default_ReadResult_def)
  have "\<not> didTimeout res2" using 1 2 rcrx.enc_length imu.enc_length
    by (auto simp: readPacket_def tty_asio_def tty_arrived_def tty_take_def default_ReadResult_def)
  from late_packet_swap[OF tty_asio_ok s 1 t 2 this] 1 2 show ?thesis by simp
qed

text \<open>
  C27 A flush that succeeds ends at the first termination string: what was received up to it is gone, and as
  many bytes again, if they were already received, are gone too; later bytes stay. When nothing was
  received behind the termination string, the buffer is empty and the stream begins right behind it.
\<close>
theorem flush_discards:
  assumes "asio_ok A rx tx" "flush A sc = (True, sc')"
  shows "\<exists>bs n. stream rx sc = m_streamBuffer sc @ bs @ rx (m_serialPort sc')
      \<and> first_end (string_bytes (c_handshakeTerminationStr sc)) (m_streamBuffer sc @ bs) = Some n
      \<and> stream rx sc' = drop (n * 2) (m_streamBuffer sc @ bs) @ rx (m_serialPort sc')
      \<and> (length (m_streamBuffer sc @ bs) = n \<longrightarrow> m_streamBuffer sc' = []
           \<and> stream rx sc = (m_streamBuffer sc @ bs) @ stream rx sc')"
  using flush_cases(3)[OF assms] by (force simp: stream_def)

theorem flush_discards_witness:
  "\<exists>sc'. flush tty_asio
      \<lparr>c_ttyDev = ''tty'', c_baudRate = 9600, c_readTimeoutMs = 500, c_writeTimeoutMs = 500,
       c_handshakeTerminationStr = ''flush'' @ crlf, m_streamBuffer = [9, 9], m_serialPort =
         \<lparr>tty_isopen = True, tty_batches = [], tty_rx = string_bytes (''flush'' @ crlf) @ replicate 12 5, tty_tx = []\<rparr>\<rparr>
      = (True, sc') \<and> (\<exists>n bs. stream tty_incoming sc' = drop (n * 2) ([9, 9] @ bs) @ tty_incoming (m_serialPort sc'))"
proof -
  let ?sc = "\<lparr>c_ttyDev = ''tty'', c_baudRate = 9600, c_readTimeoutMs = 500, c_writeTimeoutMs = 500,
       c_handshakeTerminationStr = ''flush'' @ crlf, m_streamBuffer = [9, 9], m_serialPort =
         \<lparr>tty_isopen = True, tty_batches = [], tty_rx = string_bytes (''flush'' @ crlf) @ replicate 12 5, tty_tx = []\<rparr>\<rparr>
       :: tty SerialController"
  have "fst (flush tty_asio ?sc)" by code_simp
  then obtain sc' where f: "flush tty_asio ?sc = (True, sc')" by (cases "flush tty_asio ?sc") auto
  from flush_discards[OF tty_asio_ok f] f show ?thesis by auto
qed

end
