(* ===== verification/TelemetryMessage.thy ===== *)
theory TelemetryMessage
  imports Bytes Show
begin

section \<open>Telemetry messages\<close>

text \<open>
  \<^verbatim>\<open>io/telemetry/TelemetryMessage.hpp\<close> and \<^verbatim>\<open>.cpp\<close>: the two enumerations (with a fixed underlying
  type, so every byte is a value), the maps from enumerators to strings, the four messages with
  their object representations on the target (little-endian, natural alignment: the onboard message
  has one byte of padding, whose value \<open>pad\<close> is unknown), and their logging.
\<close>

subsection \<open>Enumerations\<close>

datatype AutopilotType = AutopilotType (apt_byte: u8)
datatype GpsFixType = GpsFixType (gps_byte: u8)

definition AUTOPILOT_ERROR :: AutopilotType where "AUTOPILOT_ERROR = AutopilotType 0x00"
definition MANUAL_AUTOPILOT :: AutopilotType where "MANUAL_AUTOPILOT = AutopilotType 0x01"
definition STABILIZE_AUTOPILOT :: AutopilotType where "STABILIZE_AUTOPILOT = AutopilotType 0x02"

definition GPS_ERROR :: GpsFixType where "GPS_ERROR = GpsFixType 0x00"
definition GPS_FIX_1D :: GpsFixType where "GPS_FIX_1D = GpsFixType 0x01"
definition GPS_FIX_2D :: GpsFixType where "GPS_FIX_2D = GpsFixType 0x02"
definition GPS_FIX_3D :: GpsFixType where "GPS_FIX_3D = GpsFixType 0x03"

lemmas enumerator_defs = AUTOPILOT_ERROR_def MANUAL_AUTOPILOT_def STABILIZE_AUTOPILOT_def
  GPS_ERROR_def GPS_FIX_1D_def GPS_FIX_2D_def GPS_FIX_3D_def

text \<open>The order of \<^verbatim>\<open>std::less\<close> on the enumerations, by which \<^verbatim>\<open>std::map\<close> keeps its keys.\<close>

instantiation AutopilotType :: linorder
begin
definition less_eq_AutopilotType :: "AutopilotType \<Rightarrow> AutopilotType \<Rightarrow> bool" where
  "a \<le> b \<longleftrightarrow> apt_byte a \<le> apt_byte b"
definition less_AutopilotType :: "AutopilotType \<Rightarrow> AutopilotType \<Rightarrow> bool" where
  "a < b \<longleftrightarrow> apt_byte a < apt_byte b"
instance
  by standard (auto simp: less_eq_AutopilotType_def less_AutopilotType_def AutopilotType.expand)
end

instantiation GpsFixType :: linorder
begin
definition less_eq_GpsFixType :: "GpsFixType \<Rightarrow> GpsFixType \<Rightarrow> bool" where
  "a \<le> b \<longleftrightarrow> gps_byte a \<le> gps_byte b"
definition less_GpsFixType :: "GpsFixType \<Rightarrow> GpsFixType \<Rightarrow> bool" where
  "a < b \<longleftrightarrow> gps_byte a < gps_byte b"
instance
  by standard (auto simp: less_eq_GpsFixType_def less_GpsFixType_def GpsFixType.expand)
end

definition gAutopilotTypeToStr :: "(AutopilotType \<times> string) list" where
  "gAutopilotTypeToStr = [(AUTOPILOT_ERROR, ''ERR''), (MANUAL_AUTOPILOT, ''MAN''),
     (STABILIZE_AUTOPILOT, ''SBL'')]"

definition gGpsFixTypeToStr :: "(GpsFixType \<times> string) list" where
  "gGpsFixTypeToStr = [(GPS_ERROR, ''ERR''), (GPS_FIX_1D, ''F1D''), (GPS_FIX_2D, ''F2D''),
     (GPS_FIX_3D, ''F3D'')]"

definition map_at :: "('k \<times> 'v) list \<Rightarrow> 'k \<Rightarrow> 'v res" where
  \<comment> \<open>\<^verbatim>\<open>std::map::at\<close>\<close>
  "map_at m k = (case map_of m k of None \<Rightarrow> Inl OutOfRange | Some v \<Rightarrow> Inr v)"

lemma enumerator_maps_sorted:
  "sorted (map fst gAutopilotTypeToStr) \<and> distinct (map fst gAutopilotTypeToStr)
   \<and> sorted (map fst gGpsFixTypeToStr) \<and> distinct (map fst gGpsFixTypeToStr)"
  by (simp add: gAutopilotTypeToStr_def gGpsFixTypeToStr_def enumerator_defs
      less_eq_AutopilotType_def less_eq_GpsFixType_def)

lemma map_at_InrD: "map_at m k = Inr v \<Longrightarrow> (k, v) \<in> set m"
  by (auto simp: map_at_def dest: map_of_SomeD split: option.splits)

lemma map_at_ok_iff: "(\<exists>v. map_at m k = Inr v) \<longleftrightarrow> k \<in> fst ` set m"
  using map_of_eq_None_iff[of m k] by (auto simp: map_at_def split: option.splits)

lemma map_at_fault: "map_at m k = Inl e \<Longrightarrow> e = OutOfRange"
  by (auto simp: map_at_def split: option.splits)

subsection \<open>Messages\<close>

record FaultMessage =
  faults :: u32

record DebugMessage =
  serialReads :: u32
  serialReadTimeouts :: u32
  serialWrites :: u32
  serialWriteTimeouts :: u32
  mainLoopCounter :: u32

record AttitudeMessage =   \<comment> \<open>the 64 bits of each \<^verbatim>\<open>double\<close>\<close>
  courseHeading :: u64
  rollAngle :: u64
  pitchAngle :: u64
  yawAngle :: u64

record OnboardStateMessage =
  mcuTimestamp :: u32
  throttle :: u8
  o_aileronDeflection :: i8
  o_elevatorDeflection :: i8
  o_rudderDeflection :: i8
  autopilotType :: AutopilotType
  gpsFix :: GpsFixType
  imuTemperature :: u8

definition default_FaultMessage :: FaultMessage where
  "default_FaultMessage = \<lparr>faults = 0\<rparr>"

definition default_DebugMessage :: DebugMessage where
  "default_DebugMessage = \<lparr>serialReads = 0, serialReadTimeouts = 0, serialWrites = 0,
     serialWriteTimeouts = 0, mainLoopCounter = 0\<rparr>"

definition default_AttitudeMessage :: AttitudeMessage where
  "default_AttitudeMessage = \<lparr>courseHeading = 0, rollAngle = 0, pitchAngle = 0, yawAngle = 0\<rparr>"

definition default_OnboardStateMessage :: OnboardStateMessage where
  "default_OnboardStateMessage = \<lparr>mcuTimestamp = 0, throttle = 0, o_aileronDeflection = 0,
     o_elevatorDeflection = 0, o_rudderDeflection = 0, autopilotType = AutopilotType 0,
     gpsFix = GpsFixType 0, imuTemperature = 0\<rparr>"

subsection \<open>Object representations\<close>

definition enc_FaultMessage :: "FaultMessage \<Rightarrow> byte list" where
  "enc_FaultMessage m = le_u32 (faults m)"

definition dec_FaultMessage :: "byte list \<Rightarrow> FaultMessage" where
  "dec_FaultMessage bs = \<lparr>faults = u32_le (field_bytes 0 4 bs)\<rparr>"

definition enc_DebugMessage :: "DebugMessage \<Rightarrow> byte list" where
  "enc_DebugMessage m = le_u32 (serialReads m) @ le_u32 (serialReadTimeouts m)
     @ le_u32 (serialWrites m) @ le_u32 (serialWriteTimeouts m) @ le_u32 (mainLoopCounter m)"

definition dec_DebugMessage :: "byte list \<Rightarrow> DebugMessage" where
  "dec_DebugMessage bs = \<lparr>serialReads = u32_le (field_bytes 0 4 bs),
     serialReadTimeouts = u32_le (field_bytes 4 4 bs), serialWrites = u32_le (field_bytes 8 4 bs),
     serialWriteTimeouts = u32_le (field_bytes 12 4 bs),
     mainLoopCounter = u32_le (field_bytes 16 4 bs)\<rparr>"

definition enc_AttitudeMessage :: "AttitudeMessage \<Rightarrow> byte list" where
  "enc_AttitudeMessage m = le_u64 (courseHeading m) @ le_u64 (rollAngle m)
     @ le_u64 (pitchAngle m) @ le_u64 (yawAngle m)"

definition dec_AttitudeMessage :: "byte list \<Rightarrow> AttitudeMessage" where
  "dec_AttitudeMessage bs = \<lparr>courseHeading = u64_le (field_bytes 0 8 bs),
     rollAngle = u64_le (field_bytes 8 8 bs), pitchAngle = u64_le (field_bytes 16 8 bs),
     yawAngle = u64_le (field_bytes 24 8 bs)\<rparr>"

definition enc_OnboardStateMessage :: "byte \<Rightarrow> OnboardStateMessage \<Rightarrow> byte list" where
  "enc_OnboardStateMessage pad m = le_u32 (mcuTimestamp m) @ [throttle m, o_aileronDeflection m,
     o_elevatorDeflection m, o_rudderDeflection m, apt_byte (autopilotType m), gps_byte (gpsFix m),
     imuTemperature m, pad]"

definition dec_OnboardStateMessage :: "byte list \<Rightarrow> OnboardStateMessage" where
  "dec_OnboardStateMessage bs = \<lparr>mcuTimestamp = u32_le (field_bytes 0 4 bs),
     throttle = byte_at 4 bs, o_aileronDeflection = byte_at 5 bs,
     o_elevatorDeflection = byte_at 6 bs, o_rudderDeflection = byte_at 7 bs,
     autopilotType = AutopilotType (byte_at 8 bs), gpsFix = GpsFixType (byte_at 9 bs),
     imuTemperature = byte_at 10 bs\<rparr>"

lemmas message_codec_defs =
  enc_FaultMessage_def dec_FaultMessage_def enc_DebugMessage_def dec_DebugMessage_def
  enc_AttitudeMessage_def dec_AttitudeMessage_def enc_OnboardStateMessage_def
  dec_OnboardStateMessage_def

interpretation fault: packed_codec 4 enc_FaultMessage dec_FaultMessage
  by unfold_locales (auto simp: message_codec_defs field_bytes_def le_u32_u32_le)

interpretation debug: packed_codec 20 enc_DebugMessage dec_DebugMessage
proof
  fix bs :: "byte list" assume l: "length bs = 20"
  have "take 4 (drop 12 bs) @ drop 16 bs = drop 12 bs" "take 4 (drop 8 bs) @ drop 12 bs = drop 8 bs"
    "take 4 (drop 4 bs) @ drop 8 bs = drop 4 bs"
    using field_bytes_append[of 4 12 bs] field_bytes_append[of 4 8 bs]
      field_bytes_append[of 4 4 bs] by simp_all
  with l show "enc_DebugMessage (dec_DebugMessage bs) = bs"
    by (simp add: message_codec_defs field_bytes_def le_u32_u32_le)
qed (auto simp: message_codec_defs field_bytes_def)

interpretation attitude: packed_codec 32 enc_AttitudeMessage dec_AttitudeMessage
proof
  fix bs :: "byte list" assume l: "length bs = 32"
  have "take 8 (drop 16 bs) @ drop 24 bs = drop 16 bs" "take 8 (drop 8 bs) @ drop 16 bs = drop 8 bs"
    using field_bytes_append[of 8 16 bs] field_bytes_append[of 8 8 bs] by simp_all
  with l show "enc_AttitudeMessage (dec_AttitudeMessage bs) = bs"
    by (simp add: message_codec_defs field_bytes_def le_u64_u64_le)
qed (auto simp: message_codec_defs field_bytes_def)

interpretation onboard: codec 12 "enc_OnboardStateMessage pad" dec_OnboardStateMessage for pad
  by unfold_locales (auto simp: message_codec_defs field_bytes_def byte_at_def)

subsection \<open>Logging\<close>

definition show_DebugMessage :: "DebugMessage \<Rightarrow> string" where
  "show_DebugMessage m =
     ''serialReads: '' @ show_nat (unat (serialReads m))
     @ '' serialReadTimeouts: '' @ show_nat (unat (serialReadTimeouts m))
     @ '' serialWrites: '' @ show_nat (unat (serialWrites m))
     @ '' serialWriteTimeouts: '' @ show_nat (unat (serialWriteTimeouts m))
     @ '' mainLoopCounter: '' @ show_nat (unat (mainLoopCounter m))"

definition show_AttitudeMessage :: "AttitudeMessage \<Rightarrow> string" where
  "show_AttitudeMessage m =
     ''courseHeading: '' @ show_double (courseHeading m) @ '' rollAngle: '' @ show_double (rollAngle m)
     @ '' pitchAngle: '' @ show_double (pitchAngle m) @ '' yawAngle: '' @ show_double (yawAngle m)"

definition show_OnboardStateMessage :: "OnboardStateMessage \<Rightarrow> string res" where
  "show_OnboardStateMessage m =
     res_bind (map_at gAutopilotTypeToStr (autopilotType m)) (\<lambda>a.
     res_bind (map_at gGpsFixTypeToStr (gpsFix m)) (\<lambda>g.
       Inr (''mcuTimestamp: '' @ show_nat (unat (mcuTimestamp m))
         @ '' throttle: '' @ show_nat (unat (throttle m))
         @ '' aileronDeflection: '' @ show_int (sint (o_aileronDeflection m))
         @ '' elevatorDeflection: '' @ show_int (sint (o_elevatorDeflection m))
         @ '' rudderDeflection: '' @ show_int (sint (o_rudderDeflection m))
         @ '' autopilot: '' @ a @ '' gpsFix: '' @ g
         @ '' imuTemp: '' @ show_nat (unat (imuTemperature m)))))"

lemma show_OnboardStateMessage_cases:
  "(\<exists>s. show_OnboardStateMessage m = Inr s) \<longleftrightarrow>
     autopilotType m \<in> fst ` set gAutopilotTypeToStr \<and> gpsFix m \<in> fst ` set gGpsFixTypeToStr"
  "show_OnboardStateMessage m = Inl e \<Longrightarrow> e = OutOfRange"
  unfolding map_at_ok_iff[symmetric] show_OnboardStateMessage_def
  by (auto simp: res_simps dest: map_at_fault split: sum.splits)

lemma enumerators:
  "fst ` set gAutopilotTypeToStr = {a. apt_byte a \<le> 2}"
  "fst ` set gGpsFixTypeToStr = {g. gps_byte g \<le> 3}"
proof -
  have "b \<le> 2 \<longleftrightarrow> b = 0 \<or> b = 1 \<or> b = 2" and "b \<le> 3 \<longleftrightarrow> b = 0 \<or> b = 1 \<or> b = 2 \<or> b = 3"
    for b :: "8 word"
    unfolding word_le_nat_alt word_unat_eq_iff by auto
  then have *: "b \<le> 2 \<longleftrightarrow> b \<in> {0, 1, 2}" "b \<le> 3 \<longleftrightarrow> b \<in> {0, 1, 2, 3}" for b :: "8 word" by auto
  show "fst ` set gAutopilotTypeToStr = {a. apt_byte a \<le> 2}"
    "fst ` set gGpsFixTypeToStr = {g. gps_byte g \<le> 3}"
    unfolding * gAutopilotTypeToStr_def gGpsFixTypeToStr_def enumerator_defs
    by (auto simp: AutopilotType.expand GpsFixType.expand)
qed

lemma show_DebugMessage_inject: "show_DebugMessage m = show_DebugMessage m' \<longleftrightarrow> m = m'"
  by (cases m; cases m'; simp add: show_DebugMessage_def text_simps unat_inject)

lemma show_enumerators:
  "map_at gAutopilotTypeToStr a = Inr s \<Longrightarrow> CHR '' '' \<notin> set s"
  "map_at gAutopilotTypeToStr a = Inr s \<Longrightarrow> map_at gAutopilotTypeToStr a' = Inr s \<Longrightarrow> a = a'"
  "map_at gGpsFixTypeToStr g = Inr t \<Longrightarrow> CHR '' '' \<notin> set t"
  "map_at gGpsFixTypeToStr g = Inr t \<Longrightarrow> map_at gGpsFixTypeToStr g' = Inr t \<Longrightarrow> g = g'"
  by (auto simp: gAutopilotTypeToStr_def gGpsFixTypeToStr_def dest!: map_at_InrD)

lemma show_OnboardStateMessage_inject:
  assumes "show_OnboardStateMessage m = Inr s" "show_OnboardStateMessage m' = Inr s"
  shows "m = m'"
  using assms
  by (cases m; cases m'; auto simp: show_OnboardStateMessage_def res_simps text_simps unat_inject sint_inject
      show_enumerators(1,3) dest: show_enumerators(2,4))

end
