(* ===== verification/TelemetryMQ.thy ===== *)
theory TelemetryMQ
  imports TelemetryMessage Config "HOL-Library.AList"
begin

section \<open>Telemetry over message queues\<close>

text \<open>
  \<^verbatim>\<open>io/telemetry/TelemetryTransmitterMQ\<close> and \<^verbatim>\<open>TelemetryReceiverMQ\<close>. The operations of
  \<^verbatim>\<open>boost::interprocess::message_queue\<close> are parameters, collected in the record \<open>mq\<close>: a value of
  \<open>'h\<close> stands for a queue (two objects opened on one queue have the same), \<open>'w\<close> for the state of all
  queues. \<open>mq_ok\<close> states the documented behaviour relied on, for messages of equal priority (all are
  sent with priority 0): a bounded first-in-first-out queue of byte strings whose capacity and
  message size were fixed when it was created. A null \<^verbatim>\<open>unique_ptr\<close> is \<open>None\<close>; using it is
  undefined. The main lemmas: what is sent is received, once, in order and unchanged; a full queue
  rejects a message and keeps the others.
\<close>

subsection \<open>Message queues\<close>

datatype reception = Received "byte list" | Refused | Blocked
  \<comment> \<open>\<open>Refused\<close>: \<^verbatim>\<open>interprocess_exception\<close>; \<open>Blocked\<close>: the call does not return\<close>

record ('h, 'w) mq =
  mq_open_or_create :: "string \<Rightarrow> nat \<Rightarrow> nat \<Rightarrow> 'w \<Rightarrow> 'h option \<times> 'w"
    \<comment> \<open>name, number and size of messages; \<open>None\<close>: \<^verbatim>\<open>interprocess_exception\<close>\<close>
  mq_open_only :: "string \<Rightarrow> 'w \<Rightarrow> 'h option"
  mq_try_send :: "'h \<Rightarrow> byte list \<Rightarrow> nat \<Rightarrow> 'w \<Rightarrow> bool option \<times> 'w"
    \<comment> \<open>message and priority; \<open>Some False\<close>: the queue is full\<close>
  mq_receive :: "'h \<Rightarrow> nat \<Rightarrow> 'w \<Rightarrow> reception \<times> 'w"   \<comment> \<open>size of the receiver's buffer\<close>
  mq_remove :: "string \<Rightarrow> 'w \<Rightarrow> 'w"

definition mq_open_ok ::
  "('h, 'w) mq \<Rightarrow> ('w \<Rightarrow> string \<Rightarrow> 'h option) \<Rightarrow> ('w \<Rightarrow> 'h \<Rightarrow> byte list list) \<Rightarrow> ('h \<Rightarrow> nat \<times> nat) \<Rightarrow> bool"
  where
  "mq_open_ok M names cont cap \<longleftrightarrow>
     (\<forall>nm n sz w r w'. mq_open_or_create M nm n sz w = (r, w') \<longrightarrow>
        cont w' = cont w \<and>
        (case r of None \<Rightarrow> names w' = names w
         | Some h \<Rightarrow> names w' = (names w)(nm \<mapsto> h) \<and>
             (names w nm = Some h \<or> names w nm = None \<and> cap h = (n, sz) \<and> cont w h = []))) \<and>
     (\<forall>nm w h. mq_open_only M nm w = Some h \<longrightarrow> names w nm = Some h) \<and>
     (\<forall>nm w. cont (mq_remove M nm w) = cont w \<and>
        (\<forall>m. m \<noteq> nm \<longrightarrow> names (mq_remove M nm w) m = names w m))"

definition mq_ok ::
  "('h, 'w) mq \<Rightarrow> ('w \<Rightarrow> string \<Rightarrow> 'h option) \<Rightarrow> ('w \<Rightarrow> 'h \<Rightarrow> byte list list) \<Rightarrow> ('h \<Rightarrow> nat \<times> nat) \<Rightarrow> bool"
  where
  "mq_ok M names cont cap \<longleftrightarrow> mq_open_ok M names cont cap \<and>
     (\<forall>h bs w r w'. mq_try_send M h bs 0 w = (r, w') \<longrightarrow>
        names w' = names w \<and>
        cont w' = (if r = Some True then (cont w)(h := cont w h @ [bs]) else cont w) \<and>
        (r = None \<longleftrightarrow> snd (cap h) < length bs) \<and>
        (r = Some True \<longleftrightarrow> length bs \<le> snd (cap h) \<and> length (cont w h) < fst (cap h))) \<and>
     (\<forall>h n w r w'. mq_receive M h n w = (r, w') \<longrightarrow>
        names w' = names w \<and>
        (case r of
           Received bs \<Rightarrow> cont w h = bs # cont w' h \<and> (\<forall>h'. h' \<noteq> h \<longrightarrow> cont w' h' = cont w h')
         | _ \<Rightarrow> cont w' = cont w) \<and>
        (r = Refused \<longleftrightarrow> n < snd (cap h)) \<and>
        (r = Blocked \<longrightarrow> cont w h = []))"

lemma mq_openD: "mq_ok M names cont cap \<Longrightarrow> mq_open_ok M names cont cap"
  by (simp add: mq_ok_def)

lemma mq_open_or_createD:
  assumes "mq_ok M names cont cap" "mq_open_or_create M nm n sz w = (r, w')"
  shows "cont w' = cont w" "r = None \<Longrightarrow> names w' = names w"
    "r = Some h \<Longrightarrow> names w' = (names w)(nm \<mapsto> h) \<and>
       (names w nm = Some h \<or> names w nm = None \<and> cap h = (n, sz) \<and> cont w h = [])"
  using mq_openD[OF assms(1)] assms(2) unfolding mq_open_ok_def by fastforce+

lemma mq_open_onlyD:
  "mq_ok M names cont cap \<Longrightarrow> mq_open_only M nm w = Some h \<Longrightarrow> names w nm = Some h"
  using mq_openD unfolding mq_open_ok_def by blast

lemma mq_try_sendD:
  assumes "mq_ok M names cont cap" "mq_try_send M h bs 0 w = (r, w')"
  shows "names w' = names w"
    "cont w' = (if r = Some True then (cont w)(h := cont w h @ [bs]) else cont w)"
    "r = None \<longleftrightarrow> snd (cap h) < length bs"
    "r = Some True \<longleftrightarrow> length bs \<le> snd (cap h) \<and> length (cont w h) < fst (cap h)"
  using assms unfolding mq_ok_def by blast+

lemma mq_receiveD:
  assumes "mq_ok M names cont cap" "mq_receive M h n w = (r, w')"
  shows "names w' = names w"
    "r = Received bs \<Longrightarrow> cont w h = bs # cont w' h \<and> (\<forall>h'. h' \<noteq> h \<longrightarrow> cont w' h' = cont w h')"
    "r = Refused \<or> r = Blocked \<Longrightarrow> cont w' = cont w"
    "r = Refused \<longleftrightarrow> n < snd (cap h)" "r = Blocked \<Longrightarrow> cont w h = []"
  using assms unfolding mq_ok_def by (fastforce split: reception.splits)+

subsection \<open>The transmitter\<close>

record 'h TelemetryTransmitterMQ =
  c_debugMessageQueueName :: string
  c_attitudeMessageQueueName :: string
  c_onboardMessageQueueName :: string
  c_messageQueueSize :: u32
  m_debugMessageQueue :: "'h option"
  m_attitudeMessageQueue :: "'h option"
  m_onboardMessageQueue :: "'h option"

definition new_TelemetryTransmitterMQ ::
  "(string \<Rightarrow> string list) \<Rightarrow> ConfigManager \<Rightarrow> 'h TelemetryTransmitterMQ res" where
  "new_TelemetryTransmitterMQ split cm =
     res_bind (getValue split get_string cm ''rcplane.io.telemetry.debug_mq_name'') (\<lambda>d.
     res_bind (getValue split get_string cm ''rcplane.io.telemetry.attitude_mq_name'') (\<lambda>a.
     res_bind (getValue split get_string cm ''rcplane.io.telemetry.onboard_mq_name'') (\<lambda>b.
     res_bind (getValue split get_u32 cm ''rcplane.io.telemetry.mq_size'') (\<lambda>n.
       Inr \<lparr>c_debugMessageQueueName = d, c_attitudeMessageQueueName = a,
            c_onboardMessageQueueName = b, c_messageQueueSize = n, m_debugMessageQueue = None,
            m_attitudeMessageQueue = None, m_onboardMessageQueue = None\<rparr>))))"

definition destroy_TelemetryTransmitterMQ ::
  "('h, 'w) mq \<Rightarrow> 'h TelemetryTransmitterMQ \<Rightarrow> 'w \<Rightarrow> 'w" where
  "destroy_TelemetryTransmitterMQ M tx w =
     mq_remove M (c_onboardMessageQueueName tx)
       (mq_remove M (c_attitudeMessageQueueName tx)
         (mq_remove M (c_debugMessageQueueName tx) w))"

definition init_transmitter ::
  "('h, 'w) mq \<Rightarrow> 'h TelemetryTransmitterMQ \<Rightarrow> 'w \<Rightarrow> bool \<times> 'h TelemetryTransmitterMQ \<times> 'w" where
  \<comment> \<open>\<^verbatim>\<open>TelemetryTransmitterMQ::init\<close>: queues opened before a failure stay open\<close>
  "init_transmitter M tx w =
     (case mq_open_or_create M (c_debugMessageQueueName tx) (unat (c_messageQueueSize tx)) 20 w of
        (None, w1) \<Rightarrow> (False, tx, w1)
      | (Some d, w1) \<Rightarrow>
     (case mq_open_or_create M (c_attitudeMessageQueueName tx) (unat (c_messageQueueSize tx)) 32 w1 of
        (None, w2) \<Rightarrow> (False, tx\<lparr>m_debugMessageQueue := Some d\<rparr>, w2)
      | (Some a, w2) \<Rightarrow>
     (case mq_open_or_create M (c_onboardMessageQueueName tx) (unat (c_messageQueueSize tx)) 12 w2 of
        (None, w3) \<Rightarrow> (False, tx\<lparr>m_debugMessageQueue := Some d, m_attitudeMessageQueue := Some a\<rparr>, w3)
      | (Some b, w3) \<Rightarrow> (True, tx\<lparr>m_debugMessageQueue := Some d, m_attitudeMessageQueue := Some a,
                               m_onboardMessageQueue := Some b\<rparr>, w3))))"

definition send_bytes :: "('h, 'w) mq \<Rightarrow> 'h option \<Rightarrow> byte list \<Rightarrow> 'w \<Rightarrow> (bool \<times> 'w) res" where
  \<comment> \<open>the body that the three send operations share\<close>
  "send_bytes M q bs w =
     (case q of
        None \<Rightarrow> Inl (Undefined NullDereference)
      | Some h \<Rightarrow>
          (case mq_try_send M h bs 0 w of
             (None, w') \<Rightarrow> Inr (False, w')
           | (Some ok, w') \<Rightarrow> Inr (ok, w')))"

definition sendDebugMessage ::
  "('h, 'w) mq \<Rightarrow> 'h TelemetryTransmitterMQ \<Rightarrow> DebugMessage \<Rightarrow> 'w \<Rightarrow> (bool \<times> 'w) res" where
  "sendDebugMessage M tx m w = send_bytes M (m_debugMessageQueue tx) (enc_DebugMessage m) w"

definition sendAttitudeMessage ::
  "('h, 'w) mq \<Rightarrow> 'h TelemetryTransmitterMQ \<Rightarrow> AttitudeMessage \<Rightarrow> 'w \<Rightarrow> (bool \<times> 'w) res" where
  "sendAttitudeMessage M tx m w = send_bytes M (m_attitudeMessageQueue tx) (enc_AttitudeMessage m) w"

definition sendOnboardMessage ::
  "('h, 'w) mq \<Rightarrow> byte \<Rightarrow> 'h TelemetryTransmitterMQ \<Rightarrow> OnboardStateMessage \<Rightarrow> 'w \<Rightarrow> (bool \<times> 'w) res"
  where
  "sendOnboardMessage M pad tx m w =
     send_bytes M (m_onboardMessageQueue tx) (enc_OnboardStateMessage pad m) w"

subsection \<open>The receiver\<close>

record 'h TelemetryReceiverMQ =
  r_debugMessageQueueName :: string
  r_attitudeMessageQueueName :: string
  r_onboardMessageQueueName :: string
  r_messageQueueSize :: u32
  r_debugMessageQueue :: "'h option"
  r_attitudeMessageQueue :: "'h option"
  r_onboardMessageQueue :: "'h option"

definition new_TelemetryReceiverMQ ::
  "(string \<Rightarrow> string list) \<Rightarrow> ConfigManager \<Rightarrow> 'h TelemetryReceiverMQ res" where
  "new_TelemetryReceiverMQ split cm =
     res_bind (getValue split get_string cm ''rcplane.io.telemetry.debug_mq_name'') (\<lambda>d.
     res_bind (getValue split get_string cm ''rcplane.io.telemetry.attitude_mq_name'') (\<lambda>a.
     res_bind (getValue split get_string cm ''rcplane.io.telemetry.onboard_mq_name'') (\<lambda>b.
       Inr \<lparr>r_debugMessageQueueName = d, r_attitudeMessageQueueName = a,
            r_onboardMessageQueueName = b, r_messageQueueSize = 0, r_debugMessageQueue = None,
            r_attitudeMessageQueue = None, r_onboardMessageQueue = None\<rparr>)))"

definition init_receiver ::
  "('h, 'w) mq \<Rightarrow> 'h TelemetryReceiverMQ \<Rightarrow> 'w \<Rightarrow> bool \<times> 'h TelemetryReceiverMQ" where
  "init_receiver M rx w =
     (case mq_open_only M (r_debugMessageQueueName rx) w of
        None \<Rightarrow> (False, rx)
      | Some d \<Rightarrow>
     (case mq_open_only M (r_attitudeMessageQueueName rx) w of
        None \<Rightarrow> (False, rx\<lparr>r_debugMessageQueue := Some d\<rparr>)
      | Some a \<Rightarrow>
     (case mq_open_only M (r_onboardMessageQueueName rx) w of
        None \<Rightarrow> (False, rx\<lparr>r_debugMessageQueue := Some d, r_attitudeMessageQueue := Some a\<rparr>)
      | Some b \<Rightarrow> (True, rx\<lparr>r_debugMessageQueue := Some d, r_attitudeMessageQueue := Some a,
                          r_onboardMessageQueue := Some b\<rparr>))))"

definition overwrite :: "byte list \<Rightarrow> byte list \<Rightarrow> byte list" where
  \<comment> \<open>an object after bytes were stored at its beginning\<close>
  "overwrite old bs = take (length old) bs @ drop (length bs) old"

definition receive_bytes ::
  "('h, 'w) mq \<Rightarrow> 'h option \<Rightarrow> byte list \<Rightarrow> 'w \<Rightarrow> ((bool \<times> byte list \<times> 'w) res) option" where
  \<comment> \<open>the part the receive operations share, on the representation of the caller's message object;
      \<open>None\<close>: the call does not return\<close>
  "receive_bytes M q old w =
     (case q of
        None \<Rightarrow> Some (Inl (Undefined NullDereference))
      | Some h \<Rightarrow>
          (case mq_receive M h (length old) w of
             (Received bs, w') \<Rightarrow> Some (Inr (True, overwrite old bs, w'))
           | (Refused, w') \<Rightarrow> Some (Inr (False, old, w'))
           | (Blocked, w') \<Rightarrow> None))"

definition receiveDebugMessage ::
  "('h, 'w) mq \<Rightarrow> 'h TelemetryReceiverMQ \<Rightarrow> DebugMessage \<Rightarrow> 'w
   \<Rightarrow> ((bool \<times> DebugMessage \<times> 'w) res) option" where
  "receiveDebugMessage M rx m w =
     map_option (\<lambda>r. res_bind r (\<lambda>(ok, bs, w'). Inr (ok, dec_DebugMessage bs, w')))
       (receive_bytes M (r_debugMessageQueue rx) (enc_DebugMessage m) w)"

definition receiveAttitudeMessage ::
  "('h, 'w) mq \<Rightarrow> 'h TelemetryReceiverMQ \<Rightarrow> AttitudeMessage \<Rightarrow> 'w
   \<Rightarrow> ((bool \<times> AttitudeMessage \<times> 'w) res) option" where
  "receiveAttitudeMessage M rx m w =
     map_option (\<lambda>r. res_bind r (\<lambda>(ok, bs, w'). Inr (ok, dec_AttitudeMessage bs, w')))
       (receive_bytes M (r_attitudeMessageQueue rx) (enc_AttitudeMessage m) w)"

definition receiveOnboardMessage ::
  "('h, 'w) mq \<Rightarrow> byte \<Rightarrow> 'h TelemetryReceiverMQ \<Rightarrow> OnboardStateMessage \<Rightarrow> 'w
   \<Rightarrow> ((bool \<times> OnboardStateMessage \<times> 'w) res) option" where
  \<comment> \<open>a received message is logged, which throws \<^verbatim>\<open>out_of_range\<close> on a byte that is no enumerator\<close>
  "receiveOnboardMessage M pad rx m w =
     map_option (\<lambda>r. res_bind r (\<lambda>(ok, bs, w').
         if ok then res_bind (show_OnboardStateMessage (dec_OnboardStateMessage bs))
                      (\<lambda>_. Inr (True, dec_OnboardStateMessage bs, w'))
         else Inr (False, m, w')))
       (receive_bytes M (r_onboardMessageQueue rx) (enc_OnboardStateMessage pad m) w)"

subsection \<open>A channel\<close>

text \<open>
  What a sender and a receiver of one message type promise together, for every configuration \<open>c\<close> that
  is \<open>valid\<close>: \<open>contents\<close> is the queue, \<open>rep\<close> the representation of a message, \<open>ok\<close> the messages a
  receiver can take. The lemma \<open>fifo\<close> covers every interleaving of sends and receives.
\<close>

datatype 'p event = Send 'p | Receive

fun run_events ::
  "('p \<Rightarrow> 'w \<Rightarrow> (bool \<times> 'w) res) \<Rightarrow> ('p \<Rightarrow> 'w \<Rightarrow> ((bool \<times> 'p \<times> 'w) res) option) \<Rightarrow> 'p \<Rightarrow> 'p event list
   \<Rightarrow> 'w \<Rightarrow> (('p list \<times> 'p list \<times> 'w) res) option" where
  \<comment> \<open>the messages the queue accepted and those received, each in order; \<open>None\<close>: a receive blocks\<close>
  "run_events sd rcv q [] w = Some (Inr ([], [], w))"
| "run_events sd rcv q (Send p # es) w =
     (case sd p w of
        Inl e \<Rightarrow> Some (Inl e)
      | Inr (ok, w1) \<Rightarrow> map_option (\<lambda>r. res_bind r (\<lambda>(as, rs, w2).
          Inr (if ok then p # as else as, rs, w2))) (run_events sd rcv q es w1))"
| "run_events sd rcv q (Receive # es) w =
     (case rcv q w of
        None \<Rightarrow> None
      | Some (Inl e) \<Rightarrow> Some (Inl e)
      | Some (Inr (ok, p, w1)) \<Rightarrow> map_option (\<lambda>r. res_bind r (\<lambda>(as, rs, w2).
          Inr (as, if ok then p # rs else rs, w2))) (run_events sd rcv q es w1))"

locale channel =
  fixes valid :: "'c \<Rightarrow> bool"
    and send :: "'c \<Rightarrow> 'p \<Rightarrow> 'w \<Rightarrow> (bool \<times> 'w) res"
    and receive :: "'c \<Rightarrow> 'p \<Rightarrow> 'w \<Rightarrow> ((bool \<times> 'p \<times> 'w) res) option"
    and contents :: "'c \<Rightarrow> 'w \<Rightarrow> byte list list"
    and capacity :: "'c \<Rightarrow> nat"
    and rep :: "'c \<Rightarrow> 'p \<Rightarrow> byte list"
    and ok :: "'p \<Rightarrow> bool"
  assumes send_law: "valid c \<Longrightarrow> \<exists>w'. send c p w = Inr (length (contents c w) < capacity c, w')
      \<and> contents c w' = (if length (contents c w) < capacity c then contents c w @ [rep c p]
                           else contents c w)"
    and receive_law: "valid c \<Longrightarrow> ok p \<Longrightarrow> contents c w = rep c p # rest
      \<Longrightarrow> \<exists>w'. receive c q w = Some (Inr (True, p, w')) \<and> contents c w' = rest"
    and receive_empty: "valid c \<Longrightarrow> contents c w = [] \<Longrightarrow> receive c q w = None"
begin

lemma fifo:
  assumes "valid c" "contents c w = map (rep c) ps" "list_all ok ps"
    and "\<forall>p. Send p \<in> set es \<longrightarrow> ok p"
  shows "case run_events (send c) (receive c) q es w of
      None \<Rightarrow> True
    | Some (Inl e) \<Rightarrow> False
    | Some (Inr (as, rs, w')) \<Rightarrow> \<exists>rest. ps @ as = rs @ rest \<and> contents c w' = map (rep c) rest"
  using assms
proof (induction es arbitrary: w ps)
  case Nil
  then show ?case by simp
next
  case (Cons e es)
  show ?case
  proof (cases e)
    case (Send p)
    let ?full = "\<not> length (contents c w) < capacity c"
    obtain w1 where s: "send c p w = Inr (\<not> ?full, w1)"
      and w1: "contents c w1 = map (rep c) (if ?full then ps else ps @ [p])"
      using send_law[OF Cons.prems(1), of p w] Cons.prems(2) by auto
    have "list_all ok (if ?full then ps else ps @ [p])" using Cons.prems Send by auto
    with Cons.IH[OF Cons.prems(1) w1] Cons.prems(4)
    show ?thesis using s Send
      by (auto split: option.splits sum.splits if_splits)
  next
    case Receive
    show ?thesis
    proof (cases ps)
      case Nil
      then show ?thesis using receive_empty[OF Cons.prems(1)] Cons.prems(2) Receive by simp
    next
      case (Cons p ps')
      obtain w1 where r: "receive c q w = Some (Inr (True, p, w1))" and w1: "contents c w1 = map (rep c) ps'"
        using receive_law[OF Cons.prems(1), of p w "map (rep c) ps'" q] Cons.prems Cons by auto
      from Cons.IH[OF Cons.prems(1) w1] Cons.prems Cons
      show ?thesis using r Receive
        by (auto split: option.splits sum.splits)
    qed
  qed
qed

end

subsection \<open>The three channels\<close>

lemma send_bytes_fits:
  assumes M: "mq_ok M names cont cap" and h: "length bs \<le> snd (cap h)"
  shows "\<exists>w'. send_bytes M (Some h) bs w = Inr (length (cont w h) < fst (cap h), w')
    \<and> cont w' = (if length (cont w h) < fst (cap h) then (cont w)(h := cont w h @ [bs]) else cont w)
    \<and> names w' = names w"
proof -
  obtain r w' where s: "mq_try_send M h bs 0 w = (r, w')" by force
  note f = mq_try_sendD[OF M s]
  then obtain b where "r = Some b" using h by (cases r) auto
  then show ?thesis using f h s by (cases b) (auto simp: send_bytes_def)
qed

lemma receive_bytes_head:
  assumes M: "mq_ok M names cont cap" and h: "length old = snd (cap h)" "cont w h = bs # rest"
  shows "\<exists>w'. receive_bytes M (Some h) old w = Some (Inr (True, overwrite old bs, w'))
    \<and> cont w' = (cont w)(h := rest) \<and> names w' = names w"
proof -
  obtain r w' where s: "mq_receive M h (length old) w = (r, w')" by force
  note f = mq_receiveD[OF M s]
  obtain cs where r: "r = Received cs" using f(4,5) h by (cases r) auto
  have "cs = bs" "cont w' h = rest" "\<forall>h'. h' \<noteq> h \<longrightarrow> cont w' h' = cont w h'"
    using f(2)[OF r] h by auto
  then show ?thesis using f(1) s r by (auto simp: receive_bytes_def)
qed

lemma receive_bytes_empty:
  assumes M: "mq_ok M names cont cap" and h: "length old = snd (cap h)" "cont w h = []"
  shows "receive_bytes M (Some h) old w = None"
proof -
  obtain r w' where s: "mq_receive M h (length old) w = (r, w')" by force
  note f = mq_receiveD[OF M s]
  have "r = Blocked" using f(2,4) h by (cases r) auto
  then show ?thesis using s by (simp add: receive_bytes_def)
qed

lemma receive_bytes_too_small:
  \<comment> \<open>a queue left over with larger messages refuses every receive\<close>
  assumes M: "mq_ok M names cont cap" and h: "length old < snd (cap h)"
  shows "\<exists>w'. receive_bytes M (Some h) old w = Some (Inr (False, old, w')) \<and> cont w' = cont w"
proof -
  obtain r w' where s: "mq_receive M h (length old) w = (r, w')" by force
  note f = mq_receiveD[OF M s]
  have "r = Refused" using f(4) h by simp
  then show ?thesis using s f(3) by (auto simp: receive_bytes_def)
qed

lemma overwrite_all: "length old = length bs \<Longrightarrow> overwrite old bs = bs"
  by (simp add: overwrite_def)

record ('h, 'w) telemetry =
  t_mq :: "('h, 'w) mq"
  t_names :: "'w \<Rightarrow> string \<Rightarrow> 'h option"
  t_cont :: "'w \<Rightarrow> 'h \<Rightarrow> byte list list"
  t_cap :: "'h \<Rightarrow> nat \<times> nat"
  t_tx :: "'h TelemetryTransmitterMQ"
  t_rx :: "'h TelemetryReceiverMQ"
  t_pad :: byte

definition channel_valid ::
  "('h TelemetryTransmitterMQ \<Rightarrow> 'h option) \<Rightarrow> ('h TelemetryReceiverMQ \<Rightarrow> 'h option) \<Rightarrow> nat
   \<Rightarrow> ('h, 'w) telemetry \<Rightarrow> bool" where
  \<comment> \<open>both sides have opened one queue, created for messages of this size\<close>
  "channel_valid qt qr sz c \<longleftrightarrow> mq_ok (t_mq c) (t_names c) (t_cont c) (t_cap c) \<and>
     (case (qt (t_tx c), qr (t_rx c)) of
        (Some h, Some h') \<Rightarrow> h = h' \<and> snd (t_cap c h) = sz | _ \<Rightarrow> False)"

lemma channel_validE:
  assumes "channel_valid qt qr sz c"
  obtains h where "qt (t_tx c) = Some h" "qr (t_rx c) = Some h" "snd (t_cap c h) = sz"
    "mq_ok (t_mq c) (t_names c) (t_cont c) (t_cap c)"
  using assms unfolding channel_valid_def by (auto split: option.splits)

definition channel_contents ::
  "('h TelemetryTransmitterMQ \<Rightarrow> 'h option) \<Rightarrow> ('h, 'w) telemetry \<Rightarrow> 'w \<Rightarrow> byte list list" where
  "channel_contents qt c w = (case qt (t_tx c) of Some h \<Rightarrow> t_cont c w h | None \<Rightarrow> [])"

definition channel_capacity ::
  "('h TelemetryTransmitterMQ \<Rightarrow> 'h option) \<Rightarrow> ('h, 'w) telemetry \<Rightarrow> nat" where
  "channel_capacity qt c = (case qt (t_tx c) of Some h \<Rightarrow> fst (t_cap c h) | None \<Rightarrow> 0)"

lemmas channel_defs = channel_contents_def channel_capacity_def

lemma channel_send:
  assumes v: "channel_valid qt qr sz c" and l: "length bs = sz"
  shows "\<exists>w'. send_bytes (t_mq c) (qt (t_tx c)) bs w
      = Inr (length (channel_contents qt c w) < channel_capacity qt c, w')
    \<and> channel_contents qt c w' = (if length (channel_contents qt c w) < channel_capacity qt c
         then channel_contents qt c w @ [bs] else channel_contents qt c w)"
proof -
  from v obtain h where h: "qt (t_tx c) = Some h" "snd (t_cap c h) = sz"
    and M: "mq_ok (t_mq c) (t_names c) (t_cont c) (t_cap c)" by (rule channel_validE)
  show ?thesis using send_bytes_fits[OF M, of bs h w] h l by (auto simp: channel_defs)
qed

lemma channel_receive:
  assumes v: "channel_valid qt qr sz c" and l: "length old = sz" "length bs = sz"
    and b: "channel_contents qt c w = bs # rest"
  shows "\<exists>w'. receive_bytes (t_mq c) (qr (t_rx c)) old w = Some (Inr (True, bs, w'))
    \<and> channel_contents qt c w' = rest"
proof -
  from v obtain h where h: "qt (t_tx c) = Some h" "qr (t_rx c) = Some h" "snd (t_cap c h) = sz"
    and M: "mq_ok (t_mq c) (t_names c) (t_cont c) (t_cap c)" by (rule channel_validE)
  show ?thesis using receive_bytes_head[OF M, of old h w bs rest] h l b
    by (auto simp: channel_defs overwrite_all)
qed

lemma channel_receive_empty:
  assumes v: "channel_valid qt qr sz c" and l: "length old = sz" and b: "channel_contents qt c w = []"
  shows "receive_bytes (t_mq c) (qr (t_rx c)) old w = None"
proof -
  from v obtain h where h: "qt (t_tx c) = Some h" "qr (t_rx c) = Some h" "snd (t_cap c h) = sz"
    and M: "mq_ok (t_mq c) (t_names c) (t_cont c) (t_cap c)" by (rule channel_validE)
  show ?thesis using receive_bytes_empty[OF M, of old h w] h l b by (auto simp: channel_defs)
qed

interpretation debug_channel: channel "channel_valid m_debugMessageQueue r_debugMessageQueue 20"
  "\<lambda>c. sendDebugMessage (t_mq c) (t_tx c)" "\<lambda>c. receiveDebugMessage (t_mq c) (t_rx c)"
  "channel_contents m_debugMessageQueue" "channel_capacity m_debugMessageQueue"
  "\<lambda>_. enc_DebugMessage" "\<lambda>_. True"
proof
  fix c :: "('a, 'b) telemetry" and p q w rest
  assume v: "channel_valid m_debugMessageQueue r_debugMessageQueue 20 c"
  note l = debug.enc_length[of p] debug.enc_length[of q]
  show "\<exists>w'. sendDebugMessage (t_mq c) (t_tx c) p w
      = Inr (length (channel_contents m_debugMessageQueue c w) < channel_capacity m_debugMessageQueue c, w')
    \<and> channel_contents m_debugMessageQueue c w' =
      (if length (channel_contents m_debugMessageQueue c w) < channel_capacity m_debugMessageQueue c
       then channel_contents m_debugMessageQueue c w @ [enc_DebugMessage p]
       else channel_contents m_debugMessageQueue c w)"
    unfolding sendDebugMessage_def by (rule channel_send[OF v l(1)])
  show "\<exists>w'. receiveDebugMessage (t_mq c) (t_rx c) q w = Some (Inr (True, p, w'))
    \<and> channel_contents m_debugMessageQueue c w' = rest"
    if "channel_contents m_debugMessageQueue c w = enc_DebugMessage p # rest"
    using channel_receive[OF v l(2,1) that] by (auto simp: receiveDebugMessage_def debug.dec_enc)
  show "receiveDebugMessage (t_mq c) (t_rx c) q w = None"
    if "channel_contents m_debugMessageQueue c w = []"
    using channel_receive_empty[OF v l(2) that] by (simp add: receiveDebugMessage_def)
qed

interpretation attitude_channel: channel
  "channel_valid m_attitudeMessageQueue r_attitudeMessageQueue 32"
  "\<lambda>c. sendAttitudeMessage (t_mq c) (t_tx c)" "\<lambda>c. receiveAttitudeMessage (t_mq c) (t_rx c)"
  "channel_contents m_attitudeMessageQueue" "channel_capacity m_attitudeMessageQueue"
  "\<lambda>_. enc_AttitudeMessage" "\<lambda>_. True"
proof
  fix c :: "('a, 'b) telemetry" and p q w rest
  assume v: "channel_valid m_attitudeMessageQueue r_attitudeMessageQueue 32 c"
  note l = attitude.enc_length[of p] attitude.enc_length[of q]
  show "\<exists>w'. sendAttitudeMessage (t_mq c) (t_tx c) p w
      = Inr (length (channel_contents m_attitudeMessageQueue c w)
               < channel_capacity m_attitudeMessageQueue c, w')
    \<and> channel_contents m_attitudeMessageQueue c w' =
      (if length (channel_contents m_attitudeMessageQueue c w) < channel_capacity m_attitudeMessageQueue c
       then channel_contents m_attitudeMessageQueue c w @ [enc_AttitudeMessage p]
       else channel_contents m_attitudeMessageQueue c w)"
    unfolding sendAttitudeMessage_def by (rule channel_send[OF v l(1)])
  show "\<exists>w'. receiveAttitudeMessage (t_mq c) (t_rx c) q w = Some (Inr (True, p, w'))
    \<and> channel_contents m_attitudeMessageQueue c w' = rest"
    if "channel_contents m_attitudeMessageQueue c w = enc_AttitudeMessage p # rest"
    using channel_receive[OF v l(2,1) that] by (auto simp: receiveAttitudeMessage_def attitude.dec_enc)
  show "receiveAttitudeMessage (t_mq c) (t_rx c) q w = None"
    if "channel_contents m_attitudeMessageQueue c w = []"
    using channel_receive_empty[OF v l(2) that] by (simp add: receiveAttitudeMessage_def)
qed

definition loggable :: "OnboardStateMessage \<Rightarrow> bool" where
  "loggable m \<longleftrightarrow> apt_byte (autopilotType m) \<le> 2 \<and> gps_byte (gpsFix m) \<le> 3"

lemma loggable_iff: "loggable m \<longleftrightarrow> (\<exists>s. show_OnboardStateMessage m = Inr s)"
  unfolding show_OnboardStateMessage_cases(1) enumerators by (simp add: loggable_def)

interpretation onboard_channel: channel
  "channel_valid m_onboardMessageQueue r_onboardMessageQueue 12"
  "\<lambda>c. sendOnboardMessage (t_mq c) (t_pad c) (t_tx c)"
  "\<lambda>c. receiveOnboardMessage (t_mq c) (t_pad c) (t_rx c)"
  "channel_contents m_onboardMessageQueue" "channel_capacity m_onboardMessageQueue"
  "\<lambda>c. enc_OnboardStateMessage (t_pad c)" loggable
proof
  fix c :: "('a, 'b) telemetry" and p q w rest
  assume v: "channel_valid m_onboardMessageQueue r_onboardMessageQueue 12 c"
  note l = onboard.enc_length[of "t_pad c" p] onboard.enc_length[of "t_pad c" q]
  show "\<exists>w'. sendOnboardMessage (t_mq c) (t_pad c) (t_tx c) p w
      = Inr (length (channel_contents m_onboardMessageQueue c w)
               < channel_capacity m_onboardMessageQueue c, w')
    \<and> channel_contents m_onboardMessageQueue c w' =
      (if length (channel_contents m_onboardMessageQueue c w) < channel_capacity m_onboardMessageQueue c
       then channel_contents m_onboardMessageQueue c w @ [enc_OnboardStateMessage (t_pad c) p]
       else channel_contents m_onboardMessageQueue c w)"
    unfolding sendOnboardMessage_def by (rule channel_send[OF v l(1)])
  show "\<exists>w'. receiveOnboardMessage (t_mq c) (t_pad c) (t_rx c) q w = Some (Inr (True, p, w'))
    \<and> channel_contents m_onboardMessageQueue c w' = rest"
    if lp: "loggable p" and b: "channel_contents m_onboardMessageQueue c w
      = enc_OnboardStateMessage (t_pad c) p # rest"
  proof -
    obtain s where s: "show_OnboardStateMessage p = Inr s" using lp unfolding loggable_iff by blast
    show ?thesis using channel_receive[OF v l(2,1) b] s
      by (auto simp: receiveOnboardMessage_def onboard.dec_enc)
  qed
  show "receiveOnboardMessage (t_mq c) (t_pad c) (t_rx c) q w = None"
    if "channel_contents m_onboardMessageQueue c w = []"
    using channel_receive_empty[OF v l(2) that] by (simp add: receiveOnboardMessage_def)
qed

subsection \<open>Setting the queues up\<close>

lemma init_transmitter_opens:
  assumes M: "mq_ok M names cont cap" and i: "init_transmitter M tx w = (True, tx', w')"
    and d: "distinct [c_debugMessageQueueName tx, c_attitudeMessageQueueName tx, c_onboardMessageQueueName tx]"
    and f: "names w (c_debugMessageQueueName tx) = None" "names w (c_attitudeMessageQueueName tx) = None"
      "names w (c_onboardMessageQueueName tx) = None"
  obtains hd ha hb where
    "tx' = tx\<lparr>m_debugMessageQueue := Some hd, m_attitudeMessageQueue := Some ha,
              m_onboardMessageQueue := Some hb\<rparr>"
    "names w' = (names w)(c_debugMessageQueueName tx \<mapsto> hd, c_attitudeMessageQueueName tx \<mapsto> ha,
                          c_onboardMessageQueueName tx \<mapsto> hb)"
    "cont w' = cont w" "cont w hd = []" "cont w ha = []" "cont w hb = []"
    "cap hd = (unat (c_messageQueueSize tx), 20)" "cap ha = (unat (c_messageQueueSize tx), 32)"
    "cap hb = (unat (c_messageQueueSize tx), 12)"
proof -
  let ?n = "unat (c_messageQueueSize tx)"
  obtain rd w1 where od: "mq_open_or_create M (c_debugMessageQueueName tx) ?n 20 w = (rd, w1)" by force
  obtain ra w2 where oa: "mq_open_or_create M (c_attitudeMessageQueueName tx) ?n 32 w1 = (ra, w2)" by force
  obtain rb w3 where ob: "mq_open_or_create M (c_onboardMessageQueueName tx) ?n 12 w2 = (rb, w3)" by force
  from i od oa ob obtain hd ha hb where r: "rd = Some hd" "ra = Some ha" "rb = Some hb"
    and tx': "tx' = tx\<lparr>m_debugMessageQueue := Some hd, m_attitudeMessageQueue := Some ha,
              m_onboardMessageQueue := Some hb\<rparr>" and w': "w' = w3"
    by (auto simp: init_transmitter_def split: option.splits)
  note e = mq_open_or_createD[OF M od] mq_open_or_createD[OF M oa] mq_open_or_createD[OF M ob]
  show thesis by (rule that[OF tx']) (use e r d f w' in auto)
qed

lemma init_receiver_opens:
  assumes M: "mq_ok M names cont cap" and i: "init_receiver M rx w = (True, rx')"
  obtains hd ha hb where
    "rx' = rx\<lparr>r_debugMessageQueue := Some hd, r_attitudeMessageQueue := Some ha,
              r_onboardMessageQueue := Some hb\<rparr>"
    "names w (r_debugMessageQueueName rx) = Some hd" "names w (r_attitudeMessageQueueName rx) = Some ha"
    "names w (r_onboardMessageQueueName rx) = Some hb"
  using i mq_open_onlyD[OF M] by (auto simp: init_receiver_def split: option.splits)

lemma init_channels:
  assumes M: "mq_ok M names cont cap"
    and t: "init_transmitter M tx w = (True, tx', w')" and r: "init_receiver M rx w' = (True, rx')"
    and n: "r_debugMessageQueueName rx = c_debugMessageQueueName tx"
      "r_attitudeMessageQueueName rx = c_attitudeMessageQueueName tx"
      "r_onboardMessageQueueName rx = c_onboardMessageQueueName tx"
    and d: "distinct [c_debugMessageQueueName tx, c_attitudeMessageQueueName tx, c_onboardMessageQueueName tx]"
    and f: "names w (c_debugMessageQueueName tx) = None" "names w (c_attitudeMessageQueueName tx) = None"
      "names w (c_onboardMessageQueueName tx) = None"
    and c: "c = \<lparr>t_mq = M, t_names = names, t_cont = cont, t_cap = cap, t_tx = tx', t_rx = rx', t_pad = pad\<rparr>"
  shows "channel_valid m_debugMessageQueue r_debugMessageQueue 20 c
    \<and> channel_valid m_attitudeMessageQueue r_attitudeMessageQueue 32 c
    \<and> channel_valid m_onboardMessageQueue r_onboardMessageQueue 12 c
    \<and> channel_contents m_debugMessageQueue c w' = [] \<and> channel_contents m_attitudeMessageQueue c w' = []
    \<and> channel_contents m_onboardMessageQueue c w' = []
    \<and> channel_capacity m_debugMessageQueue c = unat (c_messageQueueSize tx)
    \<and> channel_capacity m_attitudeMessageQueue c = unat (c_messageQueueSize tx)
    \<and> channel_capacity m_onboardMessageQueue c = unat (c_messageQueueSize tx)"
proof -
  from init_transmitter_opens[OF M t d f] obtain hd ha hb where
    tx: "tx' = tx\<lparr>m_debugMessageQueue := Some hd, m_attitudeMessageQueue := Some ha,
              m_onboardMessageQueue := Some hb\<rparr>"
    and nm: "names w' = (names w)(c_debugMessageQueueName tx \<mapsto> hd, c_attitudeMessageQueueName tx \<mapsto> ha,
                          c_onboardMessageQueueName tx \<mapsto> hb)"
    and q: "cont w' = cont w" "cont w hd = []" "cont w ha = []" "cont w hb = []"
    "cap hd = (unat (c_messageQueueSize tx), 20)" "cap ha = (unat (c_messageQueueSize tx), 32)"
    "cap hb = (unat (c_messageQueueSize tx), 12)" .
  from init_receiver_opens[OF M r] obtain hd' ha' hb' where
    rx: "rx' = rx\<lparr>r_debugMessageQueue := Some hd', r_attitudeMessageQueue := Some ha',
              r_onboardMessageQueue := Some hb'\<rparr>"
    and nr: "names w' (r_debugMessageQueueName rx) = Some hd'"
    "names w' (r_attitudeMessageQueueName rx) = Some ha'" "names w' (r_onboardMessageQueueName rx) = Some hb'" .
  have "hd' = hd" "ha' = ha" "hb' = hb" using nr d by (auto simp: nm n split: if_splits)
  then show ?thesis using M q by (simp add: c channel_valid_def channel_defs tx rx)
qed

subsection \<open>Concrete queues\<close>

text \<open>An instance on which the hypotheses about queues hold: named queues in an association list.\<close>

type_synonym qid = "nat \<times> nat \<times> nat"   \<comment> \<open>serial number, capacity, message size\<close>

record shm =
  shm_names :: "string \<Rightarrow> qid option"
  shm_queues :: "(qid \<times> byte list list) list"

definition shm_cont :: "shm \<Rightarrow> qid \<Rightarrow> byte list list" where
  "shm_cont w h = (case map_of (shm_queues w) h of None \<Rightarrow> [] | Some q \<Rightarrow> q)"

definition shm_put :: "qid \<Rightarrow> byte list list \<Rightarrow> shm \<Rightarrow> shm" where
  "shm_put h q w = w\<lparr>shm_queues := AList.update h q (shm_queues w)\<rparr>"

definition shm_fresh :: "shm \<Rightarrow> nat" where
  "shm_fresh w = Suc (sum_list (map (\<lambda>q. fst (fst q)) (shm_queues w)))"

definition shm_empty :: shm where
  "shm_empty = \<lparr>shm_names = (\<lambda>_. None), shm_queues = []\<rparr>"

definition shm_mq :: "(qid, shm) mq" where
  "shm_mq = \<lparr>
     mq_open_or_create = (\<lambda>nm n sz w. case shm_names w nm of
         Some h \<Rightarrow> (Some h, w)
       | None \<Rightarrow> (Some (shm_fresh w, n, sz),
           shm_put (shm_fresh w, n, sz) [] (w\<lparr>shm_names := (shm_names w)(nm \<mapsto> (shm_fresh w, n, sz))\<rparr>))),
     mq_open_only = (\<lambda>nm w. shm_names w nm),
     mq_try_send = (\<lambda>h bs pr w.
         if snd (snd h) < length bs then (None, w)
         else if length (shm_cont w h) < fst (snd h) then (Some True, shm_put h (shm_cont w h @ [bs]) w)
         else (Some False, w)),
     mq_receive = (\<lambda>h n w.
         if n < snd (snd h) then (Refused, w)
         else (case shm_cont w h of [] \<Rightarrow> (Blocked, w) | bs # q \<Rightarrow> (Received bs, shm_put h q w))),
     mq_remove = (\<lambda>nm w. w\<lparr>shm_names := (shm_names w)(nm := None)\<rparr>)\<rparr>"

lemma shm_cont_put [simp]: "shm_cont (shm_put h q w) = (shm_cont w)(h := q)"
  by (auto simp: fun_eq_iff shm_cont_def shm_put_def update_conv')

lemma shm_put_names [simp]: "shm_names (shm_put h q w) = shm_names w"
  by (simp add: shm_put_def)

lemma shm_cont_names [simp]: "shm_cont (w\<lparr>shm_names := f\<rparr>) = shm_cont w"
  by (simp add: fun_eq_iff shm_cont_def)

lemma shm_cont_fresh: "shm_cont w (shm_fresh w, k) = []"
proof -
  have "(shm_fresh w, k) \<notin> fst ` set (shm_queues w)"
  proof
    assume "(shm_fresh w, k) \<in> fst ` set (shm_queues w)"
    then have "shm_fresh w \<in> set (map (\<lambda>q. fst (fst q)) (shm_queues w))" by force
    then show False using member_le_sum_list[of "shm_fresh w"] by (fastforce simp: shm_fresh_def)
  qed
  then show ?thesis by (simp add: shm_cont_def map_of_eq_None_iff[THEN iffD2])
qed

lemma shm_mq_ok: "mq_ok shm_mq shm_names shm_cont snd"
  unfolding mq_ok_def
proof (intro conjI)
  show "mq_open_ok shm_mq shm_names shm_cont snd"
    by (auto simp: mq_open_ok_def shm_mq_def shm_cont_fresh fun_eq_iff split: option.splits)
qed (auto simp: shm_mq_def split: if_splits list.splits)

subsection \<open>Properties\<close>

definition shm_telemetry :: "(qid, shm) telemetry" where
  \<comment> \<open>both sides with the same three queues of two messages\<close>
  "shm_telemetry = \<lparr>t_mq = shm_mq, t_names = shm_names, t_cont = shm_cont, t_cap = snd,
     t_tx = \<lparr>c_debugMessageQueueName = ''d'', c_attitudeMessageQueueName = ''a'',
        c_onboardMessageQueueName = ''o'', c_messageQueueSize = 2, m_debugMessageQueue = Some (1, 2, 20),
        m_attitudeMessageQueue = Some (2, 2, 32), m_onboardMessageQueue = Some (3, 2, 12)\<rparr>,
     t_rx = \<lparr>r_debugMessageQueueName = ''d'', r_attitudeMessageQueueName = ''a'',
        r_onboardMessageQueueName = ''o'', r_messageQueueSize = 0, r_debugMessageQueue = Some (1, 2, 20),
        r_attitudeMessageQueue = Some (2, 2, 32), r_onboardMessageQueue = Some (3, 2, 12)\<rparr>,
     t_pad = 0\<rparr>"

lemma shm_telemetry_valid:
  "channel_valid m_debugMessageQueue r_debugMessageQueue 20 shm_telemetry"
  "channel_valid m_attitudeMessageQueue r_attitudeMessageQueue 32 shm_telemetry"
  "channel_valid m_onboardMessageQueue r_onboardMessageQueue 12 shm_telemetry"
  by (simp_all add: channel_valid_def shm_telemetry_def shm_mq_ok)

lemma shm_telemetry_contents:
  "channel_contents m_debugMessageQueue shm_telemetry shm_empty = []"
  "channel_contents m_attitudeMessageQueue shm_telemetry shm_empty = []"
  "channel_contents m_onboardMessageQueue shm_telemetry shm_empty = []"
  by (simp_all add: channel_contents_def shm_telemetry_def shm_empty_def shm_cont_def)

text \<open>
  Debug messages arrive once, in order and unchanged: in any interleaving of sends and receives over a queue opened by
  both sides, the messages received, then those still queued, are the messages accepted before and
  during the run; no call faults, and a receive can only block.
\<close>
lemma debug_fifo:
  assumes "channel_valid m_debugMessageQueue r_debugMessageQueue 20 c"
    and "channel_contents m_debugMessageQueue c w = map enc_DebugMessage ps"
  shows "case run_events (sendDebugMessage (t_mq c) (t_tx c)) (receiveDebugMessage (t_mq c) (t_rx c)) q es w of
      None \<Rightarrow> True
    | Some (Inl e) \<Rightarrow> False
    | Some (Inr (as, rs, w')) \<Rightarrow> \<exists>rest. ps @ as = rs @ rest
        \<and> channel_contents m_debugMessageQueue c w' = map enc_DebugMessage rest"
  by (rule debug_channel.fifo[OF assms]) (simp_all add: list_all_def)

lemma debug_fifo_witness:
  "case run_events (sendDebugMessage (t_mq shm_telemetry) (t_tx shm_telemetry))
      (receiveDebugMessage (t_mq shm_telemetry) (t_rx shm_telemetry)) default_DebugMessage
      [Send default_DebugMessage, Send default_DebugMessage, Send default_DebugMessage, Receive] shm_empty of
      None \<Rightarrow> True
    | Some (Inl e) \<Rightarrow> False
    | Some (Inr (as, rs, w')) \<Rightarrow> \<exists>rest. [] @ as = rs @ rest
        \<and> channel_contents m_debugMessageQueue shm_telemetry w' = map enc_DebugMessage rest"
  by (rule debug_fifo) (simp_all add: shm_telemetry_valid shm_telemetry_contents)

text \<open>The same for attitude messages.\<close>
lemma attitude_fifo:
  assumes "channel_valid m_attitudeMessageQueue r_attitudeMessageQueue 32 c"
    and "channel_contents m_attitudeMessageQueue c w = map enc_AttitudeMessage ps"
  shows "case run_events (sendAttitudeMessage (t_mq c) (t_tx c)) (receiveAttitudeMessage (t_mq c) (t_rx c)) q es w of
      None \<Rightarrow> True
    | Some (Inl e) \<Rightarrow> False
    | Some (Inr (as, rs, w')) \<Rightarrow> \<exists>rest. ps @ as = rs @ rest
        \<and> channel_contents m_attitudeMessageQueue c w' = map enc_AttitudeMessage rest"
  by (rule attitude_channel.fifo[OF assms]) (simp_all add: list_all_def)

text \<open>
  The same for onboard messages whose autopilot and GPS fix are declared enumerators, which is what the receiver's log
  line needs.
\<close>
lemma onboard_fifo:
  assumes "channel_valid m_onboardMessageQueue r_onboardMessageQueue 12 c"
    and "channel_contents m_onboardMessageQueue c w = map (enc_OnboardStateMessage (t_pad c)) ps"
    and "list_all loggable ps" "\<forall>p. Send p \<in> set es \<longrightarrow> loggable p"
  shows "case run_events (sendOnboardMessage (t_mq c) (t_pad c) (t_tx c))
           (receiveOnboardMessage (t_mq c) (t_pad c) (t_rx c)) q es w of
      None \<Rightarrow> True
    | Some (Inl e) \<Rightarrow> False
    | Some (Inr (as, rs, w')) \<Rightarrow> \<exists>rest. ps @ as = rs @ rest
        \<and> channel_contents m_onboardMessageQueue c w' = map (enc_OnboardStateMessage (t_pad c)) rest"
  by (rule onboard_channel.fifo[OF assms])

lemma onboard_fifo_witness:
  "case run_events (sendOnboardMessage (t_mq shm_telemetry) (t_pad shm_telemetry) (t_tx shm_telemetry))
      (receiveOnboardMessage (t_mq shm_telemetry) (t_pad shm_telemetry) (t_rx shm_telemetry))
      default_OnboardStateMessage
      [Send default_OnboardStateMessage, Receive, Send default_OnboardStateMessage] shm_empty of
      None \<Rightarrow> True
    | Some (Inl e) \<Rightarrow> False
    | Some (Inr (as, rs, w')) \<Rightarrow> \<exists>rest. [] @ as = rs @ rest
        \<and> channel_contents m_onboardMessageQueue shm_telemetry w'
            = map (enc_OnboardStateMessage (t_pad shm_telemetry)) rest"
  by (rule onboard_fifo)
    (simp_all add: shm_telemetry_valid shm_telemetry_contents loggable_def default_OnboardStateMessage_def)

text \<open>
  An onboard message with a byte that is no enumerator makes the receiver throw \<^verbatim>\<open>out_of_range\<close> out of
  \<^verbatim>\<open>receiveOnboardMessage\<close> (only exceptions of the queue are caught), after it was taken off the queue.
\<close>
lemma onboard_bad_enumerator:
  assumes "channel_valid m_onboardMessageQueue r_onboardMessageQueue 12 c"
    and "channel_contents m_onboardMessageQueue c w = enc_OnboardStateMessage (t_pad c) p # rest" "\<not> loggable p"
  shows "receiveOnboardMessage (t_mq c) (t_pad c) (t_rx c) q w = Some (Inl OutOfRange)
    \<and> (\<exists>w'. receive_bytes (t_mq c) (r_onboardMessageQueue (t_rx c)) (enc_OnboardStateMessage (t_pad c) q) w
            = Some (Inr (True, enc_OnboardStateMessage (t_pad c) p, w'))
          \<and> channel_contents m_onboardMessageQueue c w' = rest)"
proof -
  obtain w' where r: "receive_bytes (t_mq c) (r_onboardMessageQueue (t_rx c))
      (enc_OnboardStateMessage (t_pad c) q) w = Some (Inr (True, enc_OnboardStateMessage (t_pad c) p, w'))"
    "channel_contents m_onboardMessageQueue c w' = rest"
    using channel_receive[OF assms(1) onboard.enc_length onboard.enc_length assms(2)] by blast
  obtain e where "show_OnboardStateMessage p = Inl e"
    using assms(3) loggable_iff by (cases "show_OnboardStateMessage p") auto
  then have "show_OnboardStateMessage p = Inl OutOfRange" using show_OnboardStateMessage_cases(2) by blast
  then show ?thesis using r by (simp add: receiveOnboardMessage_def onboard.dec_enc)
qed

lemma onboard_bad_enumerator_witness:
  "receiveOnboardMessage (t_mq shm_telemetry) (t_pad shm_telemetry) (t_rx shm_telemetry)
     default_OnboardStateMessage
     (shm_put (3, 2, 12) [enc_OnboardStateMessage (t_pad shm_telemetry)
        (default_OnboardStateMessage\<lparr>autopilotType := AutopilotType 9\<rparr>)] shm_empty) = Some (Inl OutOfRange)"
  using onboard_bad_enumerator[OF shm_telemetry_valid(3), where p =
      "default_OnboardStateMessage\<lparr>autopilotType := AutopilotType 9\<rparr>" and rest = "[]"
      and w = "shm_put (3, 2, 12) [enc_OnboardStateMessage (t_pad shm_telemetry)
        (default_OnboardStateMessage\<lparr>autopilotType := AutopilotType 9\<rparr>)] shm_empty"
      and q = default_OnboardStateMessage]
  by (simp add: channel_contents_def shm_telemetry_def loggable_def)

text \<open>
  A queue left over from a version with larger messages (the names are opened or created, and an existing queue
  keeps its message size) refuses every receive, leaves the message object as it was, and keeps its
  contents: a receiver that retries on failure never gets past it.
\<close>
lemma stale_queue:
  assumes "mq_ok M names cont cap" "r_debugMessageQueue rx = Some h" "20 < snd (cap h)"
  shows "\<exists>w'. receiveDebugMessage M rx m w = Some (Inr (False, m, w')) \<and> cont w' = cont w"
proof -
  obtain w' where "receive_bytes M (Some h) (enc_DebugMessage m) w = Some (Inr (False, enc_DebugMessage m, w'))"
    "cont w' = cont w"
    using receive_bytes_too_small[OF assms(1), of "enc_DebugMessage m" h w] assms(3) debug.enc_length[of m] by auto
  then show ?thesis using assms(2) by (simp add: receiveDebugMessage_def debug.dec_enc)
qed

lemma stale_queue_witness:
  "\<exists>w'. receiveDebugMessage shm_mq (t_rx shm_telemetry\<lparr>r_debugMessageQueue := Some (1, 2, 24)\<rparr>)
      default_DebugMessage shm_empty = Some (Inr (False, default_DebugMessage, w')) \<and> shm_cont w' = shm_cont shm_empty"
  using stale_queue[OF shm_mq_ok, of "t_rx shm_telemetry\<lparr>r_debugMessageQueue := Some (1, 2, 24)\<rparr>" "(1, 2, 24)"]
  by simp

end
