(* ===== verification/SomController.thy ===== *)
theory SomController
  imports AutopilotManager SerialController TelemetryMQ
begin

section \<open>SomController: handshake, main loop and telemetry\<close>

text \<open>
  \<^verbatim>\<open>som/SomController\<close> and \<^verbatim>\<open>som/main.cpp\<close>. The serial operations and the message queues are the
  parameters \<open>A\<close> and \<open>M\<close> of the components it calls; \<open>pad\<close> is the padding byte of the onboard message.
  The state of the queues (\<open>'w\<close>) is passed along; the fault of an iteration ends the process, so
  no state is kept with it. \<^verbatim>\<open>m_ioService.stopped()\<close> is set by another thread: \<open>stopped n\<close> is what its
  \<open>n\<close>-th call returns, and the loop, which need not end, is a partial function.
\<close>

record ('d, 'h) SomController =
  c_handshakeAttempts :: u32
  c_mainLoopDelay :: u32
  som_configManager :: ConfigManager
  m_serialController :: "'d SerialController"
  m_autopilotUtility :: AutopilotUtility
  m_autopilotManager :: AutopilotManager
  m_debugMessage :: DebugMessage
  m_attitudeMessage :: AttitudeMessage
  m_onboardMessage :: OnboardStateMessage
  m_telemetryTransmitter :: "'h TelemetryTransmitterMQ"

subsection \<open>Construction\<close>

definition som_loadConfig ::
  "(string \<Rightarrow> string option) \<Rightarrow> (string \<Rightarrow> json option) \<Rightarrow> string \<Rightarrow> ConfigManager res" where
  \<comment> \<open>the assertion on the loaded configuration, for the default path or a given one\<close>
  "som_loadConfig fs parse configPath =
     (case loadConfig fs parse new_ConfigManager
             (if configPath = [] then k_defaultConfigPath else configPath) of
        (ok, cm) \<Rightarrow> res_bind ok (\<lambda>b. res_bind (rcplane_assert b) (\<lambda>_. Inr cm)))"

definition som_open ::
  "'d asio \<Rightarrow> 'd SerialController \<Rightarrow> 'd SerialController res" where
  "som_open A sc = (case open_port A sc of (ok, sc') \<Rightarrow> res_bind (rcplane_assert ok) (\<lambda>_. Inr sc'))"

definition som_init_telemetry ::
  "('h, 'w) mq \<Rightarrow> 'h TelemetryTransmitterMQ \<Rightarrow> 'w \<Rightarrow> ('h TelemetryTransmitterMQ \<times> 'w) res" where
  "som_init_telemetry M tx w =
     (case init_transmitter M tx w of (ok, tx', w') \<Rightarrow>
        res_bind (rcplane_assert ok) (\<lambda>_. Inr (tx', w')))"

definition new_SomController ::
  "(string \<Rightarrow> string list) \<Rightarrow> (string \<Rightarrow> string option) \<Rightarrow> (string \<Rightarrow> json option)
   \<Rightarrow> 'd asio \<Rightarrow> ('h, 'w) mq \<Rightarrow> string \<Rightarrow> 'd \<Rightarrow> 'w \<Rightarrow> (('d, 'h) SomController \<times> 'w) res" where
  "new_SomController split fs parse A M configPath port w =
     res_bind (som_loadConfig fs parse configPath) (\<lambda>cm.
     res_bind (getValue split get_u32 cm ''rcplane.som.som_controller.handshake_attempts'') (\<lambda>n.
     res_bind (getValue split get_u32 cm ''rcplane.som.som_controller.main_loop_delay_ms'') (\<lambda>t.
     res_bind (new_SerialController split cm port) (\<lambda>sc.
     res_bind (som_open A sc) (\<lambda>sc'.
     res_bind (new_AutopilotUtility split cm) (\<lambda>u.
     res_bind (new_AutopilotManager split u) (\<lambda>m.
     res_bind (new_TelemetryTransmitterMQ split cm) (\<lambda>tx.
     res_bind (som_init_telemetry M tx w) (\<lambda>(tx', w').
       Inr (\<lparr>c_handshakeAttempts = n, c_mainLoopDelay = t, som_configManager = cm,
             m_serialController = sc', m_autopilotUtility = u, m_autopilotManager = m,
             m_debugMessage = default_DebugMessage, m_attitudeMessage = default_AttitudeMessage,
             m_onboardMessage = default_OnboardStateMessage,
             m_telemetryTransmitter = tx'\<rparr>, w'))))))))))"

subsection \<open>Telemetry\<close>

definition sendTelemetry ::
  "('h, 'w) mq \<Rightarrow> byte \<Rightarrow> ('d, 'h) SomController \<Rightarrow> 'w \<Rightarrow> 'w res" where
  \<comment> \<open>a message that is not sent is logged only\<close>
  "sendTelemetry M pad som w =
     res_bind (sendDebugMessage M (m_telemetryTransmitter som) (m_debugMessage som) w) (\<lambda>(_, w1).
     res_bind (sendAttitudeMessage M (m_telemetryTransmitter som) (m_attitudeMessage som) w1) (\<lambda>(_, w2).
     res_bind (sendOnboardMessage M pad (m_telemetryTransmitter som) (m_onboardMessage som) w2)
       (\<lambda>(_, w3). Inr w3)))"

subsection \<open>The handshake\<close>

definition kHandshakePacket :: HandshakePacket where
  "kHandshakePacket = \<lparr>handshake = 1\<rparr>"

definition count_read :: "bool \<Rightarrow> DebugMessage \<Rightarrow> DebugMessage" where
  "count_read timedOut m =
     (if timedOut then m\<lparr>serialReadTimeouts := serialReadTimeouts m + 1\<rparr>
      else m\<lparr>serialReads := serialReads m + 1\<rparr>)"

definition count_write :: "bool \<Rightarrow> DebugMessage \<Rightarrow> DebugMessage" where
  "count_write ok m =
     (if ok then m\<lparr>serialWrites := serialWrites m + 1\<rparr>
      else m\<lparr>serialWriteTimeouts := serialWriteTimeouts m + 1\<rparr>)"

fun handshake_attempts ::
  "'d asio \<Rightarrow> nat \<Rightarrow> ('d, 'h) SomController \<Rightarrow> bool \<times> ('d, 'h) SomController" where
  "handshake_attempts A 0 som = (False, som)"
| "handshake_attempts A (Suc n) som =
     (case readPacket A 1 dec_HandshakePacket default_HandshakePacket (m_serialController som) of
        (r, sc) \<Rightarrow>
          if didTimeout r then
            handshake_attempts A n (som\<lparr>m_serialController := sc,
              m_debugMessage := count_read True (m_debugMessage som)\<rparr>)
          else if eq_HandshakePacket kHandshakePacket (packet r) then
            (True, som\<lparr>m_serialController := sc,
              m_debugMessage := count_read False (m_debugMessage som)\<rparr>)
          else handshake_attempts A n (som\<lparr>m_serialController := sc\<rparr>))"

definition handshakeMCU ::
  "'d asio \<Rightarrow> ('d, 'h) SomController \<Rightarrow> (bool \<times> ('d, 'h) SomController) res" where
  "handshakeMCU A som =
     (case flush A (m_serialController som) of
        (flushed, sc) \<Rightarrow>
          res_bind (rcplane_assert flushed) (\<lambda>_.
            (case writePacket A enc_HandshakePacket sc kHandshakePacket of
               (False, sc') \<Rightarrow> Inr (False, som\<lparr>m_serialController := sc'\<rparr>)
             | (True, sc') \<Rightarrow>
                 Inr (handshake_attempts A (unat (c_handshakeAttempts som))
                   (som\<lparr>m_serialController := sc',
                        m_debugMessage := count_write True (m_debugMessage som)\<rparr>)))))"

subsection \<open>The main loop\<close>

definition onboard_message ::
  "OnboardStateMessage \<Rightarrow> RcRxPacket \<Rightarrow> ControlSurfacePacket \<Rightarrow> bool \<Rightarrow> u8 \<Rightarrow> OnboardStateMessage" where
  "onboard_message m rcRxPacket controlSurfacePacket manual temp =
     m\<lparr>mcuTimestamp := timestamp rcRxPacket, throttle := motorSpeed controlSurfacePacket,
       o_aileronDeflection := aileronDeflection controlSurfacePacket,
       o_elevatorDeflection := elevatorDeflection controlSurfacePacket,
       o_rudderDeflection := rudderDeflection controlSurfacePacket,
       autopilotType := (if manual then MANUAL_AUTOPILOT else STABILIZE_AUTOPILOT),
       imuTemperature := temp\<rparr>"

definition attitude_message :: "AttitudeMessage \<Rightarrow> ImuPacket \<Rightarrow> AttitudeMessage" where
  "attitude_message m imuPacket =
     m\<lparr>rollAngle := double_of_float (gyroX imuPacket), pitchAngle := double_of_float (gyroY imuPacket),
       yawAngle := double_of_float (gyroZ imuPacket)\<rparr>"

definition som_read_rc ::
  "'d asio \<Rightarrow> ('d, 'h) SomController \<Rightarrow> RcRxPacket \<times> ('d, 'h) SomController" where
  "som_read_rc A som =
     (case readPacket A 9 dec_RcRxPacket default_RcRxPacket (m_serialController som) of
        (r, sc) \<Rightarrow> (packet r, som\<lparr>m_serialController := sc,
                               m_debugMessage := count_read (didTimeout r) (m_debugMessage som)\<rparr>))"

definition som_read_imu ::
  "'d asio \<Rightarrow> ('d, 'h) SomController \<Rightarrow> ImuPacket \<times> ('d, 'h) SomController" where
  "som_read_imu A som =
     (case readPacket A 28 dec_ImuPacket default_ImuPacket (m_serialController som) of
        (r, sc) \<Rightarrow> (packet r, som\<lparr>m_serialController := sc,
                               m_debugMessage := count_read (didTimeout r) (m_debugMessage som)\<rparr>))"

definition som_control ::
  "('d, 'h) SomController \<Rightarrow> RcRxPacket \<Rightarrow> ImuPacket
   \<Rightarrow> (ControlSurfacePacket \<times> ('d, 'h) SomController) res" where
  \<comment> \<open>the autopilot's command and the onboard message\<close>
  "som_control som rcRxPacket imuPacket =
     res_bind (AutopilotManager_trigger (m_autopilotUtility som) (m_autopilotManager som)
                 rcRxPacket imuPacket) (\<lambda>(m, c).
     res_bind (fp_to_u8 (fp_of_bits32 (temperature imuPacket))) (\<lambda>temp.
       Inr (c, som\<lparr>m_autopilotManager := m, m_onboardMessage :=
                    onboard_message (m_onboardMessage som) rcRxPacket c (isInManualMode m) temp\<rparr>)))"

definition som_write ::
  "'d asio \<Rightarrow> ('d, 'h) SomController \<Rightarrow> ControlSurfacePacket \<Rightarrow> ImuPacket \<Rightarrow> ('d, 'h) SomController" where
  \<comment> \<open>write the command, count, and fill the attitude message\<close>
  "som_write A som c imuPacket =
     (case writePacket A enc_ControlSurfacePacket (m_serialController som) c of
        (ok, sc) \<Rightarrow> som\<lparr>m_serialController := sc,
          m_debugMessage := (count_write ok (m_debugMessage som))
            \<lparr>mainLoopCounter := mainLoopCounter (m_debugMessage som) + 1\<rparr>,
          m_attitudeMessage := attitude_message (m_attitudeMessage som) imuPacket\<rparr>)"

definition som_iteration ::
  "'d asio \<Rightarrow> ('h, 'w) mq \<Rightarrow> byte \<Rightarrow> ('d, 'h) SomController \<times> 'w \<Rightarrow> (('d, 'h) SomController \<times> 'w) res"
  where
  \<comment> \<open>the body of the loop\<close>
  "som_iteration A M pad =
     (\<lambda>(som, w).
        case som_read_rc A som of (r, som1) \<Rightarrow>
        case som_read_imu A som1 of (i, som2) \<Rightarrow>
          res_bind (som_control som2 r i) (\<lambda>(c, som3).
          res_bind (sendTelemetry M pad (som_write A som3 c i) w) (\<lambda>w'.
            Inr (som_write A som3 c i, w'))))"

partial_function (option) main_loop ::
  "(nat \<Rightarrow> bool) \<Rightarrow> ('s \<Rightarrow> 's res) \<Rightarrow> nat \<Rightarrow> 's \<Rightarrow> 's res option" where
  \<comment> \<open>\<^verbatim>\<open>while (!m_ioService.stopped())\<close>\<close>
  "main_loop stopped body n s =
     (if stopped n then Some (Inr s)
      else (case body s of Inl e \<Rightarrow> Some (Inl e) | Inr s' \<Rightarrow> main_loop stopped body (Suc n) s'))"

definition runMainLoop ::
  "'d asio \<Rightarrow> ('h, 'w) mq \<Rightarrow> byte \<Rightarrow> (nat \<Rightarrow> bool) \<Rightarrow> ('d, 'h) SomController \<Rightarrow> 'w
   \<Rightarrow> (('d, 'h) SomController \<times> 'w) res option" where
  "runMainLoop A M pad stopped som w =
     (case res_bind (sendTelemetry M pad som w) (\<lambda>w'.
             res_bind (rcplane_assert (\<not> stopped 0)) (\<lambda>_. Inr w')) of
        Inl e \<Rightarrow> Some (Inl e)
      | Inr w' \<Rightarrow> main_loop stopped (som_iteration A M pad) 1 (som, w'))"

definition som_session ::
  "'d asio \<Rightarrow> ('h, 'w) mq \<Rightarrow> byte \<Rightarrow> (nat \<Rightarrow> bool) \<Rightarrow> ('d, 'h) SomController \<Rightarrow> 'w \<Rightarrow> int res option" where
  \<comment> \<open>\<^verbatim>\<open>main\<close> from the handshake on: the exit status\<close>
  "som_session A M pad stopped som w =
     (case handshakeMCU A som of
        Inl e \<Rightarrow> Some (Inl e)
      | Inr (False, som') \<Rightarrow> Some (Inr 1)
      | Inr (True, som') \<Rightarrow> map_option (\<lambda>r. res_bind r (\<lambda>_. Inr 0)) (runMainLoop A M pad stopped som' w))"

definition som_main ::
  "(string \<Rightarrow> string list) \<Rightarrow> (string \<Rightarrow> string option) \<Rightarrow> (string \<Rightarrow> json option)
   \<Rightarrow> 'd asio \<Rightarrow> ('h, 'w) mq \<Rightarrow> byte \<Rightarrow> (nat \<Rightarrow> bool) \<Rightarrow> 'd \<Rightarrow> 'w \<Rightarrow> int res option" where
  \<comment> \<open>\<^verbatim>\<open>main\<close> up to the destruction of the controller: the exit status\<close>
  "som_main split fs parse A M pad stopped port w =
     (case new_SomController split fs parse A M [] port w of
        Inl e \<Rightarrow> Some (Inl e)
      | Inr (som, w') \<Rightarrow> som_session A M pad stopped som w')"

end
