(* ===== verification/SomLoop.thy ===== *)
theory SomLoop
  imports SomController
begin

section \<open>What the SoM does: main loop and handshake\<close>

text \<open>
  Lemmas about the operations of \<open>SomController\<close>: an iteration is defined and keeps the invariant
  \<open>som_ready\<close> whatever arrived, provided the angles and the temperature decoded from the IMU packet
  are within range; the counters balance; a stream in step is served packet by packet; and the
  handshake consumes the stream up to and including the first byte 1.
\<close>

subsection \<open>Loops\<close>

fun repeat_res :: "nat \<Rightarrow> ('s \<Rightarrow> 's res) \<Rightarrow> 's \<Rightarrow> 's res" where
  "repeat_res 0 body s = Inr s"
| "repeat_res (Suc n) body s = res_bind (body s) (repeat_res n body)"

lemma main_loop_stops:
  assumes "\<forall>j < n. \<not> stopped (k + j)" "stopped (k + n)"
  shows "main_loop stopped body k s = Some (repeat_res n body s)"
  using assms
proof (induction n arbitrary: k s)
  case 0
  then show ?case by (simp add: main_loop.simps)
next
  case (Suc n)
  have "\<not> stopped k" "\<forall>j < n. \<not> stopped (Suc k + j)"
    using Suc.prems(1) by (auto dest: spec[of _ 0] spec[of _ "Suc _"])
  with Suc show ?case by (auto simp: main_loop.simps[of _ _ k] split: sum.split)
qed

lemma repeat_res_inv:
  assumes "\<And>s s'. body s = Inr s' \<Longrightarrow> P s \<Longrightarrow> P s'" "repeat_res n body s = Inr s'" "P s"
  shows "P s'"
  using assms(2,3) by (induction n arbitrary: s) (auto simp: res_simps intro: assms(1))

lemma repeat_res_snoc: "repeat_res (Suc n) body s = res_bind (repeat_res n body s) body"
proof (induction n arbitrary: s)
  case 0
  then show ?case by (cases "body s") simp_all
next
  case (Suc n)
  then show ?case by (cases "body s") simp_all
qed

lemma main_loop_SomeD:
  assumes "main_loop stopped body k s = Some r"
  shows "\<exists>n. r = repeat_res n body s \<and> (isl r \<or> stopped (k + n))"
proof (rule main_loop.raw_induct[where
      P = "\<lambda>st b k s r. \<exists>n. r = repeat_res n b s \<and> (isl r \<or> st (k + n))", OF _ assms])
  fix ml st b k s r
  assume IH: "\<And>st b k s r. ml st b k s = Some r \<Longrightarrow> \<exists>n. r = repeat_res n b s \<and> (isl r \<or> st (k + n))"
    and e: "(if st k then Some (Inr s)
      else case b s of Inl e \<Rightarrow> Some (Inl e) | Inr s' \<Rightarrow> ml st b (Suc k) s') = Some r"
  show "\<exists>n. r = repeat_res n b s \<and> (isl r \<or> st (k + n))"
  proof (cases "st k")
    case True
    then have "r = repeat_res 0 b s \<and> (isl r \<or> st (k + 0))" using e by simp
    then show ?thesis by blast
  next
    case False
    show ?thesis
    proof (cases "b s")
      case (Inl x)
      then have "r = Inl x" using e False by simp
      with Inl have "r = repeat_res 1 b s \<and> (isl r \<or> st (k + 1))" by simp
      then show ?thesis by blast
    next
      case (Inr s')
      then obtain n where "r = repeat_res n b s'" "isl r \<or> st (Suc k + n)"
        using IH[of st b "Suc k" s' r] e False by auto
      with Inr have "r = repeat_res (Suc n) b s \<and> (isl r \<or> st (k + Suc n))" by simp
      then show ?thesis by blast
    qed
  qed
qed

lemma main_loop_inv:
  assumes "\<And>s s'. body s = Inr s' \<Longrightarrow> P s \<Longrightarrow> P s'"
    and "main_loop stopped body k s = Some (Inr s')" and "P s"
  shows "P s'"
  using main_loop_SomeD[OF assms(2)] repeat_res_inv[of body P _ s s'] assms(1,3) by auto

lemma repeat_res_defined:
  assumes "\<And>s. P s \<Longrightarrow> \<exists>s'. body s = Inr s' \<and> P s'" "P s"
  shows "\<exists>s'. repeat_res n body s = Inr s' \<and> P s'"
  using assms(2)
proof (induction n arbitrary: s)
  case (Suc n)
  then show ?case using assms(1)[OF Suc.prems] by auto
qed simp

lemma main_loop_returns_iff:
  \<comment> \<open>a loop whose body never faults returns exactly if it is stopped\<close>
  assumes "\<And>s. P s \<Longrightarrow> \<exists>s'. body s = Inr s' \<and> P s'" "P s"
  shows "main_loop stopped body k s \<noteq> None \<longleftrightarrow> (\<exists>n. stopped (k + n))"
proof
  assume "main_loop stopped body k s \<noteq> None"
  then obtain r where r: "main_loop stopped body k s = Some r" by blast
  from main_loop_SomeD[OF r] obtain n where "r = repeat_res n body s" "isl r \<or> stopped (k + n)"
    by blast
  moreover obtain s' where "repeat_res n body s = Inr s'" using repeat_res_defined[of P body s n] assms by blast
  ultimately show "\<exists>n. stopped (k + n)" by auto
next
  assume "\<exists>n. stopped (k + n)"
  then obtain n where "stopped (k + n)" "\<forall>j < n. \<not> stopped (k + j)" 
    using exists_least_iff[of "\<lambda>n. stopped (k + n)"] by auto
  from main_loop_stops[OF this(2,1), of body s] show "main_loop stopped body k s \<noteq> None" by simp
qed

subsection \<open>An iteration is defined\<close>

definition telemetry_ready :: "'h TelemetryTransmitterMQ \<Rightarrow> bool" where
  "telemetry_ready tx \<longleftrightarrow> m_debugMessageQueue tx \<noteq> None \<and> m_attitudeMessageQueue tx \<noteq> None
     \<and> m_onboardMessageQueue tx \<noteq> None"

definition som_ready :: "('d, 'h) SomController \<Rightarrow> bool" where
  "som_ready som \<longleftrightarrow> limits_ok (m_autopilotUtility som) \<and> manager_inv (m_autopilotManager som)
     \<and> telemetry_ready (m_telemetryTransmitter som) \<and> loggable (m_onboardMessage som)"

definition imu_sane :: "ImuPacket \<Rightarrow> bool" where
  \<comment> \<open>angles within the bounds of \<open>attitude_ok\<close>, temperature from -1 (excluded) to 256 (excluded)\<close>
  "imu_sane i \<longleftrightarrow> attitude_ok i \<and> is_fin (fp_of_bits32 (temperature i))
     \<and> 0 \<le> trunc_rat (fp_val (fp_of_bits32 (temperature i)))
     \<and> trunc_rat (fp_val (fp_of_bits32 (temperature i))) \<le> 255"

lemma imu_sane_temp: "imu_sane i \<Longrightarrow> \<exists>b. fp_to_u8 (fp_of_bits32 (temperature i)) = Inr b"
  by (simp add: imu_sane_def fp_to_u8_def fp_to_int_def)

lemma send_bytes_Some: "\<exists>ok w'. send_bytes M (Some h) bs w = Inr (ok, w')"
  by (auto simp: send_bytes_def split: prod.splits option.splits)

lemma sendTelemetry_defined:
  assumes "telemetry_ready (m_telemetryTransmitter som)"
  shows "\<exists>w'. sendTelemetry M pad som w = Inr w'"
proof -
  from assms obtain d a b where q: "m_debugMessageQueue (m_telemetryTransmitter som) = Some d"
    "m_attitudeMessageQueue (m_telemetryTransmitter som) = Some a"
    "m_onboardMessageQueue (m_telemetryTransmitter som) = Some b"
    by (auto simp: telemetry_ready_def)
  obtain k1 w1 where 1: "send_bytes M (Some d) (enc_DebugMessage (m_debugMessage som)) w = Inr (k1, w1)"
    using send_bytes_Some[of M d _ w] by blast
  obtain k2 w2 where 2: "send_bytes M (Some a) (enc_AttitudeMessage (m_attitudeMessage som)) w1 = Inr (k2, w2)"
    using send_bytes_Some[of M a _ w1] by blast
  obtain k3 w3 where 3: "send_bytes M (Some b)
      (enc_OnboardStateMessage pad (m_onboardMessage som)) w2 = Inr (k3, w3)"
    using send_bytes_Some[of M b _ w2] by blast
  show ?thesis
    by (simp add: sendTelemetry_def sendDebugMessage_def sendAttitudeMessage_def sendOnboardMessage_def
        q 1 2 3)
qed

lemma onboard_message_loggable:
  "loggable m \<Longrightarrow> loggable (onboard_message m r c manual t)"
  by (simp add: loggable_def onboard_message_def enumerator_defs)

lemmas som_step_defs = som_read_rc_def som_read_imu_def som_control_def som_write_def

lemma som_read_frame:
  "som_read_rc A som = (r, som') \<Longrightarrow> m_autopilotUtility som' = m_autopilotUtility som
     \<and> m_autopilotManager som' = m_autopilotManager som \<and> m_onboardMessage som' = m_onboardMessage som
     \<and> m_telemetryTransmitter som' = m_telemetryTransmitter som"
  "som_read_imu A som = (i, som') \<Longrightarrow> m_autopilotUtility som' = m_autopilotUtility som
     \<and> m_autopilotManager som' = m_autopilotManager som \<and> m_onboardMessage som' = m_onboardMessage som
     \<and> m_telemetryTransmitter som' = m_telemetryTransmitter som"
  by (auto simp: som_step_defs split: prod.splits)

lemma som_write_frame [simp]:
  "m_autopilotUtility (som_write A som c i) = m_autopilotUtility som"
  "m_autopilotManager (som_write A som c i) = m_autopilotManager som"
  "m_onboardMessage (som_write A som c i) = m_onboardMessage som"
  "m_telemetryTransmitter (som_write A som c i) = m_telemetryTransmitter som"
  "m_attitudeMessage (som_write A som c i) = attitude_message (m_attitudeMessage som) i"
  by (auto simp: som_write_def split: prod.splits)

lemma som_control_ready:
  assumes s: "som_ready som" and i: "imu_sane i"
  shows "\<exists>c som'. som_control som r i = Inr (c, som') \<and> som_ready som'"
proof -
  have "limits_ok (m_autopilotUtility som)" "manager_inv (m_autopilotManager som)" "attitude_ok i"
    using s i by (auto simp: som_ready_def imu_sane_def)
  from manager.defined[OF this] obtain m c where
    t: "AutopilotManager_trigger (m_autopilotUtility som) (m_autopilotManager som) r i = Inr (m, c)"
    "manager_inv m" by blast
  obtain b where "fp_to_u8 (fp_of_bits32 (temperature i)) = Inr b" using imu_sane_temp[OF i] by blast
  with t s show ?thesis by (simp add: som_control_def som_ready_def onboard_message_loggable)
qed

definition iteration_input :: "'d asio \<Rightarrow> ('d, 'h) SomController \<Rightarrow> RcRxPacket \<times> ImuPacket" where
  \<comment> \<open>the packets an iteration works on: those read, or default ones after a timeout\<close>
  "iteration_input A som =
     (fst (som_read_rc A som), fst (som_read_imu A (snd (som_read_rc A som))))"

lemma som_iteration_steps:
  assumes "som_read_rc A som = (r, som1)" "som_read_imu A som1 = (i, som2)"
    "som_control som2 r i = Inr (c, som3)" "sendTelemetry M pad (som_write A som3 c i) w = Inr w'"
  shows "som_iteration A M pad (som, w) = Inr (som_write A som3 c i, w')"
  using assms by (simp add: som_iteration_def)

lemma som_iterationE:
  assumes "som_iteration A M pad (som, w) = Inr (som', w')"
  obtains r som1 i som2 c som3 where "som_read_rc A som = (r, som1)" "som_read_imu A som1 = (i, som2)"
    "som_control som2 r i = Inr (c, som3)" "som' = som_write A som3 c i"
    "sendTelemetry M pad som' w = Inr w'"
  using assms by (auto simp: som_iteration_def split: prod.splits sum.splits)

lemma som_iteration_ready:
  assumes s: "som_ready som" and i: "imu_sane (snd (iteration_input A som))"
  shows "\<exists>som' w'. som_iteration A M pad (som, w) = Inr (som', w') \<and> som_ready som'"
proof -
  obtain r som1 where 1: "som_read_rc A som = (r, som1)" by force
  obtain im som2 where 2: "som_read_imu A som1 = (im, som2)" by force
  have "som_ready som2" using s som_read_frame(1)[OF 1] som_read_frame(2)[OF 2] by (simp add: som_ready_def)
  moreover have "imu_sane im" using i 1 2 by (simp add: iteration_input_def)
  ultimately obtain c som3 where 3: "som_control som2 r im = Inr (c, som3)" "som_ready som3"
    using som_control_ready by blast
  then obtain w' where "sendTelemetry M pad (som_write A som3 c im) w = Inr w'"
    using sendTelemetry_defined[of "som_write A som3 c im" M pad w] by (auto simp: som_ready_def)
  from som_iteration_steps[OF 1 2 3(1) this] 3(2) show ?thesis by (simp add: som_ready_def)
qed

subsection \<open>The counters\<close>

definition counters_from :: "DebugMessage \<Rightarrow> DebugMessage \<Rightarrow> bool" where
  \<comment> \<open>per iteration: two reads and one write, each done or timed out (modulo \<open>2 ^ 32\<close>)\<close>
  "counters_from m0 m \<longleftrightarrow>
     serialReads m + serialReadTimeouts m - 2 * mainLoopCounter m
       = serialReads m0 + serialReadTimeouts m0 - 2 * mainLoopCounter m0
   \<and> serialWrites m + serialWriteTimeouts m - mainLoopCounter m
       = serialWrites m0 + serialWriteTimeouts m0 - mainLoopCounter m0"

lemma counters_from_refl [simp]: "counters_from m m"
  by (simp add: counters_from_def)

lemma count_fields:
  "serialReads (count_read b m) + serialReadTimeouts (count_read b m)
     = serialReads m + serialReadTimeouts m + 1"
  "serialWrites (count_read b m) = serialWrites m"
  "serialWriteTimeouts (count_read b m) = serialWriteTimeouts m"
  "mainLoopCounter (count_read b m) = mainLoopCounter m"
  "serialWrites (count_write b m) + serialWriteTimeouts (count_write b m)
     = serialWrites m + serialWriteTimeouts m + 1"
  "serialReads (count_write b m) = serialReads m"
  "serialReadTimeouts (count_write b m) = serialReadTimeouts m"
  "mainLoopCounter (count_write b m) = mainLoopCounter m"
  by (simp_all add: count_read_def count_write_def)

lemma som_iteration_debug:
  assumes "som_iteration A M pad (som, w) = Inr (som', w')"
  shows "\<exists>t1 t2 ok. m_debugMessage som' =
    (count_write ok (count_read t2 (count_read t1 (m_debugMessage som))))
      \<lparr>mainLoopCounter := mainLoopCounter (m_debugMessage som) + 1\<rparr>"
  using assms
proof (rule som_iterationE)
  fix r som1 i som2 c som3
  assume s: "som_read_rc A som = (r, som1)" "som_read_imu A som1 = (i, som2)"
    "som_control som2 r i = Inr (c, som3)" "som' = som_write A som3 c i"
  obtain t1 where 1: "m_debugMessage som1 = count_read t1 (m_debugMessage som)"
    using s(1) by (auto simp: som_read_rc_def split: prod.splits)
  obtain t2 where 2: "m_debugMessage som2 = count_read t2 (m_debugMessage som1)"
    using s(2) by (auto simp: som_read_imu_def split: prod.splits)
  have "m_debugMessage som3 = m_debugMessage som2"
    using s(3) by (auto simp: som_control_def split: sum.splits)
  then show ?thesis using s(4) 1 2 by (auto simp: som_write_def count_fields split: prod.splits)
qed

lemma som_iteration_counters:
  assumes "som_iteration A M pad (som, w) = Inr (som', w')" "counters_from m0 (m_debugMessage som)"
  shows "counters_from m0 (m_debugMessage som')"
proof -
  obtain t1 t2 ok where d: "m_debugMessage som' =
    (count_write ok (count_read t2 (count_read t1 (m_debugMessage som))))
      \<lparr>mainLoopCounter := mainLoopCounter (m_debugMessage som) + 1\<rparr>"
    using som_iteration_debug[OF assms(1)] by blast
  show ?thesis using assms(2) unfolding counters_from_def d
    by (simp add: count_fields) (simp add: algebra_simps)
qed

subsection \<open>A stream in step\<close>

definition asio_prompt :: "'d asio \<Rightarrow> ('d \<Rightarrow> byte list) \<Rightarrow> ('d \<Rightarrow> bool) \<Rightarrow> bool" where
  \<comment> \<open>on ports of \<open>P\<close> a read is done in time when the bytes come at all, and so is every write\<close>
  "asio_prompt A rx P \<longleftrightarrow>
     (\<forall>n t d c bs d'. P d \<longrightarrow> asio_read A n t d = (c, bs, d') \<longrightarrow> n \<le> length (rx d) \<longrightarrow> c = Done n \<and> P d') \<and>
     (\<forall>bs t d c d'. P d \<longrightarrow> asio_write A bs t d = (c, d') \<longrightarrow> (\<exists>k. c = Done k) \<and> P d')"

lemma asio_promptD:
  assumes "asio_prompt A rx P" "P d"
  shows "asio_read A n t d = (c, bs, d') \<Longrightarrow> n \<le> length (rx d) \<Longrightarrow> c = Done n \<and> P d'"
    and "asio_write A xs t d = (c, d') \<Longrightarrow> (\<exists>k. c = Done k) \<and> P d'"
  using assms unfolding asio_prompt_def by blast+

definition in_step ::
  "('d \<Rightarrow> byte list) \<Rightarrow> ('d \<Rightarrow> bool) \<Rightarrow> 'd SerialController \<Rightarrow> byte list \<Rightarrow> byte list \<Rightarrow> bool" where
  \<comment> \<open>the stream is \<open>s\<close>, then \<open>rest\<close>, which is not shorter than what is left in the buffer\<close>
  "in_step rx P sc s rest \<longleftrightarrow> P (m_serialPort sc) \<and> stream rx sc = s @ rest
     \<and> length (m_streamBuffer sc) \<le> length rest"

lemma writePacket_prompt:
  assumes A: "asio_ok A rx tx" "asio_prompt A rx P" and s: "in_step rx P sc s rest"
  shows "\<exists>sc'. writePacket A enc sc p = (True, sc') \<and> in_step rx P sc' s rest
    \<and> tx (m_serialPort sc') = tx (m_serialPort sc) @ enc p"
proof -
  obtain c d where w: "asio_write A (enc p) (unat (c_writeTimeoutMs sc)) (m_serialPort sc) = (c, d)" by force
  obtain k where "c = Done k" "P d" using asio_promptD(2)[OF A(2) _ w] s by (auto simp: in_step_def)
  with w have e: "writePacket A enc sc p = (True, sc\<lparr>m_serialPort := d\<rparr>)" by (simp add: writePacket_def)
  show ?thesis using writePacket_cases(1,2)[OF A(1) e] e s \<open>P d\<close> by (auto simp: in_step_def)
qed

context codec
begin

lemma readPacket_prompt:
  assumes A: "asio_ok A rx tx" "asio_prompt A rx P" and s: "in_step rx P sc (enc p @ s) rest"
  shows "\<exists>sc' res. readPacket A size dec dflt sc = (res, sc') \<and> packet res = p \<and> \<not> didTimeout res
    \<and> in_step rx P sc' s rest \<and> tx (m_serialPort sc') = tx (m_serialPort sc)"
proof -
  obtain c bs d where r: "asio_read A size (unat (c_readTimeoutMs sc)) (m_serialPort sc) = (c, bs, d)"
    using prod_cases3 by blast
  have st: "m_streamBuffer sc @ rx (m_serialPort sc) = enc p @ s @ rest"
    and l: "length (m_streamBuffer sc) \<le> length rest" and P: "P (m_serialPort sc)"
    using s by (auto simp: in_step_def stream_def)
  from arg_cong[OF st, of length] l have "size \<le> length (rx (m_serialPort sc))" by (simp add: enc_length)
  with asio_promptD(1)[OF A(2) P r] have c: "c = Done size" "P d" by auto
  define sc' where "sc' = sc\<lparr>m_streamBuffer := drop size (m_streamBuffer sc @ bs), m_serialPort := d\<rparr>"
  define res where "res = \<lparr>packet = dec (take size (m_streamBuffer sc @ bs)), didTimeout = False, bytesRead = 0\<rparr>"
  have e: "readPacket A size dec dflt sc = (res, sc')"
    using r c by (simp add: readPacket_def res_def sc'_def)
  have nt: "\<not> didTimeout res" by (simp add: res_def)
  have "stream rx sc = enc p @ (s @ rest)" using st by (simp add: stream_def)
  from readPacket_enc[OF A(1) e this nt] have "packet res = p" "stream rx sc' = s @ rest" by auto
  moreover have "length bs = size" using asio_readD[OF A(1) r] c(1) by simp
  ultimately show ?thesis using e nt l c(2) readPacket_cases(1)[OF A(1) e]
    by (auto simp: in_step_def sc'_def)
qed

end

lemma som_iteration_reads:
  \<comment> \<open>what follows the two reads, whatever they gave\<close>
  assumes A: "asio_ok A rx tx" "asio_prompt A rx P"
    and 1: "som_read_rc A som = (r, som1)" and 2: "som_read_imu A som1 = (i, som2)"
    and s: "in_step rx P (m_serialController som2) s rest" and ready: "som_ready som" and i: "imu_sane i"
  shows "\<exists>som' w' c. som_iteration A M pad (som, w) = Inr (som', w') \<and> som_ready som'
    \<and> AutopilotManager_trigger (m_autopilotUtility som) (m_autopilotManager som) r i
        = Inr (m_autopilotManager som', c)
    \<and> m_autopilotUtility som' = m_autopilotUtility som
    \<and> in_step rx P (m_serialController som') s rest
    \<and> tx (m_serialPort (m_serialController som'))
        = tx (m_serialPort (m_serialController som2)) @ enc_ControlSurfacePacket c"
proof -
  note f = som_read_frame(1)[OF 1] som_read_frame(2)[OF 2]
  have ready2: "som_ready som2" using ready f by (simp add: som_ready_def)
  obtain c som3 where 3: "som_control som2 r i = Inr (c, som3)" "som_ready som3"
    using som_control_ready[OF ready2 i] by blast
  have c3: "AutopilotManager_trigger (m_autopilotUtility som) (m_autopilotManager som) r i
      = Inr (m_autopilotManager som3, c)" "m_autopilotUtility som3 = m_autopilotUtility som"
    "m_serialController som3 = m_serialController som2"
    using 3(1) f by (auto simp: som_control_def split: sum.splits)
  obtain sc4 where w: "writePacket A enc_ControlSurfacePacket (m_serialController som2) c = (True, sc4)"
    "in_step rx P sc4 s rest"
    "tx (m_serialPort sc4) = tx (m_serialPort (m_serialController som2)) @ enc_ControlSurfacePacket c"
    using writePacket_prompt[OF A s, of enc_ControlSurfacePacket c] by blast
  let ?som' = "som_write A som3 c i"
  have sc': "m_serialController ?som' = sc4" using w c3(3) by (simp add: som_write_def)
  obtain w' where t: "sendTelemetry M pad ?som' w = Inr w'"
    using sendTelemetry_defined[of ?som' M pad w] 3(2) by (auto simp: som_ready_def)
  have "som_ready ?som'" using 3(2) by (simp add: som_ready_def)
  with som_iteration_steps[OF 1 2 3(1) t] show ?thesis
    using c3(1,2) w(2,3)
    by (intro exI[of _ ?som'] exI[of _ w'] exI[of _ c]) (simp only: som_write_frame sc' simp_thms)
qed

lemma som_iteration_in_step:
  assumes A: "asio_ok A rx tx" "asio_prompt A rx P"
    and s: "in_step rx P (m_serialController som) (enc_RcRxPacket r @ enc_ImuPacket i @ s) rest"
    and ready: "som_ready som" and i: "imu_sane i"
  shows "\<exists>som' w' c. som_iteration A M pad (som, w) = Inr (som', w') \<and> som_ready som'
    \<and> AutopilotManager_trigger (m_autopilotUtility som) (m_autopilotManager som) r i
        = Inr (m_autopilotManager som', c)
    \<and> m_autopilotUtility som' = m_autopilotUtility som
    \<and> in_step rx P (m_serialController som') s rest
    \<and> tx (m_serialPort (m_serialController som'))
        = tx (m_serialPort (m_serialController som)) @ enc_ControlSurfacePacket c"
proof -
  obtain sc1 res1 where r1: "readPacket A 9 dec_RcRxPacket default_RcRxPacket (m_serialController som)
      = (res1, sc1)" "packet res1 = r" "in_step rx P sc1 (enc_ImuPacket i @ s) rest"
      "tx (m_serialPort sc1) = tx (m_serialPort (m_serialController som))"
    using rcrx.readPacket_prompt[OF A s] by blast
  obtain sc2 res2 where r2: "readPacket A 28 dec_ImuPacket default_ImuPacket sc1 = (res2, sc2)"
      "packet res2 = i" "in_step rx P sc2 s rest" "tx (m_serialPort sc2) = tx (m_serialPort sc1)"
    using imu.readPacket_prompt[OF A r1(3)] by blast
  obtain som1 where 1: "som_read_rc A som = (r, som1)" "m_serialController som1 = sc1"
    using r1 by (simp add: som_read_rc_def)
  obtain som2 where 2: "som_read_imu A som1 = (i, som2)" "m_serialController som2 = sc2"
    using r2 1(2) by (simp add: som_read_imu_def)
  have "in_step rx P (m_serialController som2) s rest" using r2(3) 2(2) by simp
  from som_iteration_reads[OF A 1(1) 2(1) this ready i, of M pad w] show ?thesis
    unfolding 2(2) r2(4) r1(4) .
qed

definition packets_bytes :: "(RcRxPacket \<times> ImuPacket) list \<Rightarrow> byte list" where
  "packets_bytes ps = concat (map (\<lambda>(r, i). enc_RcRxPacket r @ enc_ImuPacket i) ps)"

lemma som_iterations_in_step:
  assumes A: "asio_ok A rx tx" "asio_prompt A rx P"
    and "in_step rx P (m_serialController som) (packets_bytes ps) rest"
    and "som_ready som" and "\<forall>(r, i) \<in> set ps. imu_sane i"
  shows "\<exists>som' w' cs. repeat_res (length ps) (som_iteration A M pad) (som, w) = Inr (som', w')
    \<and> som_ready som'
    \<and> run_triggers (\<lambda>m c r i. AutopilotManager_trigger (m_autopilotUtility som) m r i)
        (m_autopilotManager som) ps = Inr (m_autopilotManager som', cs)
    \<and> in_step rx P (m_serialController som') [] rest
    \<and> tx (m_serialPort (m_serialController som'))
        = tx (m_serialPort (m_serialController som)) @ concat (map enc_ControlSurfacePacket cs)"
  using assms(3-5)
proof (induction ps arbitrary: som w)
  case Nil
  then show ?case by (simp add: packets_bytes_def)
next
  case (Cons p ps)
  obtain r i where p: "p = (r, i)" by force
  have "in_step rx P (m_serialController som) (enc_RcRxPacket r @ enc_ImuPacket i @ packets_bytes ps) rest"
    "imu_sane i" using Cons.prems p by (auto simp: packets_bytes_def)
  from som_iteration_in_step[OF A this(1) Cons.prems(2) this(2), of M pad w] obtain som1 w1 c where
    1: "som_iteration A M pad (som, w) = Inr (som1, w1)" "som_ready som1"
      "AutopilotManager_trigger (m_autopilotUtility som) (m_autopilotManager som) r i
        = Inr (m_autopilotManager som1, c)"
      "m_autopilotUtility som1 = m_autopilotUtility som"
      "in_step rx P (m_serialController som1) (packets_bytes ps) rest"
      "tx (m_serialPort (m_serialController som1))
        = tx (m_serialPort (m_serialController som)) @ enc_ControlSurfacePacket c" by blast
  from Cons.IH[OF 1(5,2), of w1] Cons.prems(3) 1 p show ?case by auto
qed

subsection \<open>The handshake\<close>

lemma readHandshake_cases:
  assumes A: "asio_ok A rx tx"
    and r: "readPacket A 1 dec_HandshakePacket default_HandshakePacket sc = (res, sc')"
  shows "didTimeout res \<Longrightarrow> stream rx sc' = stream rx sc"
    "\<not> didTimeout res \<Longrightarrow> stream rx sc = handshake (packet res) # stream rx sc'"
    "tx (m_serialPort sc') = tx (m_serialPort sc)"
proof -
  note f = readPacket_cases[OF A r]
  show "didTimeout res \<Longrightarrow> stream rx sc' = stream rx sc" using f(2) by blast
  show "tx (m_serialPort sc') = tx (m_serialPort sc)" by (rule f(1))
  assume n: "\<not> didTimeout res"
  then obtain b bs where "stream rx sc = b # bs" using f(3) by (cases "stream rx sc") auto
  then show "stream rx sc = handshake (packet res) # stream rx sc'"
    using f(3)[OF n] by (simp add: dec_HandshakePacket_def byte_at_def)
qed

lemma handshake_attempts_stream:
  assumes A: "asio_ok A rx tx" and h: "handshake_attempts A n som = (ok, som')"
  shows "\<exists>junk. stream rx (m_serialController som)
        = junk @ (if ok then [1] else []) @ stream rx (m_serialController som')
      \<and> 1 \<notin> set junk \<and> length junk + (if ok then 1 else 0) \<le> n
      \<and> tx (m_serialPort (m_serialController som')) = tx (m_serialPort (m_serialController som))"
  using h
proof (induction n arbitrary: som)
  case 0
  then show ?case by (auto intro: exI[of _ "[]"])
next
  case (Suc n)
  obtain res sc where r: "readPacket A 1 dec_HandshakePacket default_HandshakePacket
      (m_serialController som) = (res, sc)" by force
  note f = readHandshake_cases[OF A r]
  show ?case
  proof (cases "didTimeout res")
    case True
    from Suc.prems r True Suc.IH[of "som\<lparr>m_serialController := sc,
        m_debugMessage := count_read True (m_debugMessage som)\<rparr>"]
    obtain junk where "stream rx sc = junk @ (if ok then [1] else []) @ stream rx (m_serialController som')"
      "1 \<notin> set junk" "length junk + (if ok then 1 else 0) \<le> n"
      "tx (m_serialPort (m_serialController som')) = tx (m_serialPort sc)" by auto
    with f(1,3) True show ?thesis by (intro exI[of _ junk]) auto
  next
    case False
    note st = f(2)[OF False]
    show ?thesis
    proof (cases "handshake (packet res) = 1")
      case True
      then have "ok" "m_serialController som' = sc" using Suc.prems r False
        by (auto simp: eq_HandshakePacket_def kHandshakePacket_def)
      with st True f(3) show ?thesis by (intro exI[of _ "[]"]) auto
    next
      case other: False
      with Suc.prems r False Suc.IH[of "som\<lparr>m_serialController := sc\<rparr>"]
      obtain junk where "stream rx sc = junk @ (if ok then [1] else []) @ stream rx (m_serialController som')"
        "1 \<notin> set junk" "length junk + (if ok then 1 else 0) \<le> n"
        "tx (m_serialPort (m_serialController som')) = tx (m_serialPort sc)"
        by (auto simp: eq_HandshakePacket_def kHandshakePacket_def)
      with st other f(3) show ?thesis by (intro exI[of _ "handshake (packet res) # junk"]) auto
    qed
  qed
qed

lemma handshake_attempts_prompt:
  \<comment> \<open>junk before the answer costs one attempt a byte\<close>
  assumes A: "asio_ok A rx tx" "asio_prompt A rx P"
    and s: "in_step rx P (m_serialController som) (junk @ [1] @ s) rest"
    and j: "1 \<notin> set junk" "length junk < n"
  shows "\<exists>som'. handshake_attempts A n som = (True, som') \<and> in_step rx P (m_serialController som') s rest"
  using s j
proof (induction junk arbitrary: n som)
  case Nil
  obtain m where n: "n = Suc m" using Nil.prems(3) by (cases n) auto
  have "in_step rx P (m_serialController som) (enc_HandshakePacket kHandshakePacket @ s) rest"
    using Nil.prems(1) by (simp add: enc_HandshakePacket_def kHandshakePacket_def)
  from handshake.readPacket_prompt[OF A this, of default_HandshakePacket] obtain sc res where
    "readPacket A 1 dec_HandshakePacket default_HandshakePacket (m_serialController som) = (res, sc)"
    "packet res = kHandshakePacket" "\<not> didTimeout res" "in_step rx P sc s rest" by blast
  then show ?case by (simp add: n eq_HandshakePacket_iff)
next
  case (Cons b junk)
  obtain m where n: "n = Suc m" "length junk < m" using Cons.prems(3) by (cases n) auto
  have "in_step rx P (m_serialController som)
      (enc_HandshakePacket \<lparr>handshake = b\<rparr> @ (junk @ [1] @ s)) rest"
    using Cons.prems(1) by (simp add: enc_HandshakePacket_def)
  from handshake.readPacket_prompt[OF A this, of default_HandshakePacket] obtain sc res where r:
    "readPacket A 1 dec_HandshakePacket default_HandshakePacket (m_serialController som) = (res, sc)"
    "packet res = \<lparr>handshake = b\<rparr>" "\<not> didTimeout res" "in_step rx P sc (junk @ [1] @ s) rest" by blast
  have "in_step rx P (m_serialController (som\<lparr>m_serialController := sc\<rparr>)) (junk @ [1] @ s) rest" using r by simp
  from Cons.IH[OF this _ n(2)] Cons.prems(2) r show ?case
    by (auto simp: n(1) eq_HandshakePacket_iff kHandshakePacket_def)
qed

subsection \<open>An iteration without packets\<close>

lemma neutral_command:
  assumes "limits_ok u"
  shows "ManualAutopilot_trigger u default_ControlSurfacePacket default_RcRxPacket = default_ControlSurfacePacket"
proof -
  have st: "stick_ok 0" by (simp add: stick_ok_def)
  have z: "b = 0" if "sint b = scaled c (sint (0 :: i8))" for b :: i8 and c
  proof -
    have "b = word_of_int (sint b)" by simp
    then show ?thesis using that by (simp add: scaled_def)
  qed
  note d = bindRc_deflections[OF assms st, THEN z]
  have "bindRcThrottle u 0 = 0" by (simp add: bindRcThrottle_def bindToRange_def cdiv_def)
  then show ?thesis
    using d by (simp add: ManualAutopilot_trigger_def default_ControlSurfacePacket_def default_RcRxPacket_def)
qed

lemma trigger_lost:
  \<comment> \<open>on the default packets, which stand for those that did not come\<close>
  assumes "limits_ok u" "manager_inv m"
  shows "\<exists>m'. AutopilotManager_trigger u m default_RcRxPacket default_ImuPacket = Inr (m', default_ControlSurfacePacket)
    \<and> m_stabilizeAutopilot m' = m_stabilizeAutopilot m \<and> mode_ok m' \<and> isInManualMode m'"
proof -
  have md: "mode_ok m" using assms(2) by (simp add: manager_inv_def)
  have na: "\<not> assistance default_RcRxPacket" by (simp add: assistance_def default_RcRxPacket_def)
  have "spec_trigger u (m_stabilizeAutopilot m) default_RcRxPacket default_ImuPacket
      = Inr (m_stabilizeAutopilot m, default_ControlSurfacePacket)"
    using na neutral_command[OF assms(1)] by (simp add: spec_trigger_def)
  from AutopilotManager_trigger_spec(2)[OF md this] obtain m' where
    t: "AutopilotManager_trigger u m default_RcRxPacket default_ImuPacket = Inr (m', default_ControlSurfacePacket)"
      "m_stabilizeAutopilot m' = m_stabilizeAutopilot m" by blast
  then show ?thesis using AutopilotManager_trigger_mode[OF md t(1)] na by auto
qed

lemma lost_iteration:
  \<comment> \<open>both reads timed out; the controller in front of the write\<close>
  assumes A: "asio_ok A rx tx" and s: "som_ready som"
    and r1: "readPacket A 9 dec_RcRxPacket default_RcRxPacket (m_serialController som) = (r1, sc1)" "didTimeout r1"
    and r2: "readPacket A 28 dec_ImuPacket default_ImuPacket sc1 = (r2, sc2)" "didTimeout r2"
  shows "\<exists>som3 w'. som_iteration A M pad (som, w)
        = Inr (som_write A som3 default_ControlSurfacePacket default_ImuPacket, w')
    \<and> som_ready som3 \<and> m_serialController som3 = sc2 \<and> isInManualMode (m_autopilotManager som3)
    \<and> m_stabilizeAutopilot (m_autopilotManager som3) = m_stabilizeAutopilot (m_autopilotManager som)
    \<and> m_onboardMessage som3
        = onboard_message (m_onboardMessage som) default_RcRxPacket default_ControlSurfacePacket True 0
    \<and> m_debugMessage som3 = count_read True (count_read True (m_debugMessage som))"
proof -
  have p: "packet r1 = default_RcRxPacket" "packet r2 = default_ImuPacket"
    using readPacket_cases(2)[OF A r1] readPacket_cases(2)[OF A r2] by (simp_all add: default_ReadResult_def)
  define som1 where "som1 = som\<lparr>m_serialController := sc1, m_debugMessage := count_read True (m_debugMessage som)\<rparr>"
  define som2 where "som2 = som1\<lparr>m_serialController := sc2, m_debugMessage := count_read True (m_debugMessage som1)\<rparr>"
  have 1: "som_read_rc A som = (default_RcRxPacket, som1)" using r1 p by (simp add: som_read_rc_def som1_def)
  have 2: "som_read_imu A som1 = (default_ImuPacket, som2)" using r2 p by (simp add: som_read_imu_def som1_def som2_def)
  have "limits_ok (m_autopilotUtility som)" and inv: "manager_inv (m_autopilotManager som)"
    using s by (auto simp: som_ready_def)
  from trigger_lost[OF this] obtain m' where
    t: "AutopilotManager_trigger (m_autopilotUtility som) (m_autopilotManager som) default_RcRxPacket default_ImuPacket
        = Inr (m', default_ControlSurfacePacket)"
      "m_stabilizeAutopilot m' = m_stabilizeAutopilot (m_autopilotManager som)"
    and m': "mode_ok m'" "isInManualMode m'" by blast
  have temp: "fp_to_u8 (fp_of_bits32 (temperature default_ImuPacket)) = Inr 0" by code_simp
  define som3 where "som3 = som2\<lparr>m_autopilotManager := m', m_onboardMessage :=
      onboard_message (m_onboardMessage som) default_RcRxPacket default_ControlSurfacePacket True 0\<rparr>"
  have 3: "som_control som2 default_RcRxPacket default_ImuPacket = Inr (default_ControlSurfacePacket, som3)"
    using t m' temp by (simp add: som_control_def som1_def som2_def som3_def)
  have ready: "som_ready som3" using s t(2) m' inv
    by (simp add: som_ready_def som3_def som2_def som1_def manager_inv_def onboard_message_loggable)
  then obtain w' where "sendTelemetry M pad (som_write A som3 default_ControlSurfacePacket default_ImuPacket) w = Inr w'"
    using sendTelemetry_defined[of "som_write A som3 default_ControlSurfacePacket default_ImuPacket" M pad w]
    by (auto simp: som_ready_def)
  from som_iteration_steps[OF 1 2 3 this] ready t(2) m'(2) show ?thesis
    by (intro exI[of _ som3] exI[of _ w']) (simp add: som3_def som2_def som1_def)
qed

end
