(* ===== verification/Shipped.thy ===== *)
theory Shipped
  imports SomLoop
begin

section \<open>What the shipped configuration builds\<close>

text \<open>
  The objects the constructors build from \<^verbatim>\<open>configs/config.json\<close>, evaluated by the simplifier, and the
  state in which \<^verbatim>\<open>main\<close> enters the main loop. They show that the hypotheses of the lemmas on the
  controllers hold for the program as shipped.
\<close>

definition shipped_utility :: AutopilotUtility where
  "shipped_utility = \<lparr>c_maxThrottle = 255, c_maxAileronDeflection = 35, c_maxElevatorDeflection = 40,
     c_maxRudderDeflection = 20, m_configManager = shipped\<rparr>"

definition shipped_stabilize :: StabilizeAutopilot where
  "shipped_stabilize = \<lparr>c_maxAileronDeflection_d = Fin 35, c_kp = fp_of_rat binary64 (5 / 10),
     c_ki = fp_of_rat binary64 (5 / 100), c_kd = fp_of_rat binary64 (8 / 100),
     c_tau = fp_of_rat binary64 (5 / 100), c_maxIntegralError = Fin 4, m_timeStamp = Fin 0,
     m_prevRollError = Fin 0, m_prevPitchError = Fin 0, m_rollDerivativeError = Fin 0,
     m_rollIntegralError = Fin 0, m_pitchIntegralError = Fin 0, m_desiredRollAngle = Fin 0,
     m_desiredPitchAngle = Fin 0\<rparr>"

definition shipped_manager :: AutopilotManager where
  "shipped_manager = \<lparr>m_stabilizeAutopilot = shipped_stabilize, m_autopilot = ManualAutopilot, m_prevState = 0\<rparr>"

definition shipped_transmitter :: "'h TelemetryTransmitterMQ" where
  "shipped_transmitter = \<lparr>c_debugMessageQueueName = ''rcplane_mq_debug'',
     c_attitudeMessageQueueName = ''rcplane_mq_attitude'', c_onboardMessageQueueName = ''rcplane_mq_onboard'',
     c_messageQueueSize = 100, m_debugMessageQueue = None, m_attitudeMessageQueue = None,
     m_onboardMessageQueue = None\<rparr>"

definition shipped_receiver :: "'h TelemetryReceiverMQ" where
  "shipped_receiver = \<lparr>r_debugMessageQueueName = ''rcplane_mq_debug'',
     r_attitudeMessageQueueName = ''rcplane_mq_attitude'', r_onboardMessageQueueName = ''rcplane_mq_onboard'',
     r_messageQueueSize = 0, r_debugMessageQueue = None, r_attitudeMessageQueue = None,
     r_onboardMessageQueue = None\<rparr>"

definition shipped_serial :: "'d \<Rightarrow> 'd SerialController" where
  "shipped_serial port = \<lparr>c_ttyDev = ''/dev/ttyACM0'', c_baudRate = 115200, c_readTimeoutMs = 500,
     c_writeTimeoutMs = 500, c_handshakeTerminationStr = ''flush'' @ crlf, m_streamBuffer = [],
     m_serialPort = port\<rparr>"

lemma shipped_values:
  "getValue split_dots get_u8 shipped ''rcplane.autopilot.max_throttle'' = Inr 255"
  "getValue split_dots get_i8 shipped ''rcplane.autopilot.max_aileron_deflection'' = Inr 35"
  "getValue split_dots get_i8 shipped ''rcplane.autopilot.max_elevator_deflection'' = Inr 40"
  "getValue split_dots get_i8 shipped ''rcplane.autopilot.max_rudder_deflection'' = Inr 20"
  "getValue split_dots get_string shipped ''rcplane.io.telemetry.debug_mq_name'' = Inr ''rcplane_mq_debug''"
  "getValue split_dots get_string shipped ''rcplane.io.telemetry.attitude_mq_name'' = Inr ''rcplane_mq_attitude''"
  "getValue split_dots get_string shipped ''rcplane.io.telemetry.onboard_mq_name'' = Inr ''rcplane_mq_onboard''"
  "getValue split_dots get_u32 shipped ''rcplane.io.telemetry.mq_size'' = Inr 100"
  "getValue split_dots get_string shipped ''rcplane.io.serial_controller.tty_dev'' = Inr ''/dev/ttyACM0''"
  "getValue split_dots get_u32 shipped ''rcplane.io.serial_controller.baud_rate'' = Inr 115200"
  "getValue split_dots get_u32 shipped ''rcplane.io.serial_controller.read_timeout_ms'' = Inr 500"
  "getValue split_dots get_u32 shipped ''rcplane.io.serial_controller.write_timeout_ms'' = Inr 500"
  "getValue split_dots get_u32 shipped ''rcplane.som.som_controller.handshake_attempts'' = Inr 20"
  "getValue split_dots get_u32 shipped ''rcplane.som.som_controller.main_loop_delay_ms'' = Inr 4000"
  by code_simp+

lemma shipped_termination:
  "getValue split_dots get_string shipped ''rcplane.common.handshake_termination_string'' = Inr (''flush'' @ crlf)"
  by code_simp

lemma shipped_doubles:
  "getValue split_dots get_double shipped ''rcplane.autopilot.max_aileron_deflection'' = Inr (Fin 35)"
  "getValue split_dots get_double shipped ''rcplane.autopilot.stabilize.max_integral_error'' = Inr (Fin 4)"
  "getValue split_dots get_double shipped ''rcplane.autopilot.stabilize.kp'' = Inr (Fin (1 / 2))"
  "getValue split_dots get_double shipped ''rcplane.autopilot.stabilize.ki''
     = Inr (Fin (3602879701896397 / 72057594037927936))"
  "getValue split_dots get_double shipped ''rcplane.autopilot.stabilize.kd''
     = Inr (Fin (5764607523034235 / 72057594037927936))"
  "getValue split_dots get_double shipped ''rcplane.autopilot.stabilize.tau''
     = Inr (Fin (3602879701896397 / 72057594037927936))"
  by code_simp+

lemma shipped_AutopilotUtility: "new_AutopilotUtility split_dots shipped = Inr shipped_utility"
  by (simp add: new_AutopilotUtility_def shipped_utility_def shipped_values)

lemma shipped_StabilizeAutopilot: "new_StabilizeAutopilot split_dots shipped_utility = Inr shipped_stabilize"
  unfolding shipped_stabilize_def gain_values
  by (simp add: new_StabilizeAutopilot_def getConfigManager_def shipped_utility_def shipped_doubles)

lemma shipped_AutopilotManager: "new_AutopilotManager split_dots shipped_utility = Inr shipped_manager"
  by (simp add: new_AutopilotManager_def shipped_StabilizeAutopilot shipped_manager_def)

lemma shipped_TelemetryTransmitterMQ: "new_TelemetryTransmitterMQ split_dots shipped = Inr shipped_transmitter"
  by (simp add: new_TelemetryTransmitterMQ_def shipped_transmitter_def shipped_values)

lemma shipped_TelemetryReceiverMQ: "new_TelemetryReceiverMQ split_dots shipped = Inr shipped_receiver"
  by (simp add: new_TelemetryReceiverMQ_def shipped_receiver_def shipped_values)

lemma shipped_SerialController: "new_SerialController split_dots shipped port = Inr (shipped_serial port)"
  by (simp add: new_SerialController_def shipped_serial_def shipped_values shipped_termination)

lemma shipped_limits: "limits_ok shipped_utility"
  by (simp add: limits_ok_def shipped_utility_def)

lemma shipped_manager_inv: "manager_inv shipped_manager"
  by (simp add: manager_inv_def mode_ok_def stab_inv_def roll_inv_def pitch_inv_def shipped_gains_def
      shipped_manager_def shipped_stabilize_def fp_within_def gain_values)

subsection \<open>The controller\<close>

definition shipped_som :: "'d SerialController \<Rightarrow> 'h TelemetryTransmitterMQ \<Rightarrow> ('d, 'h) SomController" where
  "shipped_som sc tx = \<lparr>c_handshakeAttempts = 20, c_mainLoopDelay = 4000, som_configManager = shipped,
     m_serialController = sc, m_autopilotUtility = shipped_utility, m_autopilotManager = shipped_manager,
     m_debugMessage = default_DebugMessage, m_attitudeMessage = default_AttitudeMessage,
     m_onboardMessage = default_OnboardStateMessage, m_telemetryTransmitter = tx\<rparr>"

lemma init_transmitter_ready: "init_transmitter M tx w = (True, tx', w') \<Longrightarrow> telemetry_ready tx'"
  by (auto simp: init_transmitter_def telemetry_ready_def split: prod.splits option.splits)

lemma shipped_som_ready: "telemetry_ready tx \<Longrightarrow> som_ready (shipped_som sc tx)"
  by (simp add: som_ready_def shipped_som_def shipped_limits shipped_manager_inv loggable_def
      default_OnboardStateMessage_def)

lemma shipped_new_SomController:
  assumes "fs k_defaultConfigPath = Some txt" "parse txt = Some config_json"
    and "open_port A (shipped_serial port) = (True, sc)"
    and "init_transmitter M shipped_transmitter w = (True, tx, w')"
  shows "new_SomController split_dots fs parse A M [] port w = Inr (shipped_som sc tx, w')"
proof -
  have "som_loadConfig fs parse [] = Inr shipped"
    using assms(1,2) by (simp add: som_loadConfig_def loadConfig_def new_ConfigManager_def shipped_def)
  then show ?thesis using assms(3,4)
    by (simp add: new_SomController_def shipped_values shipped_SerialController som_open_def
        shipped_AutopilotUtility shipped_AutopilotManager shipped_TelemetryTransmitterMQ
        som_init_telemetry_def shipped_som_def)
qed

subsection \<open>Witnesses on the shipped configuration\<close>

definition demo_port :: tty where
  \<comment> \<open>an open port on which nothing has arrived\<close>
  "demo_port = \<lparr>tty_isopen = True, tty_batches = [], tty_rx = [], tty_tx = []\<rparr>"

definition demo_init :: "bool \<times> qid TelemetryTransmitterMQ \<times> shm" where
  "demo_init = init_transmitter shm_mq shipped_transmitter shm_empty"

definition demo_tx :: "qid TelemetryTransmitterMQ" where
  "demo_tx = shipped_transmitter\<lparr>m_debugMessageQueue := Some (1, 100, 20),
     m_attitudeMessageQueue := Some (2, 100, 32), m_onboardMessageQueue := Some (4, 100, 12)\<rparr>"

definition demo_shm :: shm where
  "demo_shm = snd (snd demo_init)"

lemma demo_init_eq: "init_transmitter shm_mq shipped_transmitter shm_empty = (True, demo_tx, demo_shm)"
  by (simp add: demo_shm_def demo_init_def init_transmitter_def shm_mq_def shipped_transmitter_def
      shm_empty_def shm_fresh_def shm_put_def demo_tx_def)

lemma demo_ready: "telemetry_ready demo_tx"
  by (rule init_transmitter_ready[OF demo_init_eq])

definition tty_here :: "tty \<Rightarrow> bool" where
  \<comment> \<open>an open port whose remaining bytes all arrive with the next operation\<close>
  "tty_here d \<longleftrightarrow> tty_isopen d \<and> length (tty_batches d) \<le> 1"

lemma tty_here_arrived: "tty_here d \<Longrightarrow> tty_arrived d = tty_incoming d"
  by (cases "tty_batches d") (auto simp: tty_here_def tty_arrived_def tty_incoming_def)

lemma tty_prompt: "asio_prompt tty_asio tty_incoming tty_here"
  unfolding asio_prompt_def
proof (intro conjI allI impI)
  fix n t d c bs d'
  assume "tty_here d" "asio_read tty_asio n t d = (c, bs, d')" "n \<le> length (tty_incoming d)"
  then show "c = Done n" "tty_here d'"
    using tty_here_arrived[of d] by (auto simp: tty_here_def tty_asio_def tty_take_def split: if_splits)
next
  fix bs t d c d'
  assume "tty_here d" "asio_write tty_asio bs t d = (c, d')"
  then show "\<exists>k. c = Done k" "tty_here d'" by (auto simp: tty_here_def tty_asio_def split: if_splits)
qed

definition demo_rc :: RcRxPacket where
  \<comment> \<open>assistance on, half throttle\<close>
  "demo_rc = default_RcRxPacket\<lparr>timestamp := 40, state := 0x80, motorStickPosition := 50\<rparr>"

definition demo_imu :: ImuPacket where
  \<comment> \<open>roll -15, pitch 10 degrees, 25 degrees Celsius\<close>
  "demo_imu = default_ImuPacket\<lparr>gyroX := 0xC1700000, gyroY := 0x41200000, temperature := 0x41C80000\<rparr>"

lemma demo_packets_ok: "sticks_ok demo_rc" "imu_sane demo_imu" "imu_sane default_ImuPacket"
  by (simp add: demo_rc_def sticks_ok_def stick_ok_def default_RcRxPacket_def) code_simp+

definition demo_som :: "byte list \<Rightarrow> (tty, qid) SomController" where
  \<comment> \<open>as shipped, with these bytes to come\<close>
  "demo_som bs = shipped_som (shipped_serial (demo_port\<lparr>tty_rx := bs\<rparr>)) demo_tx"

lemma demo_som_ready: "som_ready (demo_som bs)"
  unfolding demo_som_def by (rule shipped_som_ready[OF demo_ready])

lemma demo_in_step: "in_step tty_incoming tty_here (m_serialController (demo_som (s @ rest))) s rest"
  by (simp add: in_step_def demo_som_def shipped_som_def shipped_serial_def demo_port_def tty_here_def
      stream_def tty_incoming_def)

lemma demo_som_simps [simp]:
  "m_debugMessage (demo_som bs) = default_DebugMessage" "m_autopilotUtility (demo_som bs) = shipped_utility"
  "m_telemetryTransmitter (demo_som bs) = demo_tx" "m_onboardMessage (demo_som bs) = default_OnboardStateMessage"
  "tty_tx (m_serialPort (m_serialController (demo_som bs))) = []"
  by (simp_all add: demo_som_def shipped_som_def shipped_serial_def demo_port_def)

end
