(* ===== verification/Mcu.thy ===== *)
theory Mcu
  imports AutopilotUtility TelemetryMQ SerialController
begin

section \<open>The firmware of the MCU\<close>

text \<open>
  \<^verbatim>\<open>mcu/mcu.ino\<close> and the AVR part of \<^verbatim>\<open>common/Packet.hpp\<close>. What the hardware and the Arduino
  libraries deliver during one call of \<^verbatim>\<open>setup\<close> or \<^verbatim>\<open>loop\<close> is the record \<open>mcu_in\<close>: the pulse widths in
  microseconds, the milliseconds, the readings of the IMU, and the bytes \<^verbatim>\<open>Serial.readBytes\<close> got
  before its timeout. What the call does to the hardware is \<open>mcu_out\<close>. On the AVR a \<^verbatim>\<open>double\<close> is a
  \<open>binary32\<close>. The conversions of a stick position to \<^verbatim>\<open>uint8_t\<close> are undefined for a negative value; the
  lemmas say exactly for which pulses.
\<close>

subsection \<open>Pins and ranges\<close>

definition kMOTOR_IN :: u8 where "kMOTOR_IN = 5"
definition kAILERON_IN :: u8 where "kAILERON_IN = 2"
definition kELEVATOR_IN :: u8 where "kELEVATOR_IN = 3"
definition kRUDDER_IN :: u8 where "kRUDDER_IN = 4"
definition kASSISTANCE_IN :: u8 where "kASSISTANCE_IN = 6"
definition kAUTOPILOT_IN :: u8 where "kAUTOPILOT_IN = 7"
definition kELEVATOR_OUT :: u8 where "kELEVATOR_OUT = 8"

lemmas pin_defs = kMOTOR_IN_def kAILERON_IN_def kELEVATOR_IN_def kRUDDER_IN_def kASSISTANCE_IN_def
  kAUTOPILOT_IN_def kELEVATOR_OUT_def

definition PVM_MIN :: fp where "PVM_MIN = Fin 1000"
definition PVM_MAX :: fp where "PVM_MAX = Fin 2000"

definition toRange :: "fp \<Rightarrow> fp \<Rightarrow> fp \<Rightarrow> fp" where
  "toRange value MIN_OFFSET MAX_OFFSET =
     fp_add binary32
       (fp_mul binary32
         (fp_div binary32 (fp_sub binary32 value PVM_MIN) (fp_sub binary32 PVM_MAX PVM_MIN))
         (fp_sub binary32 MAX_OFFSET MIN_OFFSET))
       MIN_OFFSET"

definition has_user_input :: "i8 \<Rightarrow> bool" where
  "has_user_input value \<longleftrightarrow> sint value \<ge> 3 \<or> sint value \<le> - 3"

subsection \<open>State, input and output\<close>

record Mcu =
  mcu_handshakePacket :: HandshakePacket
  mcu_rcRxSPacket :: RcRxPacket
  mcu_csPacket :: ControlSurfacePacket
  mcu_imuPacket :: ImuPacket

definition new_Mcu :: Mcu where
  "new_Mcu = \<lparr>mcu_handshakePacket = default_HandshakePacket, mcu_rcRxSPacket = default_RcRxPacket,
     mcu_csPacket = default_ControlSurfacePacket, mcu_imuPacket = default_ImuPacket\<rparr>"

record mcu_in =
  in_pulse :: "u8 \<Rightarrow> u32"     \<comment> \<open>\<^verbatim>\<open>pulseIn(pin, HIGH)\<close>\<close>
  in_millis :: u32
  in_mpu :: ImuPacket            \<comment> \<open>the seven getters of \<^verbatim>\<open>MPU6050\<close>\<close>
  in_serial :: "byte list"

record mcu_out =
  out_serial :: "byte list"
  out_analog :: "(u8 \<times> int) list"

definition mcu_readPacket :: "('p \<Rightarrow> byte list) \<Rightarrow> (byte list \<Rightarrow> 'p) \<Rightarrow> byte list \<Rightarrow> 'p \<Rightarrow> nat \<times> 'p" where
  \<comment> \<open>\<^verbatim>\<open>Serial.readBytes\<close> into the packet: what did not arrive keeps its old bytes\<close>
  "mcu_readPacket enc dec input p =
     (min (length (enc p)) (length input), dec (overwrite (enc p) (take (length (enc p)) input)))"

definition mcu_writePacket :: "('p \<Rightarrow> byte list) \<Rightarrow> 'p \<Rightarrow> byte list" where
  \<comment> \<open>\<^verbatim>\<open>Serial.write\<close> of the packet: the bytes sent\<close>
  [simp]: "mcu_writePacket enc p = enc p"

definition println :: "string \<Rightarrow> byte list" where
  "println s = map of_char (s @ crlf)"

definition mcu_setup :: "mcu_in \<Rightarrow> Mcu \<Rightarrow> Mcu \<times> mcu_out" where
  "mcu_setup inp m =
     (case mcu_readPacket enc_HandshakePacket dec_HandshakePacket (in_serial inp) (mcu_handshakePacket m) of
        (_, h) \<Rightarrow> (m\<lparr>mcu_handshakePacket := h\<rparr>,
                   \<lparr>out_serial = println ''flush'' @ mcu_writePacket enc_HandshakePacket h, out_analog = []\<rparr>))"

definition stick_position :: "u32 \<Rightarrow> int \<Rightarrow> int \<Rightarrow> u8 res" where
  "stick_position pulse lo hi =
     fp_to_u8 (toRange (fp_of_int binary32 (uint pulse)) (fp_of_int binary32 lo) (fp_of_int binary32 hi))"

definition state_flags :: "u32 \<Rightarrow> i8 \<Rightarrow> i8 \<Rightarrow> u8" where
  "state_flags assistance aileron elevator =
     ((0 OR (if uint assistance > 1600 then kASSISTANCE_FLAG else 0))
        OR (if has_user_input aileron then kUSER_ROLL else 0))
        OR (if has_user_input elevator then kUSER_PITCH else 0)"

definition mcu_read_sticks :: "mcu_in \<Rightarrow> RcRxPacket res" where
  "mcu_read_sticks inp =
     res_bind (stick_position (in_pulse inp kMOTOR_IN) 0 100) (\<lambda>mo.
     res_bind (stick_position (in_pulse inp kAILERON_IN) (- 100) 100) (\<lambda>ai.
     res_bind (stick_position (in_pulse inp kELEVATOR_IN) (- 100) 100) (\<lambda>el.
     res_bind (stick_position (in_pulse inp kRUDDER_IN) (- 100) 100) (\<lambda>ru.
       Inr \<lparr>timestamp = in_millis inp, state = state_flags (in_pulse inp kASSISTANCE_IN) ai el,
            motorStickPosition = mo, aileronStickPosition = ai, elevatorStickPosition = el,
            rudderStickPosition = ru\<rparr>))))"

definition mcu_loop :: "mcu_in \<Rightarrow> Mcu \<Rightarrow> (Mcu \<times> mcu_out) res" where
  "mcu_loop inp m =
     res_bind (mcu_read_sticks inp) (\<lambda>r.
       (case mcu_readPacket enc_ControlSurfacePacket dec_ControlSurfacePacket (in_serial inp)
               (mcu_csPacket m) of
          (_, c) \<Rightarrow>
            Inr (m\<lparr>mcu_rcRxSPacket := r, mcu_imuPacket := in_mpu inp, mcu_csPacket := c\<rparr>,
                 \<lparr>out_serial = mcu_writePacket enc_RcRxPacket r @ mcu_writePacket enc_ImuPacket (in_mpu inp),
                  out_analog = [(kELEVATOR_OUT, sint (aileronDeflection c) + 115)]\<rparr>)))"

subsection \<open>The range mapping in rationals\<close>

definition to_range_rat :: "int \<Rightarrow> int \<Rightarrow> rat \<Rightarrow> rat" where
  "to_range_rat lo hi p =
     rnd binary32 (rnd binary32 (rnd binary32 (rnd binary32 (rnd binary32 p - 1000) / 1000)
       * of_int (hi - lo)) + of_int lo)"

lemma to_range_rat_mono: "lo \<le> hi \<Longrightarrow> p \<le> q \<Longrightarrow> to_range_rat lo hi p \<le> to_range_rat lo hi q"
  unfolding to_range_rat_def
  by (intro rnd_mono add_right_mono mult_right_mono divide_right_mono diff_right_mono) auto

lemma pow2_bound32:
  assumes "k \<le> 100"
  shows "representable binary32 (2 ^ k)" "(2 ^ k :: rat) < pow2 (emax binary32 + 1)"
proof -
  show "representable binary32 (2 ^ k)"
    unfolding representable_def by (intro exI[of _ 1] exI[of _ "int k"]) (simp add: pow2_of_nat binary32_def qmin_def)
  have "(2 ^ k :: rat) = pow2 (int k)" by (simp add: pow2_of_nat)
  then show "(2 ^ k :: rat) < pow2 (emax binary32 + 1)" using assms by (simp add: binary32_def)
qed

lemma round_fp32:
  assumes "\<bar>r\<bar> \<le> 2 ^ k" "k \<le> 100"
  shows "is_fin (round_fp binary32 s r)" "fp_val (round_fp binary32 s r) = rnd binary32 r"
    "\<bar>rnd binary32 r\<bar> \<le> 2 ^ k"
  using round_fp_val[OF assms(1) pow2_bound32[OF assms(2)]] rnd_abs_le[OF pow2_bound32(1)[OF assms(2)] assms(1)]
  by auto

lemma of_int_abs_le: "\<bar>n\<bar> \<le> 2 ^ k \<Longrightarrow> \<bar>of_int n :: rat\<bar> \<le> 2 ^ k"
proof -
  assume "\<bar>n\<bar> \<le> 2 ^ k"
  then have "(of_int \<bar>n\<bar> :: rat) \<le> of_int (2 ^ k)" by (simp only: of_int_le_iff)
  then show ?thesis by simp
qed

lemma fp32_of_small_int:
  assumes "\<bar>n\<bar> \<le> 1000"
  shows "is_fin (fp_of_int binary32 n)" "fp_val (fp_of_int binary32 n) = of_int n"
proof -
  have "representable binary32 (of_int n)"
    using assms by (intro representable_int) (auto simp: binary32_def qmin_def)
  moreover have "\<bar>of_int n :: rat\<bar> \<le> 2 ^ 10" using assms by (intro of_int_abs_le) simp
  ultimately show "is_fin (fp_of_int binary32 n)" "fp_val (fp_of_int binary32 n) = of_int n"
    using round_fp32[of "of_int n" 10] by (simp_all add: fp_of_int_def fp_of_rat_def rnd_representable)
qed

lemma toRange_val:
  assumes "0 \<le> p" "p < 2 ^ 32" "\<bar>lo\<bar> \<le> 100" "\<bar>hi\<bar> \<le> 100"
  shows "is_fin (toRange (fp_of_int binary32 p) (fp_of_int binary32 lo) (fp_of_int binary32 hi))"
    "fp_val (toRange (fp_of_int binary32 p) (fp_of_int binary32 lo) (fp_of_int binary32 hi))
      = to_range_rat lo hi (of_int p)"
proof -
  note b = pow2_bound32
  have P: "\<bar>of_int p :: rat\<bar> \<le> 2 ^ 32" using assms by (intro of_int_abs_le) simp
  let ?x0 = "fp_of_int binary32 p" and ?lo = "fp_of_int binary32 lo" and ?hi = "fp_of_int binary32 hi"
  have x0: "is_fin ?x0" "fp_val ?x0 = rnd binary32 (of_int p)" "\<bar>fp_val ?x0\<bar> \<le> 2 ^ 32"
    using round_fp32[OF P] by (simp_all add: fp_of_int_def fp_of_rat_def)
  have lo: "is_fin ?lo" "fp_val ?lo = of_int lo" and hi: "is_fin ?hi" "fp_val ?hi = of_int hi"
    using fp32_of_small_int assms by simp_all
  have "\<bar>fp_val ?x0 - 1000\<bar> \<le> 2 ^ 33" using x0(3) by simp
  then have x1: "is_fin (fp_sub binary32 ?x0 PVM_MIN)"
    "fp_val (fp_sub binary32 ?x0 PVM_MIN) = rnd binary32 (fp_val ?x0 - 1000)"
    "\<bar>rnd binary32 (fp_val ?x0 - 1000)\<bar> \<le> 2 ^ 33"
    using fp_sub_val[OF x0(1) _ _ b, of PVM_MIN 33] rnd_abs_le[OF b(1), of 33]
    by (auto simp: PVM_MIN_def)
  have c: "fp_sub binary32 PVM_MAX PVM_MIN = Fin 1000" by code_simp
  have "\<bar>rnd binary32 (fp_val ?x0 - 1000) / 1000\<bar> \<le> 2 ^ 33" using x1(3) by simp
  then have x2: "is_fin (fp_div binary32 (fp_sub binary32 ?x0 PVM_MIN) (Fin 1000))"
    "fp_val (fp_div binary32 (fp_sub binary32 ?x0 PVM_MIN) (Fin 1000))
       = rnd binary32 (rnd binary32 (fp_val ?x0 - 1000) / 1000)"
    "\<bar>rnd binary32 (rnd binary32 (fp_val ?x0 - 1000) / 1000)\<bar> \<le> 2 ^ 33"
    using fp_div_val[OF x1(1) _ _ _ b, of "Fin 1000" 33] rnd_abs_le[OF b(1), of 33] x1(2) by auto
  have d: "\<bar>hi - lo\<bar> \<le> 200" using assms by linarith
  have rd: "representable binary32 (of_int (hi - lo))"
    using d by (intro representable_int) (auto simp: binary32_def qmin_def)
  have d': "\<bar>of_int hi - of_int lo :: rat\<bar> \<le> 2 ^ 8" using d of_int_abs_le[of "hi - lo" 8] by simp
  then have w: "is_fin (fp_sub binary32 ?hi ?lo)" "fp_val (fp_sub binary32 ?hi ?lo) = of_int (hi - lo)"
    using fp_sub_val[OF hi(1) lo(1) _ b, of 8] rnd_representable[OF rd] hi lo by auto
  have "\<bar>rnd binary32 (rnd binary32 (fp_val ?x0 - 1000) / 1000) * of_int (hi - lo)\<bar> \<le> 2 ^ 33 * 2 ^ 8"
    unfolding abs_mult using x2(3) d' by (intro mult_mono) auto
  then have m: "\<bar>rnd binary32 (rnd binary32 (fp_val ?x0 - 1000) / 1000) * of_int (hi - lo)\<bar> \<le> 2 ^ 41" by simp
  let ?y = "fp_mul binary32 (fp_div binary32 (fp_sub binary32 ?x0 PVM_MIN) (Fin 1000)) (fp_sub binary32 ?hi ?lo)"
  have x3: "is_fin ?y"
    "fp_val ?y = rnd binary32 (rnd binary32 (rnd binary32 (fp_val ?x0 - 1000) / 1000) * of_int (hi - lo))"
    "\<bar>fp_val ?y\<bar> \<le> 2 ^ 41"
    using fp_mul_val[OF x2(1) w(1) _ b, of 41] rnd_abs_le[OF b(1) m] m x2(2) w(2) by auto
  have "\<bar>of_int lo :: rat\<bar> \<le> 2 ^ 8" using assms by (intro of_int_abs_le) simp
  then have "\<bar>fp_val ?y + fp_val ?lo\<bar> \<le> 2 ^ 42" using x3(3) lo(2) by simp
  from fp_add_val[OF x3(1) lo(1) this b]
  show "is_fin (toRange ?x0 ?lo ?hi)" "fp_val (toRange ?x0 ?lo ?hi) = to_range_rat lo hi (of_int p)"
    by (simp_all add: toRange_def c to_range_rat_def x0(2) x3(2) lo(2))
qed

lemma stick_position_eq:
  assumes "\<bar>lo\<bar> \<le> 100" "\<bar>hi\<bar> \<le> 100"
  shows "stick_position pulse lo hi =
    (let t = trunc_rat (to_range_rat lo hi (of_int (uint pulse))) in
     if 0 \<le> t \<and> t \<le> 255 then Inr (word_of_int t) else Inl (Undefined FloatConversion))"
proof -
  have "0 \<le> uint pulse" "uint pulse < 2 ^ 32" using uint_bounded[of pulse] by auto
  from toRange_val[OF this assms] show ?thesis
    by (simp add: stick_position_def fp_to_u8_def fp_to_int_def Let_def)
qed

subsection \<open>Which pulses give a stick position\<close>

lemma to_range_rat_at:
  "to_range_rat (- 100) 100 1495 \<le> - 1" "- 1 < to_range_rat (- 100) 100 1496"
  "to_range_rat (- 100) 100 2000 = 100" "to_range_rat (- 100) 100 2779 < 256"
  "256 \<le> to_range_rat (- 100) 100 2780"
  "to_range_rat 0 100 990 \<le> - 1" "- 1 < to_range_rat 0 100 991" "to_range_rat 0 100 2000 = 100"
  "to_range_rat 0 100 3559 < 256" "256 \<le> to_range_rat 0 100 3560"
  by code_simp+

lemma trunc_rat_nonneg_iff: "0 \<le> trunc_rat r \<longleftrightarrow> - 1 < r"
proof
  assume "0 \<le> trunc_rat r"
  show "- 1 < r"
  proof (rule ccontr)
    assume "\<not> - 1 < r"
    then have "trunc_rat r \<le> trunc_rat (of_int (- 1))" by (intro trunc_rat_mono) simp
    with \<open>0 \<le> trunc_rat r\<close> show False by (simp only: trunc_rat_of_int)
  qed
next
  assume "- 1 < r"
  then show "0 \<le> trunc_rat r" using trunc_rat_ge[of 0 r] by simp
qed

lemma trunc_rat_le_iff: "0 \<le> n \<Longrightarrow> trunc_rat r \<le> n \<longleftrightarrow> r < of_int n + 1"
proof
  assume n: "0 \<le> n" and t: "trunc_rat r \<le> n"
  show "r < of_int n + 1"
  proof (rule ccontr)
    assume "\<not> r < of_int n + 1"
    then have "trunc_rat (of_int (n + 1)) \<le> trunc_rat r" by (intro trunc_rat_mono) simp
    with t show False by (simp only: trunc_rat_of_int)
  qed
qed (rule trunc_rat_le)

lemma to_range_threshold:
  assumes "lo \<le> hi" and "to_range_rat lo hi (of_int a) \<le> k" "k < to_range_rat lo hi (of_int (a + 1))"
  shows "k < to_range_rat lo hi (of_int p) \<longleftrightarrow> a + 1 \<le> p"
proof (cases "a + 1 \<le> p")
  case True
  then have "(of_int (a + 1) :: rat) \<le> of_int p" by (simp only: of_int_le_iff)
  with True to_range_rat_mono[OF assms(1) this] assms(3) show ?thesis by linarith
next
  case False
  then have "(of_int p :: rat) \<le> of_int a" by (simp only: of_int_le_iff)
  with False to_range_rat_mono[OF assms(1) this] assms(2) show ?thesis by linarith
qed

lemma to_range_threshold':
  assumes "lo \<le> hi" and "to_range_rat lo hi (of_int a) < k" "k \<le> to_range_rat lo hi (of_int (a + 1))"
  shows "to_range_rat lo hi (of_int p) < k \<longleftrightarrow> p \<le> a"
proof (cases "p \<le> a")
  case True
  then have "(of_int p :: rat) \<le> of_int a" by (simp only: of_int_le_iff)
  with True to_range_rat_mono[OF assms(1) this] assms(2) show ?thesis by linarith
next
  case False
  then have "(of_int (a + 1) :: rat) \<le> of_int p" by (simp only: of_int_le_iff)
  with False to_range_rat_mono[OF assms(1) this] assms(3) show ?thesis by linarith
qed

lemma stick_thresholds:
  "0 \<le> trunc_rat (to_range_rat (- 100) 100 (of_int p)) \<longleftrightarrow> 1496 \<le> p"
  "trunc_rat (to_range_rat (- 100) 100 (of_int p)) \<le> 255 \<longleftrightarrow> p \<le> 2779"
  "0 \<le> trunc_rat (to_range_rat 0 100 (of_int p)) \<longleftrightarrow> 991 \<le> p"
  "trunc_rat (to_range_rat 0 100 (of_int p)) \<le> 255 \<longleftrightarrow> p \<le> 3559"
  using to_range_threshold[of "- 100" 100 1495 "- 1" p] to_range_threshold'[of "- 100" 100 2779 256 p]
    to_range_threshold[of 0 100 990 "- 1" p] to_range_threshold'[of 0 100 3559 256 p] to_range_rat_at
  by (simp_all add: trunc_rat_nonneg_iff trunc_rat_le_iff)

lemma surface_stick_defined:
  "(\<exists>v. stick_position pulse (- 100) 100 = Inr v) \<longleftrightarrow> 1496 \<le> uint pulse \<and> uint pulse \<le> 2779"
  using stick_thresholds[of "uint pulse"] by (auto simp: stick_position_eq Let_def)

lemma throttle_stick_defined:
  "(\<exists>v. stick_position pulse 0 100 = Inr v) \<longleftrightarrow> 991 \<le> uint pulse \<and> uint pulse \<le> 3559"
  using stick_thresholds[of "uint pulse"] by (auto simp: stick_position_eq Let_def)

lemma stick_position_le_100:
  assumes "stick_position pulse lo 100 = Inr v" "uint pulse \<le> 2000" "lo = 0 \<or> lo = - 100"
  shows "uint v \<le> 100" "0 \<le> sint v" "sint v \<le> 100"
proof -
  have "(of_int (uint pulse) :: rat) \<le> of_int 2000" using assms(2) by (simp only: of_int_le_iff)
  then have "to_range_rat lo 100 (of_int (uint pulse)) \<le> to_range_rat lo 100 2000"
    using assms(3) by (intro to_range_rat_mono) auto
  also have "\<dots> = of_int 100" using assms(3) to_range_rat_at by auto
  finally have "trunc_rat (to_range_rat lo 100 (of_int (uint pulse))) \<le> trunc_rat (of_int 100)"
    by (rule trunc_rat_mono)
  then have le: "trunc_rat (to_range_rat lo 100 (of_int (uint pulse))) \<le> 100"
    by (simp only: trunc_rat_of_int)
  obtain t where t: "v = word_of_int t" "0 \<le> t" "t \<le> 100"
    using assms(1,3) le by (auto simp: stick_position_eq Let_def split: if_splits)
  show "uint v \<le> 100" "0 \<le> sint v" "sint v \<le> 100"
    using uint_word_of_int8[of t] sint_word_of_int8[of t] t by (simp_all only: t(1))
qed

definition pulses_ok :: "mcu_in \<Rightarrow> bool" where
  \<comment> \<open>pulses of a transmitter within its nominal range, and no surface stick below its centre\<close>
  "pulses_ok inp \<longleftrightarrow> uint (in_pulse inp kMOTOR_IN) \<in> {1000..2000}
     \<and> uint (in_pulse inp kAILERON_IN) \<in> {1500..2000} \<and> uint (in_pulse inp kELEVATOR_IN) \<in> {1500..2000}
     \<and> uint (in_pulse inp kRUDDER_IN) \<in> {1500..2000}"

lemma mcu_read_sticks_defined:
  "(\<exists>r. mcu_read_sticks inp = Inr r) \<longleftrightarrow>
     uint (in_pulse inp kMOTOR_IN) \<in> {991..3559} \<and> uint (in_pulse inp kAILERON_IN) \<in> {1496..2779}
     \<and> uint (in_pulse inp kELEVATOR_IN) \<in> {1496..2779} \<and> uint (in_pulse inp kRUDDER_IN) \<in> {1496..2779}"
  unfolding atLeastAtMost_iff surface_stick_defined[symmetric] throttle_stick_defined[symmetric]
  by (auto simp: mcu_read_sticks_def res_simps)

lemma mcu_read_sticks_ok:
  assumes "pulses_ok inp"
  shows "\<exists>r. mcu_read_sticks inp = Inr r \<and> sticks_ok r \<and> timestamp r = in_millis inp"
proof -
  obtain r where r: "mcu_read_sticks inp = Inr r"
    using assms mcu_read_sticks_defined[of inp] by (auto simp: pulses_ok_def)
  from r obtain mo ai el ru where v:
    "stick_position (in_pulse inp kMOTOR_IN) 0 100 = Inr mo"
    "stick_position (in_pulse inp kAILERON_IN) (- 100) 100 = Inr ai"
    "stick_position (in_pulse inp kELEVATOR_IN) (- 100) 100 = Inr el"
    "stick_position (in_pulse inp kRUDDER_IN) (- 100) 100 = Inr ru"
    and e: "motorStickPosition r = mo" "aileronStickPosition r = ai" "elevatorStickPosition r = el"
      "rudderStickPosition r = ru" "timestamp r = in_millis inp"
    by (auto simp: mcu_read_sticks_def res_simps)
  note b = v[THEN stick_position_le_100(1)] v[THEN stick_position_le_100(2)] v[THEN stick_position_le_100(3)]
  show ?thesis using assms b r e by (auto simp: pulses_ok_def sticks_ok_def stick_ok_def)
qed

lemma mcu_readPacket_full:
  assumes "length (enc q) = length (enc p)" "dec (enc q) = q"
  shows "mcu_readPacket enc dec (enc q) p = (length (enc p), q)"
  using assms by (simp add: mcu_readPacket_def overwrite_all)

subsection \<open>Many calls of loop\<close>

fun mcu_loops :: "mcu_in list \<Rightarrow> byte list \<Rightarrow> Mcu \<Rightarrow> (Mcu \<times> mcu_out list \<times> byte list) res" where
  \<comment> \<open>\<open>in_serial\<close> is what arrives before the read of a call ends; what it leaves stays for the next one\<close>
  "mcu_loops [] rest m = Inr (m, [], rest)"
| "mcu_loops (inp # inps) rest m =
     res_bind (mcu_loop (inp\<lparr>in_serial := rest @ in_serial inp\<rparr>) m) (\<lambda>(m', out).
     res_bind (mcu_loops inps (drop 4 (rest @ in_serial inp)) m') (\<lambda>(m'', outs, rest').
       Inr (m'', out # outs, rest')))"

definition servo_bytes :: "byte list \<Rightarrow> u8 \<times> int" where
  \<comment> \<open>the servo when these four bytes are read: the second is the aileron deflection\<close>
  "servo_bytes bs = (kELEVATOR_OUT, sint (byte_at 1 bs) + 115)"

lemma mcu_loop_reads:
  assumes "pulses_ok inp" "4 \<le> length bs"
  shows "\<exists>m' out. mcu_loop (inp\<lparr>in_serial := bs\<rparr>) m = Inr (m', out)
    \<and> mcu_csPacket m' = dec_ControlSurfacePacket (take 4 bs) \<and> out_analog out = [servo_bytes (take 4 bs)]"
proof -
  have "pulses_ok (inp\<lparr>in_serial := bs\<rparr>)" using assms(1) by (simp add: pulses_ok_def)
  then obtain r where "mcu_read_sticks (inp\<lparr>in_serial := bs\<rparr>) = Inr r" using mcu_read_sticks_ok by blast
  moreover have "mcu_readPacket enc_ControlSurfacePacket dec_ControlSurfacePacket bs (mcu_csPacket m)
      = (4, dec_ControlSurfacePacket (take 4 bs))"
    using assms(2) control.enc_length by (simp add: mcu_readPacket_def overwrite_all)
  ultimately show ?thesis
    by (simp add: mcu_loop_def servo_bytes_def dec_ControlSurfacePacket_def)
qed

lemma mcu_loops_shifted:
  \<comment> \<open>once \<open>j\<close> bytes of a command were read on their own, each call reads the end of one command and the start of the next\<close>
  assumes "j \<le> 4" "\<forall>(inp, c) \<in> set ics. pulses_ok inp \<and> in_serial inp = enc_ControlSurfacePacket c"
  shows "\<exists>m' outs. mcu_loops (map fst ics) (drop j (enc_ControlSurfacePacket c0)) m
      = Inr (m', outs, drop j (enc_ControlSurfacePacket (last (c0 # map snd ics))))
    \<and> map out_analog outs = map (\<lambda>(c, c'). [servo_bytes (drop j (enc_ControlSurfacePacket c)
        @ take j (enc_ControlSurfacePacket c'))]) (zip (c0 # map snd ics) (map snd ics))"
  using assms(2)
proof (induction ics arbitrary: c0 m)
  case (Cons ic ics)
  obtain inp c where ic: "ic = (inp, c)" by force
  let ?bs = "drop j (enc_ControlSurfacePacket c0) @ enc_ControlSurfacePacket c"
  have t: "take 4 ?bs = drop j (enc_ControlSurfacePacket c0) @ take j (enc_ControlSurfacePacket c)"
    "drop 4 ?bs = drop j (enc_ControlSurfacePacket c)"
    using assms(1) control.enc_length by simp_all
  obtain m1 out where 1: "mcu_loop (inp\<lparr>in_serial := ?bs\<rparr>) m = Inr (m1, out)"
    "out_analog out = [servo_bytes (take 4 ?bs)]"
    using mcu_loop_reads[of inp ?bs m] Cons.prems ic control.enc_length by auto
  from Cons.IH[of c m1] Cons.prems obtain m' outs where 2:
    "mcu_loops (map fst ics) (drop j (enc_ControlSurfacePacket c)) m1
      = Inr (m', outs, drop j (enc_ControlSurfacePacket (last (c # map snd ics))))"
    "map out_analog outs = map (\<lambda>(c, c'). [servo_bytes (drop j (enc_ControlSurfacePacket c)
        @ take j (enc_ControlSurfacePacket c'))]) (zip (c # map snd ics) (map snd ics))" by auto
  have "mcu_loops (map fst (ic # ics)) (drop j (enc_ControlSurfacePacket c0)) m
      = Inr (m', out # outs, drop j (enc_ControlSurfacePacket (last (c0 # map snd (ic # ics)))))"
    using Cons.prems 1(1) 2(1) t(2) by (simp add: ic)
  then show ?case using 1(2) 2(2) t(1) by (auto simp: ic)
qed simp

subsection \<open>Properties\<close>

text \<open>
  C36 One reading of the transmitter is free of undefined conversions exactly when the throttle pulse is between
  991 and 3559 microseconds and each surface pulse between 1496 and 2779: a surface stick left of its
  centre (1000 to 1495) is a negative number converted to \<^verbatim>\<open>uint8_t\<close>, and a missing pulse (0) is for every channel.
\<close>
theorem mcu_sticks_defined:
  "(\<exists>m' out. mcu_loop inp m = Inr (m', out)) \<longleftrightarrow>
     uint (in_pulse inp kMOTOR_IN) \<in> {991..3559} \<and> uint (in_pulse inp kAILERON_IN) \<in> {1496..2779}
     \<and> uint (in_pulse inp kELEVATOR_IN) \<in> {1496..2779} \<and> uint (in_pulse inp kRUDDER_IN) \<in> {1496..2779}"
  unfolding mcu_read_sticks_defined[symmetric]
  by (cases "mcu_read_sticks inp") (auto simp: mcu_loop_def mcu_readPacket_def)

text \<open>
  One call of \<^verbatim>\<open>loop\<close> on nominal pulses sends one RC packet with sticks within their range and the received
  time, then one IMU packet, 37 bytes in all; it sets the servo to the aileron deflection it received
  plus 115; and a command of which only a part arrived before the timeout changes only the bytes
  that arrived.
\<close>
lemma mcu_loop_behaviour:
  assumes "pulses_ok inp"
  shows "\<exists>r m' out. mcu_loop inp m = Inr (m', out) \<and> sticks_ok r \<and> timestamp r = in_millis inp
    \<and> out_serial out = enc_RcRxPacket r @ enc_ImuPacket (in_mpu inp) \<and> length (out_serial out) = 37
    \<and> out_analog out = [(kELEVATOR_OUT, sint (aileronDeflection (mcu_csPacket m')) + 115)]
    \<and> (\<forall>c. in_serial inp = enc_ControlSurfacePacket c \<longrightarrow> mcu_csPacket m' = c)
    \<and> (in_serial inp = [] \<longrightarrow> mcu_csPacket m' = mcu_csPacket m)
    \<and> (\<forall>a. in_serial inp = [a] \<longrightarrow> mcu_csPacket m' = (mcu_csPacket m)\<lparr>motorSpeed := a\<rparr>)"
proof -
  obtain r where r: "mcu_read_sticks inp = Inr r" "sticks_ok r" "timestamp r = in_millis inp"
    using mcu_read_sticks_ok[OF assms] by blast
  define c where "c = snd (mcu_readPacket enc_ControlSurfacePacket dec_ControlSurfacePacket
      (in_serial inp) (mcu_csPacket m))"
  have l: "mcu_loop inp m = Inr (m\<lparr>mcu_rcRxSPacket := r, mcu_imuPacket := in_mpu inp, mcu_csPacket := c\<rparr>,
      \<lparr>out_serial = enc_RcRxPacket r @ enc_ImuPacket (in_mpu inp),
       out_analog = [(kELEVATOR_OUT, sint (aileronDeflection c) + 115)]\<rparr>)"
    by (simp add: mcu_loop_def r c_def split: prod.split)
  have full: "c = c'" if "in_serial inp = enc_ControlSurfacePacket c'" for c'
    using mcu_readPacket_full[of enc_ControlSurfacePacket c' "mcu_csPacket m" dec_ControlSurfacePacket]
      control.enc_length control.dec_enc that by (simp add: c_def)
  have none: "c = mcu_csPacket m" if "in_serial inp = []"
    using that control.dec_enc by (simp add: c_def mcu_readPacket_def overwrite_def)
  have one: "c = (mcu_csPacket m)\<lparr>motorSpeed := a\<rparr>" if "in_serial inp = [a]" for a
    using that by (simp add: c_def mcu_readPacket_def overwrite_def enc_ControlSurfacePacket_def
        dec_ControlSurfacePacket_def byte_at_def)
  show ?thesis using l r full none one rcrx.enc_length imu.enc_length
    by (intro exI[of _ r] exI conjI) auto
qed

lemma mcu_loop_behaviour_witness:
  "\<exists>r m' out. mcu_loop \<lparr>in_pulse = (\<lambda>_. 1600), in_millis = 7, in_mpu = default_ImuPacket, in_serial = []\<rparr> new_Mcu
      = Inr (m', out) \<and> sticks_ok r \<and> timestamp r = 7 \<and> length (out_serial out) = 37
    \<and> out_serial out = enc_RcRxPacket r @ enc_ImuPacket default_ImuPacket"
  using mcu_loop_behaviour[of "\<lparr>in_pulse = (\<lambda>_. 1600), in_millis = 7, in_mpu = default_ImuPacket, in_serial = []\<rparr>"
      new_Mcu] by (fastforce simp: pulses_ok_def)

text \<open>
  \<^verbatim>\<open>setup\<close> announces itself with the termination string of the shipped configuration and echoes the handshake byte it
  is sent; when nothing is sent before the timeout of \<^verbatim>\<open>readBytes\<close> it does not wait for it, as its
  comment says, but answers 0 and goes on to the loop.
\<close>
lemma mcu_setup_echo:
  "out_serial (snd (mcu_setup inp new_Mcu)) = string_bytes (''flush'' @ crlf)
     @ [case in_serial inp of [] \<Rightarrow> 0 | b # _ \<Rightarrow> b]
   \<and> out_analog (snd (mcu_setup inp new_Mcu)) = []"
  by (cases "in_serial inp") (auto simp: mcu_setup_def mcu_readPacket_def overwrite_def new_Mcu_def
      default_HandshakePacket_def enc_HandshakePacket_def dec_HandshakePacket_def byte_at_def
      println_def string_bytes_def)

text \<open>
  C26 A command of which only a part, \<open>j\<close> of its four bytes, arrived before the read of \<^verbatim>\<open>loop\<close> ended puts the firmware
  out of step for good: although the rest and every later command come in time, from the next call
  on the servo follows the elevator (\<open>j = 1\<close>) or rudder (\<open>j = 2\<close>) deflection of the previous
  command or the motor speed (\<open>j = 3\<close>) of the current one, for any number of calls.
\<close>
theorem split_command:
  assumes "0 < j" "j < 4" "pulses_ok inp0" "in_serial inp0 = take j (enc_ControlSurfacePacket c0)"
    and "pulses_ok inp1" "in_serial inp1 = drop j (enc_ControlSurfacePacket c0) @ enc_ControlSurfacePacket c1"
    and "\<forall>(inp, c) \<in> set ics. pulses_ok inp \<and> in_serial inp = enc_ControlSurfacePacket c"
    and "cs = c0 # c1 # map snd ics"
  shows "\<exists>m' out0 outs. mcu_loops (inp0 # inp1 # map fst ics) [] m
      = Inr (m', out0 # outs, drop j (enc_ControlSurfacePacket (last cs)))
    \<and> map out_analog outs = map (\<lambda>(c, c'). [(kELEVATOR_OUT, sint (if j = 1 then elevatorDeflection c
          else if j = 2 then rudderDeflection c else motorSpeed c') + 115)]) (zip cs (tl cs))"
proof -
  let ?e = enc_ControlSurfacePacket
  have "pulses_ok (inp0\<lparr>in_serial := take j (?e c0)\<rparr>)" using assms(3) by (simp add: pulses_ok_def)
  then obtain r where "mcu_read_sticks (inp0\<lparr>in_serial := take j (?e c0)\<rparr>) = Inr r" using mcu_read_sticks_ok by blast
  then obtain m0 out0 where 0: "mcu_loop (inp0\<lparr>in_serial := take j (?e c0)\<rparr>) m = Inr (m0, out0)"
    by (auto simp: mcu_loop_def case_prod_beta)
  let ?ics = "(inp1\<lparr>in_serial := ?e c1\<rparr>, c1) # ics"
  have "\<forall>(inp, c) \<in> set ?ics. pulses_ok inp \<and> in_serial inp = ?e c"
    using assms(5,7) by (auto simp: pulses_ok_def)
  from mcu_loops_shifted[OF less_imp_le[OF assms(2)] this, of c0 m0] obtain m' outs where
    1: "mcu_loops (map fst ?ics) (drop j (?e c0)) m0 = Inr (m', outs, drop j (?e (last cs)))"
      "map out_analog outs = map (\<lambda>(c, c'). [servo_bytes (drop j (?e c) @ take j (?e c'))]) (zip cs (tl cs))"
    by (auto simp: assms(8))
  have "mcu_loops (map fst ?ics) (drop j (?e c0)) m0 = mcu_loops (inp1 # map fst ics) [] m0"
    by (simp add: assms(6) cong: sum.case_cong prod.case_cong)
  then have "mcu_loops (inp0 # inp1 # map fst ics) [] m = Inr (m', out0 # outs, drop j (?e (last cs)))"
    using 0 1(1) assms(2,4) control.enc_length[of c0] by simp
  moreover have "servo_bytes (drop j (?e c) @ take j (?e c')) = (kELEVATOR_OUT, sint (if j = 1 then elevatorDeflection c
      else if j = 2 then rudderDeflection c else motorSpeed c') + 115)" for c c'
  proof -
    have "j = 1 \<or> j = 2 \<or> j = 3" using assms(1,2) by auto
    then show ?thesis
      by (elim disjE) (simp_all add: servo_bytes_def byte_at_def enc_ControlSurfacePacket_def)
  qed
  ultimately show ?thesis using 1(2) by simp
qed

theorem split_command_witness:
  "\<exists>m' out0 out1 rest. mcu_loops
      [\<lparr>in_pulse = (\<lambda>_. 1600), in_millis = 7, in_mpu = default_ImuPacket, in_serial = [100, 5]\<rparr>,
       \<lparr>in_pulse = (\<lambda>_. 1600), in_millis = 207, in_mpu = default_ImuPacket, in_serial = [6, 20, 100, 5, 6, 7]\<rparr>] [] new_Mcu
    = Inr (m', [out0, out1], rest) \<and> out_analog out1 = [(kELEVATOR_OUT, 20 + 115)]"
proof -
  let ?i = "\<lambda>bs. \<lparr>in_pulse = (\<lambda>_. 1600), in_millis = 7, in_mpu = default_ImuPacket, in_serial = bs\<rparr> :: mcu_in"
  let ?j = "\<lparr>in_pulse = (\<lambda>_. 1600), in_millis = 207, in_mpu = default_ImuPacket, in_serial = [6, 20, 100, 5, 6, 7]\<rparr> :: mcu_in"
  let ?c = "\<lparr>motorSpeed = 100, aileronDeflection = 5, elevatorDeflection = 6, rudderDeflection = 20\<rparr>"
    and ?d = "\<lparr>motorSpeed = 100, aileronDeflection = 5, elevatorDeflection = 6, rudderDeflection = 7\<rparr>"
  have "pulses_ok (?i [100, 5])" "in_serial (?i [100, 5]) = take 2 (enc_ControlSurfacePacket ?c)"
    "pulses_ok ?j" "in_serial ?j = drop 2 (enc_ControlSurfacePacket ?c) @ enc_ControlSurfacePacket ?d"
    by (simp_all add: pulses_ok_def enc_ControlSurfacePacket_def)
  from split_command[of 2, OF _ _ this, of "[]", OF _ _ _ refl, of new_Mcu] show ?thesis
    by (fastforce simp: map_eq_Cons_conv)
qed

end
