(* ===== verification/IoService.thy ===== *)
theory IoService
  imports Prelude
begin

section \<open>The io_service thread of SomController\<close>

text \<open>
  How \<^verbatim>\<open>m_ioService\<close>, the work guard \<^verbatim>\<open>m_worker\<close>, the signal wait started in the constructor, the
  thread of \<^verbatim>\<open>startIoThread\<close> and the serial operations interact, as a step relation between the
  threads' atomic actions. From \<^verbatim>\<open>boost::asio\<close> it takes what is documented: \<^verbatim>\<open>run()\<close> executes
  handlers and returns, with the service stopped, exactly when no work is outstanding; a work guard,
  a pending signal wait and a pending operation are outstanding work; handlers only run inside
  \<^verbatim>\<open>run()\<close>. The invariants say when the main loop can end and when \<^verbatim>\<open>stopIoThread\<close> can return.
\<close>

datatype io_thread = NotStarted | Running | Finished

record io_state =
  work_guard :: bool
  signal_wait :: bool     \<comment> \<open>the \<^verbatim>\<open>async_wait\<close> on \<^verbatim>\<open>SIGINT\<close> is pending\<close>
  pending_ops :: nat
  thread :: io_thread
  is_stopped :: bool
  signals :: nat          \<comment> \<open>how many signals were handled\<close>

definition io_constructed :: io_state where
  \<comment> \<open>after the constructor\<close>
  "io_constructed = \<lparr>work_guard = True, signal_wait = True, pending_ops = 0, thread = NotStarted,
     is_stopped = False, signals = 0\<rparr>"

datatype io_event = StartIoThread | Signal | BeginOp | EndOp | ResetWorker | RunReturns

fun io_enabled :: "io_event \<Rightarrow> io_state \<Rightarrow> bool" where
  "io_enabled StartIoThread s = (thread s = NotStarted)"
| "io_enabled Signal s = (thread s = Running \<and> signal_wait s)"
| "io_enabled BeginOp s = True"
| "io_enabled EndOp s = (thread s = Running \<and> 0 < pending_ops s)"
| "io_enabled ResetWorker s = True"
| "io_enabled RunReturns s =
     (thread s = Running \<and> \<not> work_guard s \<and> \<not> signal_wait s \<and> pending_ops s = 0)"

inductive io_step :: "io_state \<Rightarrow> io_event \<Rightarrow> io_state \<Rightarrow> bool" where
  StartIoThread: "io_enabled StartIoThread s \<Longrightarrow> io_step s StartIoThread (s\<lparr>thread := Running\<rparr>)"
    \<comment> \<open>\<^verbatim>\<open>startIoThread\<close>\<close>
| Signal: "io_enabled Signal s \<Longrightarrow>
    io_step s Signal (s\<lparr>signal_wait := False, work_guard := False, signals := signals s + 1\<rparr>)"
    \<comment> \<open>the handler of the constructor: \<^verbatim>\<open>m_worker.reset()\<close>\<close>
| BeginOp: "io_step s BeginOp (s\<lparr>pending_ops := pending_ops s + 1\<rparr>)"
    \<comment> \<open>\<^verbatim>\<open>async_read\<close>, \<^verbatim>\<open>async_read_until\<close> or \<^verbatim>\<open>async_write\<close> of the main thread\<close>
| EndOp: "io_enabled EndOp s \<Longrightarrow> io_step s EndOp (s\<lparr>pending_ops := pending_ops s - 1\<rparr>)"
    \<comment> \<open>its handler, after completion or cancellation\<close>
| ResetWorker: "io_step s ResetWorker (s\<lparr>work_guard := False\<rparr>)"
    \<comment> \<open>the first statement of \<^verbatim>\<open>stopIoThread\<close>\<close>
| RunReturns: "io_enabled RunReturns s \<Longrightarrow> io_step s RunReturns (s\<lparr>thread := Finished, is_stopped := True\<rparr>)"

inductive_cases io_stepE: "io_step s e s'"

inductive io_run :: "io_state \<Rightarrow> io_event list \<Rightarrow> io_state \<Rightarrow> bool" where
  Nil: "io_run s [] s"
| Cons: "io_step s e s1 \<Longrightarrow> io_run s1 es s2 \<Longrightarrow> io_run s (e # es) s2"

inductive_simps io_run_simps [simp]: "io_run s [] s'" "io_run s (e # es) s'"
inductive_simps io_step_simps: "io_step s StartIoThread s'" "io_step s Signal s'" "io_step s BeginOp s'"
  "io_step s EndOp s'" "io_step s ResetWorker s'" "io_step s RunReturns s'"

definition join_returns :: "io_state \<Rightarrow> bool" where
  \<comment> \<open>\<^verbatim>\<open>m_ioThread.join()\<close>, the last statement of \<^verbatim>\<open>stopIoThread\<close>, can return\<close>
  "join_returns s \<longleftrightarrow> thread s = Finished"

definition io_inv :: "io_state \<Rightarrow> bool" where
  "io_inv s \<longleftrightarrow> (is_stopped s \<longleftrightarrow> thread s = Finished) \<and> (is_stopped s \<longrightarrow> \<not> signal_wait s \<and> \<not> work_guard s)
     \<and> (signal_wait s \<longleftrightarrow> signals s = 0) \<and> signals s \<le> 1"

lemma io_inv_step: "io_step s e s' \<Longrightarrow> io_inv s \<Longrightarrow> io_inv s'"
  by (erule io_stepE) (auto simp: io_inv_def)

lemma io_inv_run: "io_run s es s' \<Longrightarrow> io_inv s \<Longrightarrow> io_inv s'"
  by (induction rule: io_run.induct) (auto dest: io_inv_step)

lemma io_inv_constructed: "io_inv io_constructed"
  by (simp add: io_inv_def io_constructed_def)

lemma io_signals_run: "io_run s es s' \<Longrightarrow> signals s' = signals s + count_list es Signal"
proof (induction rule: io_run.induct)
  case (Cons s e s1 es s2)
  then show ?case by (elim io_stepE) auto
qed simp

lemma io_stopped_step:
  "io_step s e s' \<Longrightarrow> io_inv s \<Longrightarrow> is_stopped s \<Longrightarrow> is_stopped s' \<and> pending_ops s \<le> pending_ops s' \<and> e \<noteq> EndOp"
  by (erule io_stepE) (auto simp: io_inv_def)

lemma io_stopped_run:
  "io_run s es s' \<Longrightarrow> io_inv s \<Longrightarrow> is_stopped s
   \<Longrightarrow> is_stopped s' \<and> EndOp \<notin> set es \<and> pending_ops s' = pending_ops s + count_list es BeginOp"
proof (induction rule: io_run.induct)
  case (Cons s e s1 es s2)
  then show ?case using io_inv_step[OF Cons.hyps(1)] by (elim io_stepE) (auto simp: io_inv_def)
qed simp

lemma io_run_append: "io_run s es s1 \<Longrightarrow> io_run s1 fs s2 \<Longrightarrow> io_run s (es @ fs) s2"
  by (induction rule: io_run.induct) auto

lemma io_drain:
  \<comment> \<open>pending operations can be ended one by one\<close>
  "thread s = Running \<Longrightarrow> io_run s (replicate (pending_ops s) EndOp) (s\<lparr>pending_ops := 0\<rparr>)"
proof (induction "pending_ops s" arbitrary: s)
  case 0
  then show ?case by (cases s) simp
next
  case (Suc n)
  let ?s = "s\<lparr>pending_ops := n\<rparr>"
  have "io_step s EndOp ?s" using Suc.prems Suc.hyps(2) io_step.EndOp[of s] by (metis io_enabled.simps(4) diff_Suc_1 zero_less_Suc)
  moreover have "io_run ?s (replicate n EndOp) (?s\<lparr>pending_ops := 0\<rparr>)" using Suc.hyps(1)[of ?s] Suc.prems by simp
  ultimately show ?case unfolding Suc.hyps(2)[symmetric] by auto
qed

lemma io_can_finish:
  assumes "thread s = Running" "\<not> signal_wait s"
  shows "\<exists>s'. io_run s (ResetWorker # replicate (pending_ops s) EndOp @ [RunReturns]) s' \<and> join_returns s'"
proof -
  let ?s = "s\<lparr>work_guard := False\<rparr>"
  have 1: "io_step s ResetWorker ?s" by (rule io_step.ResetWorker)
  have 2: "io_run ?s (replicate (pending_ops s) EndOp) (?s\<lparr>pending_ops := 0\<rparr>)"
    using io_drain[of ?s] assms(1) by simp
  let ?t = "?s\<lparr>pending_ops := 0\<rparr>"
  have "io_run ?t [RunReturns] (?t\<lparr>thread := Finished, is_stopped := True\<rparr>)"
    using assms io_step.RunReturns[of ?t] by (auto intro: io_run.intros)
  from io_run.Cons[OF 1 io_run_append[OF 2 this]] show ?thesis
    by (auto simp: join_returns_def)
qed

subsection \<open>Properties\<close>

text \<open>
  The service stops, and with it the main loop ends and \<^verbatim>\<open>stopIoThread\<close> returns, only after a \<^verbatim>\<open>SIGINT\<close> was
  handled: resetting and destroying the work guard is not enough, since the signal wait of the
  constructor is outstanding work. A controller destroyed without the signal (a failed handshake) waits for ever.
\<close>
lemma stop_needs_signal:
  assumes "io_run io_constructed es s"
  shows "(is_stopped s \<longrightarrow> Signal \<in> set es) \<and> (join_returns s \<longrightarrow> Signal \<in> set es)
    \<and> count_list es Signal \<le> 1"
proof -
  have "io_inv s" using io_inv_run[OF assms io_inv_constructed] .
  moreover have "signals s = count_list es Signal"
    using io_signals_run[OF assms] by (simp add: io_constructed_def)
  ultimately show ?thesis by (auto simp: io_inv_def join_returns_def count_list_0_iff)
qed

lemma stop_needs_signal_example:
  "Signal \<in> set [StartIoThread, BeginOp, Signal, EndOp, RunReturns]"
proof -
  have "io_run io_constructed [StartIoThread, BeginOp, Signal, EndOp, RunReturns]
    (io_constructed\<lparr>thread := Finished, is_stopped := True, work_guard := False, signal_wait := False, signals := 1\<rparr>)"
    by (simp add: io_step_simps io_constructed_def)
  from stop_needs_signal[OF this] show ?thesis by simp
qed

text \<open>
  After the service has stopped no handler runs any more: an operation begun then, and one begun in the rest of
  the main loop's current iteration, is never completed, so each of its waits times out.
\<close>
lemma nothing_after_stop:
  assumes "io_run io_constructed es s" "is_stopped s" "io_run s fs s'"
  shows "is_stopped s' \<and> EndOp \<notin> set fs \<and> pending_ops s' = count_list fs BeginOp + pending_ops s"
  using io_stopped_run[OF assms(3) io_inv_run[OF assms(1) io_inv_constructed] assms(2)] by simp

lemma nothing_after_stop_witness:
  "\<exists>s'. io_run (io_constructed\<lparr>thread := Finished, is_stopped := True, work_guard := False,
      signal_wait := False, signals := 1\<rparr>) [BeginOp, BeginOp] s' \<and> pending_ops s' = 2"
proof -
  let ?s = "io_constructed\<lparr>thread := Finished, is_stopped := True, work_guard := False,
      signal_wait := False, signals := 1\<rparr>"
  have 1: "io_run io_constructed [StartIoThread, Signal, RunReturns] ?s"
    by (simp add: io_step_simps io_constructed_def)
  obtain s' where 2: "io_run ?s [BeginOp, BeginOp] s'" by (auto simp: io_step_simps)
  from nothing_after_stop[OF 1 _ 2] 2 show ?thesis by (auto simp: io_constructed_def)
qed

text \<open>
  Once the signal was handled, \<^verbatim>\<open>stopIoThread\<close> can finish from every state the threads can reach: the pending
  operations end one after the other and \<^verbatim>\<open>run()\<close> returns.
\<close>
lemma shutdown_finishes:
  assumes "io_run io_constructed es s" "StartIoThread \<in> set es" "Signal \<in> set es"
  shows "join_returns s \<or>
    (\<exists>s'. io_run s (ResetWorker # replicate (pending_ops s) EndOp @ [RunReturns]) s' \<and> join_returns s')"
proof -
  have started: "thread s' \<noteq> NotStarted" if "io_run s0 es' s'" "StartIoThread \<in> set es' \<or> thread s0 \<noteq> NotStarted" for s0 es' s'
    using that by (induction rule: io_run.induct) (auto elim!: io_stepE)
  have "io_inv s" using io_inv_run[OF assms(1) io_inv_constructed] .
  moreover have "signals s \<noteq> 0"
    using io_signals_run[OF assms(1)] assms(3) by (simp add: count_list_0_iff)
  ultimately have "\<not> signal_wait s" by (simp add: io_inv_def)
  moreover have "thread s = Running \<or> thread s = Finished"
    using started[OF assms(1)] assms(2) by (cases "thread s") auto
  ultimately show ?thesis using io_can_finish[of s] by (auto simp: join_returns_def)
qed

lemma shutdown_finishes_witness:
  "\<exists>s'. io_run (io_constructed\<lparr>thread := Running, work_guard := False, signal_wait := False, signals := 1,
      pending_ops := 1\<rparr>) [ResetWorker, EndOp, RunReturns] s' \<and> join_returns s'"
proof -
  let ?s = "io_constructed\<lparr>thread := Running, work_guard := False, signal_wait := False, signals := 1,
      pending_ops := 1\<rparr>"
  have "io_run io_constructed [StartIoThread, BeginOp, Signal] ?s"
    by (simp add: io_step_simps io_constructed_def)
  from shutdown_finishes[OF this] show ?thesis by (simp add: join_returns_def io_constructed_def)
qed

end
