(* ===== verification/Flight.thy ===== *)
theory Flight
  imports SomLoop Mcu
begin

section \<open>Firmware and SoM together\<close>

text \<open>
  What the two programs exchange over their serial line. The line is a parameter \<open>arrive\<close>: bytes sent by the MCU are
  appended to those to come on the SoM's port. At power-up the MCU announces itself, the SoM's handshake is answered by
  \<^verbatim>\<open>setup\<close>, and the SoM publishes its telemetry once and enters its loop. In flight a call of the firmware's
  \<^verbatim>\<open>loop\<close> sends two packets, an iteration of the SoM's main loop answers them with a command, and \<^verbatim>\<open>loop\<close>
  reads one command and sets the servo. The theories \<open>FlightSchedule\<close> and \<open>LateCommands\<close> put these together.
\<close>

subsection \<open>The line\<close>

definition arrive_ok ::
  "('d \<Rightarrow> byte list) \<Rightarrow> ('d \<Rightarrow> byte list) \<Rightarrow> ('d \<Rightarrow> bool) \<Rightarrow> (byte list \<Rightarrow> 'd \<Rightarrow> 'd) \<Rightarrow> bool" where
  "arrive_ok rx tx P arrive \<longleftrightarrow>
     (\<forall>bs d. rx (arrive bs d) = rx d @ bs \<and> tx (arrive bs d) = tx d \<and> (P d \<longrightarrow> P (arrive bs d)))"

definition flush_prompt :: "'d asio \<Rightarrow> ('d \<Rightarrow> byte list) \<Rightarrow> ('d \<Rightarrow> bool) \<Rightarrow> bool" where
  \<comment> \<open>on ports of \<open>P\<close> a wait for a delimiter that comes ends in time\<close>
  "flush_prompt A rx P \<longleftrightarrow>
     (\<forall>dl buf t d c bs d'. P d \<longrightarrow> asio_read_until A dl buf t d = (c, bs, d')
        \<longrightarrow> first_end dl (buf @ rx d) \<noteq> None \<longrightarrow> (\<exists>k. c = Done k) \<and> P d')"

definition som_receives :: "(byte list \<Rightarrow> 'd \<Rightarrow> 'd) \<Rightarrow> byte list \<Rightarrow> ('d, 'h) SomController \<Rightarrow> ('d, 'h) SomController"
  where
  "som_receives arrive bs som = som\<lparr>m_serialController := (m_serialController som)
     \<lparr>m_serialPort := arrive bs (m_serialPort (m_serialController som))\<rparr>\<rparr>"

definition som_port :: "('d, 'h) SomController \<Rightarrow> 'd" where
  "som_port som = m_serialPort (m_serialController som)"

definition som_sent :: "('d \<Rightarrow> byte list) \<Rightarrow> ('d, 'h) SomController \<Rightarrow> ('d, 'h) SomController \<Rightarrow> byte list" where
  \<comment> \<open>the bytes written between two states\<close>
  "som_sent tx som som' = drop (length (tx (som_port som))) (tx (som_port som'))"

lemma som_receives_simps [simp]:
  "m_autopilotUtility (som_receives f bs som) = m_autopilotUtility som"
  "m_autopilotManager (som_receives f bs som) = m_autopilotManager som"
  "som_ready (som_receives f bs som) = som_ready som"
  by (simp_all add: som_receives_def som_ready_def)

lemma som_receives_in_step:
  assumes "arrive_ok rx tx P arrive" "in_step rx P (m_serialController som) [] []"
  shows "in_step rx P (m_serialController (som_receives arrive bs som)) bs []"
    "tx (som_port (som_receives arrive bs som)) = tx (som_port som)"
  using assms by (auto simp: arrive_ok_def in_step_def stream_def som_receives_def som_port_def)

subsection \<open>One round\<close>

definition sticks_of :: "mcu_in \<Rightarrow> RcRxPacket" where
  "sticks_of inp = (case mcu_read_sticks inp of Inr r \<Rightarrow> r | Inl _ \<Rightarrow> default_RcRxPacket)"

definition servo_of :: "ControlSurfacePacket \<Rightarrow> u8 \<times> int" where
  "servo_of c = (kELEVATOR_OUT, sint (aileronDeflection c) + 115)"

lemma mcu_read_sticks_serial: "mcu_read_sticks (inp\<lparr>in_serial := bs\<rparr>) = mcu_read_sticks inp"
proof (cases inp)
  case (fields p t i s)
  show ?thesis
    unfolding fields mcu_read_sticks_def mcu_in.update_convs mcu_in.select_convs by (rule refl)
qed

lemma sticks_of_ok:
  assumes "pulses_ok inp"
  shows "mcu_read_sticks (inp\<lparr>in_serial := bs\<rparr>) = Inr (sticks_of inp)" "sticks_ok (sticks_of inp)"
  using mcu_read_sticks_ok[OF assms] by (auto simp: sticks_of_def mcu_read_sticks_serial)

lemma round_exchange:
  \<comment> \<open>what the SoM makes of one round, before the firmware reads the answer\<close>
  assumes A: "asio_ok A rx tx" "asio_prompt A rx P" "arrive_ok rx tx P arrive"
    and s: "in_step rx P (m_serialController som) [] []" "som_ready som"
    and i: "pulses_ok inp" "imu_sane (in_mpu inp)"
  obtains m1 out som' w' c where "mcu_loop (inp\<lparr>in_serial := []\<rparr>) m = Inr (m1, out)"
    and "som_iteration A M pad (som_receives arrive (out_serial out) som, w) = Inr (som', w')"
    and "som_sent tx som som' = enc_ControlSurfacePacket c"
    and "som_ready som'" "in_step rx P (m_serialController som') [] []"
    and "m_autopilotUtility som' = m_autopilotUtility som"
    and "AutopilotManager_trigger (m_autopilotUtility som) (m_autopilotManager som) (sticks_of inp) (in_mpu inp)
      = Inr (m_autopilotManager som', c)"
proof -
  let ?r = "sticks_of inp" and ?i = "in_mpu inp"
  let ?bs = "enc_RcRxPacket ?r @ enc_ImuPacket ?i"
  obtain m1 out where l: "mcu_loop (inp\<lparr>in_serial := []\<rparr>) m = Inr (m1, out)" "out_serial out = ?bs"
    by (auto simp: mcu_loop_def sticks_of_ok[OF i(1)] case_prod_beta)
  let ?som = "som_receives arrive ?bs som"
  note st = som_receives_in_step[OF A(3) s(1), of ?bs]
  have "in_step rx P (m_serialController ?som) (enc_RcRxPacket ?r @ enc_ImuPacket ?i @ []) []"
    using st(1) by simp
  from som_iteration_in_step[OF A(1,2) this _ i(2), of M pad w] s(2) obtain som' w' c where
    it: "som_iteration A M pad (?som, w) = Inr (som', w')" "som_ready som'"
      "AutopilotManager_trigger (m_autopilotUtility som) (m_autopilotManager som) ?r ?i
        = Inr (m_autopilotManager som', c)"
      "m_autopilotUtility som' = m_autopilotUtility som" "in_step rx P (m_serialController som') [] []"
      "tx (som_port som') = tx (som_port ?som) @ enc_ControlSurfacePacket c"
    by (auto simp: som_port_def)
  moreover have "som_sent tx som som' = enc_ControlSurfacePacket c" using it(6) st(2) by (simp add: som_sent_def)
  ultimately show ?thesis using that l by simp
qed

lemma mcu_loop_hears:
  \<comment> \<open>a read that finds a whole command sets the servo to it, one that finds nothing leaves it\<close>
  assumes "pulses_ok inp"
  shows "\<exists>m' out. mcu_loop (inp\<lparr>in_serial := enc_ControlSurfacePacket c @ bs\<rparr>) m = Inr (m', out)
      \<and> mcu_csPacket m' = c \<and> out_analog out = [servo_of c]"
    and "\<exists>m' out. mcu_loop (inp\<lparr>in_serial := []\<rparr>) m = Inr (m', out)
      \<and> mcu_csPacket m' = mcu_csPacket m \<and> out_analog out = [servo_of (mcu_csPacket m)]"
  using control.enc_length control.dec_enc
  by (simp_all add: mcu_loop_def sticks_of_ok[OF assms] servo_of_def mcu_readPacket_def overwrite_all overwrite_def)

abbreviation enc_commands :: "ControlSurfacePacket list \<Rightarrow> byte list" where
  "enc_commands cs \<equiv> concat (map enc_ControlSurfacePacket cs)"

lemma concat_blocks:
  assumes "\<forall>b \<in> set bs. length b = n"
  shows "take (n * k) (concat bs) = concat (take k bs) \<and> drop (n * k) (concat bs) = concat (drop k bs)"
  using assms
proof (induction bs arbitrary: k)
  case (Cons b bs)
  then show ?case by (cases k) simp_all
qed simp

lemma enc_commands_take_drop:
  "take (4 * k) (enc_commands cs) = enc_commands (take k cs)"
  "drop (4 * k) (enc_commands cs) = enc_commands (drop k cs)"
  using concat_blocks[of "map enc_ControlSurfacePacket cs" 4 k] control.enc_length by (simp_all add: take_map drop_map)

lemma firmware_hears:
  \<comment> \<open>one call of \<^verbatim>\<open>loop\<close> on the commands that have come\<close>
  assumes "pulses_ok inp"
  obtains m' out where "mcu_loop (inp\<lparr>in_serial := enc_commands cs\<rparr>) m = Inr (m', out)"
    and "mcu_csPacket m' = (case cs of [] \<Rightarrow> mcu_csPacket m | c # _ \<Rightarrow> c)"
    and "out_analog out = [servo_of (case cs of [] \<Rightarrow> mcu_csPacket m | c # _ \<Rightarrow> c)]"
proof (cases cs)
  case Nil
  then show thesis using mcu_loop_hears(2)[OF assms, of m] that by auto
next
  case (Cons c cs')
  then show thesis using mcu_loop_hears(1)[OF assms, of c "enc_commands cs'" m] that by auto
qed

subsection \<open>Power-up\<close>

definition answering :: "'d asio \<Rightarrow> (byte list \<Rightarrow> 'd \<Rightarrow> 'd) \<Rightarrow> (byte list \<Rightarrow> byte list) \<Rightarrow> 'd asio" where
  \<comment> \<open>a port whose other side answers what is written\<close>
  "answering A arrive reply = A\<lparr>asio_write := \<lambda>bs t d.
     (case asio_write A bs t d of (c, d') \<Rightarrow> (c, arrive (reply bs) d'))\<rparr>"

definition setup_greeting :: "mcu_in \<Rightarrow> Mcu \<Rightarrow> byte list" where
  \<comment> \<open>what \<^verbatim>\<open>setup\<close> prints before it reads: its output less the byte it echoes\<close>
  "setup_greeting inp m = butlast (out_serial (snd (mcu_setup inp m)))"

definition setup_echo :: "mcu_in \<Rightarrow> Mcu \<Rightarrow> byte list \<Rightarrow> byte list" where
  "setup_echo inp m bs = [last (out_serial (snd (mcu_setup (inp\<lparr>in_serial := bs\<rparr>) m)))]"

definition power_up ::
  "'d asio \<Rightarrow> ('h, 'w) mq \<Rightarrow> byte \<Rightarrow> (byte list \<Rightarrow> 'd \<Rightarrow> 'd) \<Rightarrow> ('d \<Rightarrow> byte list) \<Rightarrow> mcu_in
   \<Rightarrow> Mcu \<times> ('d, 'h) SomController \<times> 'w \<Rightarrow> (bool \<times> Mcu \<times> ('d, 'h) SomController \<times> 'w) res" where
  \<comment> \<open>the handshake on both sides and, if it succeeds, the main loop up to the sleep in front of its first iteration\<close>
  "power_up A M pad arrive tx inp = (\<lambda>(m, som, w).
     res_bind (handshakeMCU (answering A arrive (setup_echo inp m))
                (som_receives arrive (setup_greeting inp m) som)) (\<lambda>(ok, som').
     res_bind (if ok then sendTelemetry M pad som' w else Inr w) (\<lambda>w'.
       Inr (ok, fst (mcu_setup (inp\<lparr>in_serial := som_sent tx som som'\<rparr>) m), som', w'))))"

lemma setup_lines:
  "setup_greeting inp new_Mcu = string_bytes (''flush'' @ crlf)"
  "setup_echo inp new_Mcu [1] = [1]"
  by (simp_all add: setup_greeting_def setup_echo_def mcu_setup_def mcu_readPacket_def overwrite_def
      new_Mcu_def default_HandshakePacket_def enc_HandshakePacket_def dec_HandshakePacket_def
      byte_at_def println_def string_bytes_def split: prod.split)

lemma setup_hears:
  "mcu_handshakePacket (fst (mcu_setup (inp\<lparr>in_serial := [1]\<rparr>) new_Mcu)) = kHandshakePacket"
  "mcu_csPacket (fst (mcu_setup (inp\<lparr>in_serial := bs\<rparr>) new_Mcu)) = default_ControlSurfacePacket"
  by (simp_all add: mcu_setup_def mcu_readPacket_def overwrite_def new_Mcu_def default_HandshakePacket_def
      enc_HandshakePacket_def dec_HandshakePacket_def byte_at_def kHandshakePacket_def)

lemma readPacket_answering: "readPacket (answering A arrive reply) = readPacket A"
  by (intro ext) (simp add: readPacket_def answering_def split: prod.split completion.split)

lemma handshake_attempts_answering:
  "handshake_attempts (answering A arrive reply) n som = handshake_attempts A n som"
  by (induction n arbitrary: som) (auto simp: readPacket_answering split: prod.split)

lemma flush_answering: "flush (answering A arrive reply) sc = flush A sc"
  by (simp add: flush_def answering_def split: prod.split completion.split)

lemma handshake_attempts_frame:
  "handshake_attempts A n som = (ok, som') \<Longrightarrow> m_autopilotUtility som' = m_autopilotUtility som
     \<and> m_autopilotManager som' = m_autopilotManager som \<and> m_onboardMessage som' = m_onboardMessage som
     \<and> m_telemetryTransmitter som' = m_telemetryTransmitter som"
proof (induction n arbitrary: som)
  case (Suc n)
  show ?case using Suc.prems by (auto dest: Suc.IH split: prod.splits if_splits)
qed simp

lemma first_end_self: "d \<noteq> [] \<Longrightarrow> first_end d d = Some (length d)"
  by (cases d) auto

lemma first_end_prefix: "first_end d bs = Some n \<Longrightarrow> length d \<le> n \<and> n \<le> length bs"
proof (induction bs arbitrary: n)
  case (Cons x bs)
  then show ?case
    by (auto split: if_splits dest: arg_cong[where f = length])
qed (auto split: if_splits)

lemma flush_greeting:
  \<comment> \<open>a flush when exactly the delimiter has come: nothing is left\<close>
  assumes A: "asio_ok A rx tx" "flush_prompt A rx P"
    and s: "in_step rx P sc (string_bytes (c_handshakeTerminationStr sc)) []"
    and ne: "c_handshakeTerminationStr sc \<noteq> []"
  shows "\<exists>sc'. flush A sc = (True, sc') \<and> in_step rx P sc' [] []
    \<and> tx (m_serialPort sc') = tx (m_serialPort sc)"
proof -
  let ?d = "string_bytes (c_handshakeTerminationStr sc)"
  have b: "m_streamBuffer sc = []" "rx (m_serialPort sc) = ?d" "P (m_serialPort sc)"
    using s by (auto simp: in_step_def stream_def)
  have d: "?d \<noteq> []" using ne by (simp add: string_bytes_def)
  obtain c bs p where r: "asio_read_until A ?d (m_streamBuffer sc)
      (unat (c_readTimeoutMs sc * ucast kDelayMultiplier)) (m_serialPort sc) = (c, bs, p)"
    using prod_cases3 by blast
  have "first_end ?d (m_streamBuffer sc @ rx (m_serialPort sc)) \<noteq> None"
    using first_end_self[OF d] b by simp
  then obtain k where k: "c = Done k" "P p" using A(2) b(3) r unfolding flush_prompt_def by blast
  note u = asio_read_untilD[OF A(1) r]
  have "first_end ?d bs = Some k" "rx (m_serialPort sc) = bs @ rx p" using u k b by auto
  then have "length ?d \<le> k" "k \<le> length bs" "length bs + length (rx p) = length ?d"
    using first_end_prefix[of ?d bs k] b(2) arg_cong[of ?d "bs @ rx p" length] by auto
  then have "length (rx p) = 0" "length bs \<le> k * 2" by linarith+
  then have "rx p = []" "length bs \<le> k * 2" by simp_all
  then have "flush A sc = (True, sc\<lparr>m_streamBuffer := [], m_serialPort := p\<rparr>)"
    using r k b(1) by (simp add: flush_def)
  then show ?thesis using \<open>rx p = []\<close> k u by (auto simp: in_step_def stream_def)
qed

lemma power_up_ok:
  assumes A: "asio_ok A rx tx" "asio_prompt A rx P" "flush_prompt A rx P" "arrive_ok rx tx P arrive"
    and s: "in_step rx P (m_serialController som) [] []" "som_ready som"
    and t: "c_handshakeTerminationStr (m_serialController som) = ''flush'' @ crlf"
    and n: "c_handshakeAttempts som \<noteq> 0"
  shows "\<exists>m' som' w'. power_up A M pad arrive tx inp (new_Mcu, som, w) = Inr (True, m', som', w')
    \<and> mcu_handshakePacket m' = kHandshakePacket \<and> mcu_csPacket m' = default_ControlSurfacePacket
    \<and> som_ready som' \<and> in_step rx P (m_serialController som') [] []
    \<and> m_autopilotUtility som' = m_autopilotUtility som \<and> m_autopilotManager som' = m_autopilotManager som"
proof -
  let ?A = "answering A arrive (setup_echo inp new_Mcu)"
  let ?som = "som_receives arrive (setup_greeting inp new_Mcu) som"
  let ?sc = "m_serialController ?som"
  note g = som_receives_in_step[OF A(4) s(1), of "setup_greeting inp new_Mcu"]
  have ts: "c_handshakeTerminationStr ?sc = ''flush'' @ crlf" using t by (simp add: som_receives_def)
  then have "in_step rx P ?sc (string_bytes (c_handshakeTerminationStr ?sc)) []"
    using g(1) by (simp add: setup_lines)
  from flush_greeting[OF A(1,3) this] ts obtain sc1 where
    f: "flush A ?sc = (True, sc1)" "in_step rx P sc1 [] []" "tx (m_serialPort sc1) = tx (m_serialPort ?sc)" by auto
  obtain c d where w: "asio_write A [1] (unat (c_writeTimeoutMs sc1)) (m_serialPort sc1) = (c, d)" by force
  obtain k where k: "c = Done k" "P d" using asio_promptD(2)[OF A(2) _ w] f(2) by (auto simp: in_step_def)
  note wd = asio_writeD[OF A(1) w]
  define sc2 where "sc2 = sc1\<lparr>m_serialPort := arrive [1] d\<rparr>"
  have wr: "writePacket ?A enc_HandshakePacket sc1 kHandshakePacket = (True, sc2)"
    using w k by (simp add: writePacket_def answering_def enc_HandshakePacket_def kHandshakePacket_def
        sc2_def setup_lines)
  define som1 where "som1 = ?som\<lparr>m_serialController := sc2, m_debugMessage := count_write True (m_debugMessage ?som)\<rparr>"
  have "in_step rx P (m_serialController som1) ([] @ [1] @ []) []"
    using f(2) k wd A(4) by (auto simp: som1_def sc2_def in_step_def stream_def arrive_ok_def)
  from handshake_attempts_prompt[OF A(1,2) this, of "unat (c_handshakeAttempts som)"] n obtain som' where
    h: "handshake_attempts A (unat (c_handshakeAttempts som)) som1 = (True, som')"
      "in_step rx P (m_serialController som') [] []"
    by (auto simp: unat_gt_0)
  have hs: "handshakeMCU ?A ?som = Inr (True, som')"
    using f(1) wr h(1) by (simp add: handshakeMCU_def flush_answering handshake_attempts_answering
        som1_def som_receives_def)
  have "tx (som_port som') = tx (m_serialPort sc2)"
    using handshake_attempts_stream[OF A(1) h(1)] by (auto simp: som_port_def som1_def)
  also have "\<dots> = tx (som_port som) @ [1]"
    using wd k f(3) g(2) A(4) by (simp add: sc2_def arrive_ok_def som_port_def)
  finally have "som_sent tx som som' = [1]" by (simp add: som_sent_def)
  moreover note setup_hears(1)[where inp = inp] setup_hears(2)[where inp = inp]
  moreover have r: "som_ready som'" using s(2) handshake_attempts_frame[OF h(1)]
    by (simp add: som1_def som_ready_def som_receives_def)
  moreover obtain w' where "sendTelemetry M pad som' w = Inr w'"
    using sendTelemetry_defined[of som' M pad w] r by (auto simp: som_ready_def)
  ultimately show ?thesis
    using hs h(2) handshake_attempts_frame[OF h(1)] by (simp add: power_up_def som1_def som_ready_def)
qed

end
