(* ===== verification/Journal.thy ===== *)
theory Journal
  imports Prelude
begin

section \<open>Logging: Journal\<close>

text \<open>
  \<^verbatim>\<open>io/Journal.hpp\<close> and the external assertion of \<^verbatim>\<open>common/Helpers.hpp\<close>: the line the sink prints for a record,
  the text the logging macros build, and the set-up of the logging core. The core of \<^verbatim>\<open>boost::log\<close> is a
  parameter (\<open>log_core\<close>); \<open>core_ok\<close> states its documented behaviour on three settings, whether the
  journal's sink is registered, the filter and the switch. The texts of the time stamp, the thread and the
  demangled class name are arguments.
\<close>

subsection \<open>The sink\<close>

datatype severity_level = Trace | Debug | Info | Warning | Error | Fatal

fun severity_rank :: "severity_level \<Rightarrow> nat" where
  "severity_rank Trace = 0"
| "severity_rank Debug = 1"
| "severity_rank Info = 2"
| "severity_rank Warning = 3"
| "severity_rank Error = 4"
| "severity_rank Fatal = 5"

instantiation severity_level :: linorder
begin
definition less_eq_severity_level :: "severity_level \<Rightarrow> severity_level \<Rightarrow> bool" where
  "a \<le> b \<longleftrightarrow> severity_rank a \<le> severity_rank b"
definition less_severity_level :: "severity_level \<Rightarrow> severity_level \<Rightarrow> bool" where
  "a < b \<longleftrightarrow> severity_rank a < severity_rank b"
instance
proof
  show "a = b" if "a \<le> b" "b \<le> a" for a b :: severity_level
    using that by (cases a; cases b) (simp_all add: less_eq_severity_level_def)
qed (auto simp: less_eq_severity_level_def less_severity_level_def)
end

fun severity_text :: "severity_level \<Rightarrow> string" where
  "severity_text Trace = ''trace''"
| "severity_text Debug = ''debug''"
| "severity_text Info = ''info''"
| "severity_text Warning = ''warning''"
| "severity_text Error = ''error''"
| "severity_text Fatal = ''fatal''"

definition escape :: "string \<Rightarrow> string" where
  "escape s = CHR 0x1B # s"

fun severity_colour :: "severity_level \<Rightarrow> string" where
  "severity_colour Trace = escape ''[38;5;241m''"
| "severity_colour Debug = escape ''[38;5;245m''"
| "severity_colour Warning = escape ''[38;5;184m''"
| "severity_colour Error = escape ''[38;5;196m''"
| "severity_colour Info = []"
| "severity_colour Fatal = []"

definition consume :: "severity_level \<Rightarrow> string \<Rightarrow> string \<Rightarrow> string \<Rightarrow> string" where
  \<comment> \<open>\<^verbatim>\<open>JournalSink::consume\<close>: what goes to \<^verbatim>\<open>std::cout\<close>\<close>
  "consume severity time thread message =
     severity_colour severity @ ''['' @ time @ ''] ['' @ thread @ ''] ''
     @ ''['' @ severity_text severity @ ''] '' @ message @ escape ''[0m'' @ [CHR 0x0A]"

lemma consume_one_line:
  \<comment> \<open>one line per record, its colour reset before the end\<close>
  assumes "CHR 0x0A \<notin> set time" "CHR 0x0A \<notin> set thread" "CHR 0x0A \<notin> set message"
  shows "\<exists>l. consume sv time thread message = l @ escape ''[0m'' @ [CHR 0x0A] \<and> CHR 0x0A \<notin> set l"
  using assms by (cases sv) (auto simp: consume_def escape_def)

subsection \<open>The macros\<close>

definition log_text :: "string \<Rightarrow> string \<Rightarrow> string" where
  \<comment> \<open>\<^verbatim>\<open>RCPLANE_LOG\<close> with the demangled class, \<^verbatim>\<open>RCPLANE_LOG_EXTERNAL\<close> with its tag\<close>
  "log_text tag msg = ''['' @ tag @ ''] '' @ msg"

definition log_method_text :: "string \<Rightarrow> string \<Rightarrow> string" where
  \<comment> \<open>\<^verbatim>\<open>RCPLANE_LOG_METHOD\<close>\<close>
  "log_method_text cls func = cls @ ''::'' @ func"

definition rcplane_assert_external ::
  "bool \<Rightarrow> string \<Rightarrow> string \<Rightarrow> unit res \<times> (severity_level \<times> string) list" where
  \<comment> \<open>condition, tag and the condition's text; the outcome and the records logged\<close>
  "rcplane_assert_external c tag cond_text =
     (if c then (Inr (), [])
      else (Inl Exited, [(Error, log_text tag (''Assertion failed :: '' @ cond_text))]))"

lemma rcplane_assert_external_fst: "fst (rcplane_assert_external c tag t) = rcplane_assert c"
  by (simp add: rcplane_assert_external_def rcplane_assert_def)

subsection \<open>The logging core\<close>

record 'k log_core =
  add_common_attributes :: "'k \<Rightarrow> 'k"
  add_journal_sink :: "'k \<Rightarrow> 'k"     \<comment> \<open>\<^verbatim>\<open>add_sink\<close> of the one \<^verbatim>\<open>g_journalSink\<close>\<close>
  set_filter :: "(severity_level \<Rightarrow> bool) \<Rightarrow> 'k \<Rightarrow> 'k"
  set_logging_enabled :: "bool \<Rightarrow> 'k \<Rightarrow> 'k"

record log_settings =
  has_sink :: bool
  passes :: "severity_level \<Rightarrow> bool"
  enabled :: bool

definition core_ok :: "'k log_core \<Rightarrow> ('k \<Rightarrow> log_settings) \<Rightarrow> bool" where
  "core_ok C st \<longleftrightarrow>
     (\<forall>k. st (add_common_attributes C k) = st k
        \<and> st (add_journal_sink C k) = (st k)\<lparr>has_sink := True\<rparr>
        \<and> (\<forall>f. st (set_filter C f k) = (st k)\<lparr>passes := f\<rparr>)
        \<and> (\<forall>b. st (set_logging_enabled C b k) = (st k)\<lparr>enabled := b\<rparr>))"

definition RCPLANE_LOG_INIT :: "'k log_core \<Rightarrow> 'k \<Rightarrow> 'k" where
  "RCPLANE_LOG_INIT C k =
     set_filter C (\<lambda>severity. Trace \<le> severity) (add_journal_sink C (add_common_attributes C k))"

definition RCPLANE_LOG_ENABLE :: "'k log_core \<Rightarrow> 'k \<Rightarrow> 'k" where
  "RCPLANE_LOG_ENABLE C k = set_logging_enabled C True k"

definition RCPLANE_LOG_DISABLE :: "'k log_core \<Rightarrow> 'k \<Rightarrow> 'k" where
  "RCPLANE_LOG_DISABLE C k = set_logging_enabled C False k"

definition journal_output ::
  "log_settings \<Rightarrow> string \<Rightarrow> string \<Rightarrow> (severity_level \<times> string) list \<Rightarrow> string" where
  \<comment> \<open>what the sink prints for a sequence of records\<close>
  "journal_output s time thread rs =
     concat (map (\<lambda>(sv, msg). if enabled s \<and> passes s sv \<and> has_sink s
                               then consume sv time thread msg else []) rs)"

lemma log_init_prints:
  assumes "core_ok C st" "enabled (st k)"
  shows "journal_output (st (RCPLANE_LOG_INIT C k)) time thread rs
    = concat (map (\<lambda>(sv, msg). consume sv time thread msg) rs)"
proof -
  have "st (RCPLANE_LOG_INIT C k) = (st k)\<lparr>has_sink := True, passes := \<lambda>severity. Trace \<le> severity\<rparr>"
    using assms(1) by (simp add: core_ok_def RCPLANE_LOG_INIT_def)
  then show ?thesis using assms(2) by (simp add: journal_output_def less_eq_severity_level_def)
qed

lemma log_disable_silent:
  "core_ok C st \<Longrightarrow> journal_output (st (RCPLANE_LOG_DISABLE C k)) time thread rs = []"
  by (auto simp: core_ok_def RCPLANE_LOG_DISABLE_def journal_output_def)

definition settings_core :: "log_settings log_core" where
  \<comment> \<open>an instance: a core that consists of the three settings\<close>
  "settings_core = \<lparr>add_common_attributes = (\<lambda>s. s), add_journal_sink = (\<lambda>s. s\<lparr>has_sink := True\<rparr>),
     set_filter = (\<lambda>f s. s\<lparr>passes := f\<rparr>), set_logging_enabled = (\<lambda>b s. s\<lparr>enabled := b\<rparr>)\<rparr>"

lemma settings_core_ok: "core_ok settings_core (\<lambda>s. s)"
  by (simp add: core_ok_def settings_core_def)

end
