(* ===== verification/TelemetryReaders.thy ===== *)
theory TelemetryReaders
  imports TelemetryMQ Journal "HOL-Library.Sublist"
begin

section \<open>The programs that read telemetry\<close>

text \<open>
  \<^verbatim>\<open>control_station/TelemetryThread.hpp\<close> and \<^verbatim>\<open>pc/main.cpp\<close>: two endless loops that receive a debug, an attitude and an
  onboard message in turn. One receive and what follows it, up to the next, is a step on the point of control, which holds
  the message objects in scope (\<open>reader_pc\<close>), and the state of the queues; a step that would block is
  \<open>None\<close>. The thread ignores the results and emits the three messages; the PC program repeats a receive that
  failed. Since the SoM sends while they read, both are composed with it in a step relation over the
  interleavings, in which every send and every receive is one step. The interface \<open>telemetry_reader\<close> states
  what the two readers share; inside it are the lemmas on all interleavings.
\<close>

type_synonym telemetry_round = "DebugMessage \<times> AttitudeMessage \<times> OnboardStateMessage"

datatype reader_pc =
    AtDebug DebugMessage
  | AtAttitude DebugMessage AttitudeMessage
  | AtOnboard DebugMessage AttitudeMessage OnboardStateMessage

subsection \<open>The telemetry thread\<close>

definition new_TelemetryThread ::
  "(string \<Rightarrow> string list) \<Rightarrow> ConfigManager \<Rightarrow> 'h TelemetryReceiverMQ res" where
  \<comment> \<open>its only member is the receiver\<close>
  "new_TelemetryThread split cm = new_TelemetryReceiverMQ split cm"

definition thread_begin ::
  "('h, 'w) mq \<Rightarrow> 'h TelemetryReceiverMQ \<Rightarrow> 'w \<Rightarrow> 'h TelemetryReceiverMQ \<times> reader_pc" where
  \<comment> \<open>\<^verbatim>\<open>run\<close> up to the first receive: the result of \<^verbatim>\<open>init\<close> is ignored\<close>
  "thread_begin M rx w = (snd (init_receiver M rx w), AtDebug default_DebugMessage)"

fun thread_step ::
  "('h, 'w) mq \<Rightarrow> byte \<Rightarrow> 'h TelemetryReceiverMQ \<Rightarrow> reader_pc \<Rightarrow> 'w
   \<Rightarrow> ((reader_pc \<times> telemetry_round list \<times> 'w) res) option" where
  "thread_step M pad rx (AtDebug d) w =
     map_option (\<lambda>r. res_bind r (\<lambda>(ok, d', w').
         Inr (AtAttitude d' default_AttitudeMessage, [], w')))
       (receiveDebugMessage M rx d w)"
| "thread_step M pad rx (AtAttitude d a) w =
     map_option (\<lambda>r. res_bind r (\<lambda>(ok, a', w').
         Inr (AtOnboard d a' default_OnboardStateMessage, [], w')))
       (receiveAttitudeMessage M rx a w)"
| "thread_step M pad rx (AtOnboard d a b) w =
     map_option (\<lambda>r. res_bind r (\<lambda>(ok, b', w').
         Inr (AtDebug default_DebugMessage, [(d, a, b')], w')))
       (receiveOnboardMessage M pad rx b w)"

subsection \<open>The PC program\<close>

definition pc_main_begin ::
  "(string \<Rightarrow> string list) \<Rightarrow> (string \<Rightarrow> string option) \<Rightarrow> (string \<Rightarrow> json option) \<Rightarrow> ('h, 'w) mq
   \<Rightarrow> 'w \<Rightarrow> 'h TelemetryReceiverMQ res" where
  \<comment> \<open>\<^verbatim>\<open>main\<close> up to its loop\<close>
  "pc_main_begin split fs parse M w =
     (case loadConfig fs parse new_ConfigManager k_defaultConfigPath of (loaded, cm) \<Rightarrow>
        res_bind loaded (\<lambda>b.
        res_bind (fst (rcplane_assert_external b ''main'' ''configManager.loadConfig()'')) (\<lambda>_.
        res_bind (new_TelemetryReceiverMQ split cm) (\<lambda>rx.
        (case init_receiver M rx w of (ok, rx') \<Rightarrow>
           res_bind (fst (rcplane_assert_external ok ''main'' ''receiver.init()'')) (\<lambda>_. Inr rx'))))))"

fun pc_step ::
  "('h, 'w) mq \<Rightarrow> byte \<Rightarrow> 'h TelemetryReceiverMQ \<Rightarrow> reader_pc \<Rightarrow> 'w
   \<Rightarrow> ((reader_pc \<times> telemetry_round list \<times> 'w) res) option" where
  \<comment> \<open>the list holds the messages of a finished round; the program itself only logs them\<close>
  "pc_step M pad rx (AtDebug d) w =
     map_option (\<lambda>r. res_bind r (\<lambda>(ok, d', w').
         Inr (if ok then AtAttitude d' default_AttitudeMessage else AtDebug d', [], w')))
       (receiveDebugMessage M rx d w)"
| "pc_step M pad rx (AtAttitude d a) w =
     map_option (\<lambda>r. res_bind r (\<lambda>(ok, a', w').
         Inr (if ok then AtOnboard d a' default_OnboardStateMessage else AtAttitude d a', [], w')))
       (receiveAttitudeMessage M rx a w)"
| "pc_step M pad rx (AtOnboard d a b) w =
     map_option (\<lambda>r. res_bind r (\<lambda>(ok, b', w').
         Inr (if ok then (AtDebug default_DebugMessage, [(d, a, b')], w')
              else (AtOnboard d a b', [], w'))))
       (receiveOnboardMessage M pad rx b w)"

partial_function (option) reader_loop ::
  "(reader_pc \<Rightarrow> 'w \<Rightarrow> ((reader_pc \<times> telemetry_round list \<times> 'w) res) option) \<Rightarrow> reader_pc \<Rightarrow> 'w
   \<Rightarrow> unit res option" where
  \<comment> \<open>\<^verbatim>\<open>while (true)\<close>, alone with the queues\<close>
  "reader_loop step pc w =
     Option.bind (step pc w) (\<lambda>r.
       case r of Inl e \<Rightarrow> Some (Inl e) | Inr (pc', out, w') \<Rightarrow> reader_loop step pc' w')"

definition pc_main ::
  "(string \<Rightarrow> string list) \<Rightarrow> (string \<Rightarrow> string option) \<Rightarrow> (string \<Rightarrow> json option) \<Rightarrow> ('h, 'w) mq
   \<Rightarrow> byte \<Rightarrow> 'w \<Rightarrow> int res option" where
  "pc_main split fs parse M pad w =
     (case pc_main_begin split fs parse M w of
        Inl e \<Rightarrow> Some (Inl e)
      | Inr rx \<Rightarrow> map_option (\<lambda>r. res_bind r (\<lambda>_. Inr 0))
                    (reader_loop (pc_step M pad rx) (AtDebug default_DebugMessage) w))"

lemma reader_loop_fault:
  assumes "reader_loop step pc w = Some r"
  shows "\<exists>e pc' w'. r = Inl e \<and> step pc' w' = Some (Inl e)"
proof (rule reader_loop.raw_induct[where
      P = "\<lambda>st pc w r. \<exists>e pc' w'. r = Inl e \<and> st pc' w' = Some (Inl e)", OF _ assms])
  fix rl st pc w r
  assume IH: "\<And>st pc w r. rl st pc w = Some r \<Longrightarrow> \<exists>e pc' w'. r = Inl e \<and> st pc' w' = Some (Inl e)"
    and e: "Option.bind (st pc w) (\<lambda>r. case r of Inl e \<Rightarrow> Some (Inl e)
        | Inr (pc', out, w') \<Rightarrow> rl st pc' w') = Some r"
  then obtain q where q: "st pc w = Some q" by (cases "st pc w") auto
  show "\<exists>e pc' w'. r = Inl e \<and> st pc' w' = Some (Inl e)"
    using e q IH by (cases q) (auto split: prod.splits)
qed

lemma reader_loop_endless:
  \<comment> \<open>a loop that only meets states of an invariant, none of which faults, does not return\<close>
  assumes I: "I pc w"
    and step: "\<And>pc w. I pc w \<Longrightarrow> step pc w = None \<or> (\<exists>pc' out w'. step pc w = Some (Inr (pc', out, w')) \<and> I pc' w')"
  shows "reader_loop step pc w = None"
proof (rule ccontr)
  assume "reader_loop step pc w \<noteq> None"
  then obtain r where r: "reader_loop step pc w = Some r" by auto
  have "st = step \<longrightarrow> I pc w \<longrightarrow> False" if "reader_loop st pc w = Some r" for st pc w r
  proof (rule reader_loop.raw_induct[where P = "\<lambda>st pc w r. st = step \<longrightarrow> I pc w \<longrightarrow> False", OF _ that], intro impI)
    fix rl st pc w r
    assume IH: "\<And>st pc w r. rl st pc w = Some r \<Longrightarrow> st = step \<longrightarrow> I pc w \<longrightarrow> False"
      and e: "Option.bind (st pc w) (\<lambda>r. case r of Inl e \<Rightarrow> Some (Inl e)
        | Inr (pc', out, w') \<Rightarrow> rl st pc' w') = Some r" and h: "st = step" "I pc w"
    from step[OF h(2)] e obtain pc' out w' where "step pc w = Some (Inr (pc', out, w'))" "I pc' w'"
      unfolding h(1) by auto
    with e IH[of st pc' w' r] h(1) show False by auto
  qed
  with r I show False by blast
qed

subsection \<open>Three queues at once\<close>

abbreviation queue_debug :: "('h, 'w) telemetry \<Rightarrow> 'w \<Rightarrow> byte list list" where
  "queue_debug \<equiv> channel_contents m_debugMessageQueue"
abbreviation queue_attitude :: "('h, 'w) telemetry \<Rightarrow> 'w \<Rightarrow> byte list list" where
  "queue_attitude \<equiv> channel_contents m_attitudeMessageQueue"
abbreviation queue_onboard :: "('h, 'w) telemetry \<Rightarrow> 'w \<Rightarrow> byte list list" where
  "queue_onboard \<equiv> channel_contents m_onboardMessageQueue"

definition links_valid :: "('h, 'w) telemetry \<Rightarrow> bool" where
  "links_valid c \<longleftrightarrow> channel_valid m_debugMessageQueue r_debugMessageQueue 20 c
     \<and> channel_valid m_attitudeMessageQueue r_attitudeMessageQueue 32 c
     \<and> channel_valid m_onboardMessageQueue r_onboardMessageQueue 12 c"

lemma links_validD:
  assumes "links_valid c"
  shows "channel_valid m_debugMessageQueue r_debugMessageQueue 20 c"
    "channel_valid m_attitudeMessageQueue r_attitudeMessageQueue 32 c"
    "channel_valid m_onboardMessageQueue r_onboardMessageQueue 12 c"
  using assms by (auto simp: links_valid_def)

lemma send_frame:
  \<comment> \<open>a send leaves the queues of other message sizes alone\<close>
  assumes v: "channel_valid qt qr sz c" "channel_valid qt' qr' sz' c" and sz: "sz \<noteq> sz'"
    and s: "send_bytes (t_mq c) (qt (t_tx c)) bs w = Inr (ok, w')"
  shows "channel_contents qt' c w' = channel_contents qt' c w"
proof -
  from v(1) obtain h where h: "qt (t_tx c) = Some h" "snd (t_cap c h) = sz"
    and M: "mq_ok (t_mq c) (t_names c) (t_cont c) (t_cap c)" by (rule channel_validE)
  from v(2) obtain h' where h': "qt' (t_tx c) = Some h'" "snd (t_cap c h') = sz'" by (rule channel_validE)
  obtain r w1 where t: "mq_try_send (t_mq c) h bs 0 w = (r, w1)" by force
  have "w' = w1" using s h(1) t by (auto simp: send_bytes_def split: option.splits)
  moreover have "h' \<noteq> h" using h h' sz by auto
  ultimately show ?thesis using mq_try_sendD(2)[OF M t] h'(1) by (simp add: channel_contents_def)
qed

lemma receive_frame:
  assumes v: "channel_valid qt qr sz c" "channel_valid qt' qr' sz' c" and sz: "sz \<noteq> sz'"
    and s: "receive_bytes (t_mq c) (qr (t_rx c)) old w = Some (Inr (ok, bs, w'))"
  shows "channel_contents qt' c w' = channel_contents qt' c w"
proof -
  from v(1) obtain h where h: "qr (t_rx c) = Some h" "snd (t_cap c h) = sz"
    and M: "mq_ok (t_mq c) (t_names c) (t_cont c) (t_cap c)" by (rule channel_validE)
  from v(2) obtain h' where h': "qt' (t_tx c) = Some h'" "snd (t_cap c h') = sz'" by (rule channel_validE)
  obtain r w1 where t: "mq_receive (t_mq c) h (length old) w = (r, w1)" by force
  have "w' = w1" using s h(1) t by (auto simp: receive_bytes_def split: reception.splits)
  moreover have "h' \<noteq> h" using h h' sz by auto
  moreover have "r = Refused \<or> r = Blocked \<or> (\<exists>bs. r = Received bs)" by (cases r) auto
  ultimately show ?thesis using mq_receiveD(2,3)[OF M t] h'(1) by (auto simp: channel_contents_def)
qed

definition queues_are ::
  "('h, 'w) telemetry \<Rightarrow> 'w \<Rightarrow> byte list list \<Rightarrow> byte list list \<Rightarrow> byte list list \<Rightarrow> bool" where
  "queues_are c w d a b \<longleftrightarrow>
     queue_debug c w = d \<and> queue_attitude c w = a \<and> queue_onboard c w = b"

lemma send_link:
  assumes v: "links_valid c"
  shows "sendDebugMessage (t_mq c) (t_tx c) d w = Inr (ok, w') \<Longrightarrow>
      queues_are c w' (if ok then queue_debug c w @ [enc_DebugMessage d] else queue_debug c w)
        (queue_attitude c w) (queue_onboard c w)"
    and "sendAttitudeMessage (t_mq c) (t_tx c) a w = Inr (ok, w') \<Longrightarrow>
      queues_are c w' (queue_debug c w)
        (if ok then queue_attitude c w @ [enc_AttitudeMessage a] else queue_attitude c w)
        (queue_onboard c w)"
    and "sendOnboardMessage (t_mq c) (t_pad c) (t_tx c) b w = Inr (ok, w') \<Longrightarrow>
      queues_are c w' (queue_debug c w) (queue_attitude c w)
        (if ok then queue_onboard c w @ [enc_OnboardStateMessage (t_pad c) b] else queue_onboard c w)"
proof -
  note vs = links_validD[OF v]
  note f = send_frame[OF vs(1,2)] send_frame[OF vs(1,3)] send_frame[OF vs(2,1)] send_frame[OF vs(2,3)]
    send_frame[OF vs(3,1)] send_frame[OF vs(3,2)]
  show "sendDebugMessage (t_mq c) (t_tx c) d w = Inr (ok, w') \<Longrightarrow>
      queues_are c w' (if ok then queue_debug c w @ [enc_DebugMessage d] else queue_debug c w)
        (queue_attitude c w) (queue_onboard c w)"
    using debug_channel.send_law[OF vs(1), of d w] f(1,2)
    by (auto simp: queues_are_def sendDebugMessage_def)
  show "sendAttitudeMessage (t_mq c) (t_tx c) a w = Inr (ok, w') \<Longrightarrow>
      queues_are c w' (queue_debug c w)
        (if ok then queue_attitude c w @ [enc_AttitudeMessage a] else queue_attitude c w)
        (queue_onboard c w)"
    using attitude_channel.send_law[OF vs(2), of a w] f(3,4)
    by (auto simp: queues_are_def sendAttitudeMessage_def)
  show "sendOnboardMessage (t_mq c) (t_pad c) (t_tx c) b w = Inr (ok, w') \<Longrightarrow>
      queues_are c w' (queue_debug c w) (queue_attitude c w)
        (if ok then queue_onboard c w @ [enc_OnboardStateMessage (t_pad c) b] else queue_onboard c w)"
    using onboard_channel.send_law[OF vs(3), of b w] f(5,6)
    by (auto simp: queues_are_def sendOnboardMessage_def)
qed

lemma receive_link:
  assumes v: "links_valid c"
  shows "queue_debug c w = enc_DebugMessage d # rest \<Longrightarrow>
      \<exists>w'. receiveDebugMessage (t_mq c) (t_rx c) q w = Some (Inr (True, d, w'))
        \<and> queues_are c w' rest (queue_attitude c w) (queue_onboard c w)"
    and "queue_attitude c w = enc_AttitudeMessage a # rest \<Longrightarrow>
      \<exists>w'. receiveAttitudeMessage (t_mq c) (t_rx c) q' w = Some (Inr (True, a, w'))
        \<and> queues_are c w' (queue_debug c w) rest (queue_onboard c w)"
    and "queue_onboard c w = enc_OnboardStateMessage (t_pad c) b # rest \<Longrightarrow> loggable b \<Longrightarrow>
      \<exists>w'. receiveOnboardMessage (t_mq c) (t_pad c) (t_rx c) q'' w = Some (Inr (True, b, w'))
        \<and> queues_are c w' (queue_debug c w) (queue_attitude c w) rest"
proof -
  note vs = links_validD[OF v]
  note f = receive_frame[OF vs(1,2)] receive_frame[OF vs(1,3)] receive_frame[OF vs(2,1)]
    receive_frame[OF vs(2,3)] receive_frame[OF vs(3,1)] receive_frame[OF vs(3,2)]
  show "\<exists>w'. receiveDebugMessage (t_mq c) (t_rx c) q w = Some (Inr (True, d, w'))
      \<and> queues_are c w' rest (queue_attitude c w) (queue_onboard c w)"
    if b: "queue_debug c w = enc_DebugMessage d # rest"
    using debug_channel.receive_law[OF vs(1) _ b, of q] f(1,2)
    by (fastforce simp: queues_are_def receiveDebugMessage_def res_simps)
  show "\<exists>w'. receiveAttitudeMessage (t_mq c) (t_rx c) q' w = Some (Inr (True, a, w'))
      \<and> queues_are c w' (queue_debug c w) rest (queue_onboard c w)"
    if b: "queue_attitude c w = enc_AttitudeMessage a # rest"
    using attitude_channel.receive_law[OF vs(2) _ b, of q'] f(3,4)
    by (fastforce simp: queues_are_def receiveAttitudeMessage_def res_simps)
  show "\<exists>w'. receiveOnboardMessage (t_mq c) (t_pad c) (t_rx c) q'' w = Some (Inr (True, b, w'))
      \<and> queues_are c w' (queue_debug c w) (queue_attitude c w) rest"
    if b: "queue_onboard c w = enc_OnboardStateMessage (t_pad c) b # rest" and l: "loggable b"
  proof -
    obtain w' where r: "receiveOnboardMessage (t_mq c) (t_pad c) (t_rx c) q'' w = Some (Inr (True, b, w'))"
      "queue_onboard c w' = rest" using onboard_channel.receive_law[OF vs(3) l b, of q''] by blast
    then obtain bs ok where "receive_bytes (t_mq c) (r_onboardMessageQueue (t_rx c))
        (enc_OnboardStateMessage (t_pad c) q'') w = Some (Inr (ok, bs, w'))"
      by (auto simp: receiveOnboardMessage_def res_simps split: if_splits)
    from f(5)[OF _ this] f(6)[OF _ this] r show ?thesis by (auto simp: queues_are_def)
  qed
qed

end
