(* ===== verification/TelemetryLink.thy ===== *)
theory TelemetryLink
  imports TelemetryReaders
begin

section \<open>The SoM and a reader, interleaved\<close>

text \<open>
  Sender and reader run in different processes. A state of the link is the queues, the point of
  \<^verbatim>\<open>SomController::sendTelemetry\<close> the sender is at, the point of control of the reader, and the history: the rounds the sender
  began, whether some send found its queue full (\<open>l_lost\<close>), and the rounds the reader finished. Each
  send and each receive is one step; a receive on an empty queue is no step. The lemmas hold for every
  interleaving: without a loss the reader's rounds are the sender's; with losses each of the three fields
  still arrives in order and at most once, but rounds may be torn apart.
\<close>

datatype sender_pc =
    Idle
  | SendAttitude AttitudeMessage OnboardStateMessage
  | SendOnboard OnboardStateMessage

record 'w link =
  l_queues :: 'w
  l_sender :: sender_pc
  l_reader :: reader_pc
  l_sent :: "telemetry_round list"
  l_lost :: bool
  l_out :: "telemetry_round list"

type_synonym ('h, 'w) reader =
  "('h, 'w) telemetry \<Rightarrow> reader_pc \<Rightarrow> 'w \<Rightarrow> ((reader_pc \<times> telemetry_round list \<times> 'w) res) option"

inductive link_step :: "('h, 'w) telemetry \<Rightarrow> ('h, 'w) reader \<Rightarrow> 'w link \<Rightarrow> 'w link \<Rightarrow> bool"
  for c :: "('h, 'w) telemetry" and step :: "('h, 'w) reader" where
  send_debug: "l_sender s = Idle \<Longrightarrow> loggable b
    \<Longrightarrow> sendDebugMessage (t_mq c) (t_tx c) d (l_queues s) = Inr (ok, w')
    \<Longrightarrow> link_step c step s (s\<lparr>l_queues := w', l_sender := SendAttitude a b,
          l_sent := l_sent s @ [(d, a, b)], l_lost := l_lost s \<or> \<not> ok\<rparr>)"
| send_attitude: "l_sender s = SendAttitude a b
    \<Longrightarrow> sendAttitudeMessage (t_mq c) (t_tx c) a (l_queues s) = Inr (ok, w')
    \<Longrightarrow> link_step c step s (s\<lparr>l_queues := w', l_sender := SendOnboard b, l_lost := l_lost s \<or> \<not> ok\<rparr>)"
| send_onboard: "l_sender s = SendOnboard b
    \<Longrightarrow> sendOnboardMessage (t_mq c) (t_pad c) (t_tx c) b (l_queues s) = Inr (ok, w')
    \<Longrightarrow> link_step c step s (s\<lparr>l_queues := w', l_sender := Idle, l_lost := l_lost s \<or> \<not> ok\<rparr>)"
| read: "step c (l_reader s) (l_queues s) = Some (Inr (pc', out, w'))
    \<Longrightarrow> link_step c step s (s\<lparr>l_queues := w', l_reader := pc', l_out := l_out s @ out\<rparr>)"

inductive_cases link_stepE: "link_step c step s s'"

definition link_begin :: "'w \<Rightarrow> 'w link" where
  "link_begin w = \<lparr>l_queues = w, l_sender = Idle, l_reader = AtDebug default_DebugMessage,
     l_sent = [], l_lost = False, l_out = []\<rparr>"

abbreviation link_runs :: "('h, 'w) telemetry \<Rightarrow> ('h, 'w) reader \<Rightarrow> 'w link \<Rightarrow> 'w link \<Rightarrow> bool" where
  "link_runs c step \<equiv> (link_step c step)\<^sup>*\<^sup>*"

text \<open>\<^verbatim>\<open>sendTelemetry\<close> without interleaving is three steps of the sender.\<close>

lemma send_three:
  assumes "sendDebugMessage (t_mq c) (t_tx c) d w = Inr (k1, w1)"
    and "sendAttitudeMessage (t_mq c) (t_tx c) a w1 = Inr (k2, w2)"
    and "sendOnboardMessage (t_mq c) (t_pad c) (t_tx c) b w2 = Inr (k3, w3)"
    and "l_queues s = w" "l_sender s = Idle" "loggable b"
  shows "link_runs c step s (s\<lparr>l_sent := l_sent s @ [(d, a, b)], l_queues := w3, l_sender := Idle,
    l_lost := ((l_lost s \<or> \<not> k1) \<or> \<not> k2) \<or> \<not> k3\<rparr>)"
proof -
  let ?s1 = "s\<lparr>l_queues := w1, l_sender := SendAttitude a b,
      l_sent := l_sent s @ [(d, a, b)], l_lost := l_lost s \<or> \<not> k1\<rparr>"
  let ?s2 = "?s1\<lparr>l_queues := w2, l_sender := SendOnboard b, l_lost := l_lost ?s1 \<or> \<not> k2\<rparr>"
  let ?s3 = "?s2\<lparr>l_queues := w3, l_sender := Idle, l_lost := l_lost ?s2 \<or> \<not> k3\<rparr>"
  have "link_step c step s ?s1" by (rule send_debug) (use assms in auto)
  then have "link_runs c step s ?s1" by (rule r_into_rtranclp)
  moreover have "link_step c step ?s1 ?s2" by (rule send_attitude) (use assms in auto)
  ultimately have "link_runs c step s ?s2" by (rule rtranclp.rtrancl_into_rtrancl)
  moreover have "link_step c step ?s2 ?s3" by (rule send_onboard) (use assms in auto)
  ultimately have "link_runs c step s ?s3" by (rule rtranclp.rtrancl_into_rtrancl)
  then show ?thesis by simp
qed

definition telemetry_room :: "('h, 'w) telemetry \<Rightarrow> 'w \<Rightarrow> bool" where
  \<comment> \<open>each of the three queues has room for a message\<close>
  "telemetry_room c w \<longleftrightarrow> length (queue_debug c w) < channel_capacity m_debugMessageQueue c
     \<and> length (queue_attitude c w) < channel_capacity m_attitudeMessageQueue c
     \<and> length (queue_onboard c w) < channel_capacity m_onboardMessageQueue c"

lemma send_three_room:
  assumes v: "links_valid c" and r: "telemetry_room c w"
  shows "\<exists>w1 w2 w3. sendDebugMessage (t_mq c) (t_tx c) d w = Inr (True, w1)
    \<and> sendAttitudeMessage (t_mq c) (t_tx c) a w1 = Inr (True, w2)
    \<and> sendOnboardMessage (t_mq c) (t_pad c) (t_tx c) b w2 = Inr (True, w3)"
proof -
  note vs = links_validD[OF v]
  obtain w1 where 1: "sendDebugMessage (t_mq c) (t_tx c) d w = Inr (True, w1)"
    using debug_channel.send_law[OF vs(1), of d w] r by (auto simp: telemetry_room_def)
  note q1 = send_link(1)[OF v 1]
  obtain w2 where 2: "sendAttitudeMessage (t_mq c) (t_tx c) a w1 = Inr (True, w2)"
    using attitude_channel.send_law[OF vs(2), of a w1] r q1 by (auto simp: telemetry_room_def queues_are_def)
  note q2 = send_link(2)[OF v 2]
  obtain w3 where "sendOnboardMessage (t_mq c) (t_pad c) (t_tx c) b w2 = Inr (True, w3)"
    using onboard_channel.send_law[OF vs(3), of b w2] r q1 q2 by (auto simp: telemetry_room_def queues_are_def)
  with 1 2 show ?thesis by blast
qed

subsection \<open>The stream of one field\<close>

definition fed :: "bool \<Rightarrow> 'a list \<Rightarrow> 'a list \<Rightarrow> bool" where
  \<comment> \<open>\<open>xs\<close> is what was sent, or after a loss a part of it in the same order\<close>
  "fed lost xs ys \<longleftrightarrow> (if lost then subseq xs ys else xs = ys)"

lemma fed_refl: "fed lost xs xs"
  by (simp add: fed_def)

lemma fed_append: "fed lost xs ys \<Longrightarrow> fed lost (xs @ zs) (ys @ zs)"
  by (auto simp: fed_def subseq_append')

lemma fed_weaken: "fed lost xs ys \<Longrightarrow> fed (lost \<or> b) xs ys"
  by (auto simp: fed_def split: if_splits)

lemma fed_send:
  \<comment> \<open>a message is queued, or lost\<close>
  "fed lost (xs @ qs) ys \<Longrightarrow> fed (lost \<or> \<not> ok) (xs @ (if ok then qs @ [p] else qs)) (ys @ [p])"
  using fed_append[of lost "xs @ qs" ys "[p]"]
  by (auto simp: fed_def split: if_splits intro: list_emb_append2)

lemma fed_keep_or_lose:
  \<comment> \<open>a message that was due is queued, or lost\<close>
  assumes "fed lost ((xs @ qs) @ p # ps) ys"
  shows "fed (lost \<or> \<not> ok) ((xs @ (if ok then qs @ [p] else qs)) @ ps) ys"
proof (cases ok)
  case True
  then show ?thesis using assms by simp
next
  case False
  have "subseq ((xs @ qs) @ ps) ((xs @ qs) @ p # ps)" by (intro list_emb_append_mono) auto
  then show ?thesis using assms False subseq_order.trans by (auto simp: fed_def split: if_splits)
qed

fun read_debug :: "reader_pc \<Rightarrow> DebugMessage list" where
  "read_debug (AtDebug d) = []"
| "read_debug (AtAttitude d a) = [d]"
| "read_debug (AtOnboard d a b) = [d]"

fun read_attitude :: "reader_pc \<Rightarrow> AttitudeMessage list" where
  "read_attitude (AtOnboard d a b) = [a]"
| "read_attitude _ = []"

fun due_attitude :: "sender_pc \<Rightarrow> AttitudeMessage list" where
  "due_attitude (SendAttitude a b) = [a]"
| "due_attitude _ = []"

fun due_onboard :: "sender_pc \<Rightarrow> OnboardStateMessage list" where
  "due_onboard (SendAttitude a b) = [b]"
| "due_onboard (SendOnboard b) = [b]"
| "due_onboard Idle = []"

abbreviation debug_of :: "telemetry_round \<Rightarrow> DebugMessage" where "debug_of \<equiv> fst"
abbreviation attitude_of :: "telemetry_round \<Rightarrow> AttitudeMessage" where "attitude_of \<equiv> \<lambda>r. fst (snd r)"
abbreviation onboard_of :: "telemetry_round \<Rightarrow> OnboardStateMessage" where "onboard_of \<equiv> \<lambda>r. snd (snd r)"

definition link_holds ::
  "('h, 'w) telemetry \<Rightarrow> 'w link \<Rightarrow> DebugMessage list \<Rightarrow> AttitudeMessage list
   \<Rightarrow> OnboardStateMessage list \<Rightarrow> bool" where
  \<comment> \<open>with these messages in the queues: what was read, is queued and is due, is what was sent\<close>
  "link_holds c s ds as bs \<longleftrightarrow>
     queue_debug c (l_queues s) = map enc_DebugMessage ds
   \<and> queue_attitude c (l_queues s) = map enc_AttitudeMessage as
   \<and> queue_onboard c (l_queues s) = map (enc_OnboardStateMessage (t_pad c)) bs
   \<and> list_all loggable bs \<and> list_all loggable (due_onboard (l_sender s))
   \<and> list_all loggable (map onboard_of (l_sent s)) \<and> list_all loggable (map onboard_of (l_out s))
   \<and> fed (l_lost s) (map debug_of (l_out s) @ read_debug (l_reader s) @ ds) (map debug_of (l_sent s))
   \<and> fed (l_lost s) ((map attitude_of (l_out s) @ read_attitude (l_reader s) @ as)
        @ due_attitude (l_sender s)) (map attitude_of (l_sent s))
   \<and> fed (l_lost s) ((map onboard_of (l_out s) @ bs) @ due_onboard (l_sender s)) (map onboard_of (l_sent s))"

definition link_inv :: "('h, 'w) telemetry \<Rightarrow> 'w link \<Rightarrow> bool" where
  "link_inv c s \<longleftrightarrow> (\<exists>ds as bs. link_holds c s ds as bs)"

lemma link_inv_begin:
  assumes "queue_debug c w = []" "queue_attitude c w = []" "queue_onboard c w = []"
  shows "link_inv c (link_begin w)"
proof -
  have "link_holds c (link_begin w) [] [] []"
    using assms by (simp add: link_holds_def link_begin_def fed_refl)
  then show ?thesis by (auto simp: link_inv_def)
qed

lemmas link_fed = fed_append fed_weaken fed_send fed_keep_or_lose

lemma send_preserves:
  assumes v: "links_valid c" and h: "link_holds c s ds as bs"
  shows "l_sender s = Idle \<Longrightarrow> loggable b
      \<Longrightarrow> sendDebugMessage (t_mq c) (t_tx c) d (l_queues s) = Inr (ok, w')
      \<Longrightarrow> link_holds c (s\<lparr>l_queues := w', l_sender := SendAttitude a b,
            l_sent := l_sent s @ [(d, a, b)], l_lost := l_lost s \<or> \<not> ok\<rparr>)
          (if ok then ds @ [d] else ds) as bs"
    and "l_sender s = SendAttitude a b
      \<Longrightarrow> sendAttitudeMessage (t_mq c) (t_tx c) a (l_queues s) = Inr (ok, w')
      \<Longrightarrow> link_holds c (s\<lparr>l_queues := w', l_sender := SendOnboard b, l_lost := l_lost s \<or> \<not> ok\<rparr>)
          ds (if ok then as @ [a] else as) bs"
    and "l_sender s = SendOnboard b
      \<Longrightarrow> sendOnboardMessage (t_mq c) (t_pad c) (t_tx c) b (l_queues s) = Inr (ok, w')
      \<Longrightarrow> link_holds c (s\<lparr>l_queues := w', l_sender := Idle, l_lost := l_lost s \<or> \<not> ok\<rparr>)
          ds as (if ok then bs @ [b] else bs)"
proof -
  from h have f:
    "fed (l_lost s) (map debug_of (l_out s) @ read_debug (l_reader s) @ ds) (map debug_of (l_sent s))"
    "fed (l_lost s) ((map attitude_of (l_out s) @ read_attitude (l_reader s) @ as)
        @ due_attitude (l_sender s)) (map attitude_of (l_sent s))"
    "fed (l_lost s) ((map onboard_of (l_out s) @ bs) @ due_onboard (l_sender s)) (map onboard_of (l_sent s))"
    by (auto simp: link_holds_def)
  show "link_holds c (s\<lparr>l_queues := w', l_sender := SendAttitude a b,
            l_sent := l_sent s @ [(d, a, b)], l_lost := l_lost s \<or> \<not> ok\<rparr>)
          (if ok then ds @ [d] else ds) as bs"
    if i: "l_sender s = Idle" and l: "loggable b"
      and sd: "sendDebugMessage (t_mq c) (t_tx c) d (l_queues s) = Inr (ok, w')"
    using send_link(1)[OF v sd] h l i fed_send[OF f(1)[unfolded append_assoc[symmetric]], of ok d]
      fed_weaken[OF fed_append[OF f(2), of "[a]"], of "\<not> ok"] fed_weaken[OF fed_append[OF f(3), of "[b]"], of "\<not> ok"]
    by (simp add: link_holds_def queues_are_def)
  show "link_holds c (s\<lparr>l_queues := w', l_sender := SendOnboard b, l_lost := l_lost s \<or> \<not> ok\<rparr>)
          ds (if ok then as @ [a] else as) bs"
    if i: "l_sender s = SendAttitude a b"
      and sa: "sendAttitudeMessage (t_mq c) (t_tx c) a (l_queues s) = Inr (ok, w')"
    using send_link(2)[OF v sa] h i fed_keep_or_lose[of "l_lost s"
        "map attitude_of (l_out s) @ read_attitude (l_reader s)" as a "[]" "map attitude_of (l_sent s)" ok]
      fed_weaken[OF f(1), of "\<not> ok"] fed_weaken[OF f(3), of "\<not> ok"]
    by (simp add: link_holds_def queues_are_def)
  show "link_holds c (s\<lparr>l_queues := w', l_sender := Idle, l_lost := l_lost s \<or> \<not> ok\<rparr>)
          ds as (if ok then bs @ [b] else bs)"
    if i: "l_sender s = SendOnboard b"
      and so: "sendOnboardMessage (t_mq c) (t_pad c) (t_tx c) b (l_queues s) = Inr (ok, w')"
    using send_link(3)[OF v so] h i fed_keep_or_lose[of "l_lost s"
        "map onboard_of (l_out s)" bs b "[]" "map onboard_of (l_sent s)" ok]
      fed_weaken[OF f(1), of "\<not> ok"] fed_weaken[OF f(2), of "\<not> ok"]
    by (simp add: link_holds_def queues_are_def)
qed

lemma rounds_equal:
  "map debug_of xs = map debug_of ys \<Longrightarrow> map attitude_of xs = map attitude_of ys
   \<Longrightarrow> map onboard_of xs = map onboard_of ys \<Longrightarrow> xs = ys"
  by (induction xs arbitrary: ys) (auto simp: map_eq_Cons_conv Cons_eq_map_conv prod_eq_iff)

lemma take_map_append: "map f xs = map f ys @ zs \<Longrightarrow> map f (take (length ys) xs) = map f ys"
  by (metis append_eq_conv_conj length_map take_map)

lemma link_aligned:
  assumes "link_inv c s" "\<not> l_lost s"
  shows "take (length (l_out s)) (l_sent s) = l_out s"
proof -
  from assms obtain ds as bs where "link_holds c s ds as bs" by (auto simp: link_inv_def)
  then have "map debug_of (l_sent s) = map debug_of (l_out s) @ (read_debug (l_reader s) @ ds)"
    "map attitude_of (l_sent s) = map attitude_of (l_out s) @ (read_attitude (l_reader s) @ as @ due_attitude (l_sender s))"
    "map onboard_of (l_sent s) = map onboard_of (l_out s) @ (bs @ due_onboard (l_sender s))"
    using assms(2) by (auto simp: link_holds_def fed_def)
  from this[THEN take_map_append] show ?thesis by (rule rounds_equal)
qed

lemma fed_prefix: "fed lost (xs @ ys) zs \<Longrightarrow> subseq xs zs"
  using subseq_order.trans[OF prefix_imp_subseq[of xs "xs @ ys"], of zs]
  by (auto simp: fed_def prefix_imp_subseq split: if_splits)

lemma link_in_order:
  assumes "link_inv c s"
  shows "subseq (map debug_of (l_out s)) (map debug_of (l_sent s))
    \<and> subseq (map attitude_of (l_out s)) (map attitude_of (l_sent s))
    \<and> subseq (map onboard_of (l_out s)) (map onboard_of (l_sent s))"
proof -
  from assms obtain ds as bs where "link_holds c s ds as bs" by (auto simp: link_inv_def)
  then have "fed (l_lost s) (map debug_of (l_out s) @ (read_debug (l_reader s) @ ds)) (map debug_of (l_sent s))"
    "fed (l_lost s) (map attitude_of (l_out s) @ (read_attitude (l_reader s) @ as @ due_attitude (l_sender s)))
       (map attitude_of (l_sent s))"
    "fed (l_lost s) (map onboard_of (l_out s) @ (bs @ due_onboard (l_sender s))) (map onboard_of (l_sent s))"
    by (auto simp: link_holds_def)
  from this[THEN fed_prefix] show ?thesis by blast
qed

lemma link_out_loggable: "link_inv c s \<Longrightarrow> list_all loggable (map onboard_of (l_out s))"
  by (auto simp: link_inv_def link_holds_def)

fun reads_done :: "reader_pc \<Rightarrow> nat" where
  "reads_done (AtDebug d) = 0"
| "reads_done (AtAttitude d a) = 1"
| "reads_done (AtOnboard d a b) = 2"

definition link_rank :: "'w link \<Rightarrow> nat" where
  "link_rank s = 3 * length (l_out s) + reads_done (l_reader s)"

lemma link_lengths:
  assumes "link_holds c s ds as bs" "\<not> l_lost s" "l_sender s = Idle"
  shows "length (l_sent s) = length (l_out s) + length (read_debug (l_reader s)) + length ds"
    "length (l_sent s) = length (l_out s) + length (read_attitude (l_reader s)) + length as"
    "length (l_sent s) = length (l_out s) + length bs"
proof -
  have "map debug_of (l_sent s) = map debug_of (l_out s) @ read_debug (l_reader s) @ ds"
    "map attitude_of (l_sent s) = map attitude_of (l_out s) @ read_attitude (l_reader s) @ as"
    "map onboard_of (l_sent s) = map onboard_of (l_out s) @ bs"
    using assms by (auto simp: link_holds_def fed_def)
  from this[THEN arg_cong[where f = length]] show
    "length (l_sent s) = length (l_out s) + length (read_debug (l_reader s)) + length ds"
    "length (l_sent s) = length (l_out s) + length (read_attitude (l_reader s)) + length as"
    "length (l_sent s) = length (l_out s) + length bs" by simp_all
qed

subsection \<open>The readers\<close>

locale telemetry_reader =
  fixes step :: "('h, 'w) reader"
  assumes debug_law: "links_valid c \<Longrightarrow> queue_debug c w = enc_DebugMessage d # rest
      \<Longrightarrow> \<exists>w'. step c (AtDebug q) w = Some (Inr (AtAttitude d default_AttitudeMessage, [], w'))
        \<and> queues_are c w' rest (queue_attitude c w) (queue_onboard c w)"
    and attitude_law: "links_valid c \<Longrightarrow> queue_attitude c w = enc_AttitudeMessage a # rest
      \<Longrightarrow> \<exists>w'. step c (AtAttitude d q') w = Some (Inr (AtOnboard d a default_OnboardStateMessage, [], w'))
        \<and> queues_are c w' (queue_debug c w) rest (queue_onboard c w)"
    and onboard_law: "links_valid c \<Longrightarrow> queue_onboard c w = enc_OnboardStateMessage (t_pad c) b # rest
      \<Longrightarrow> loggable b
      \<Longrightarrow> \<exists>w'. step c (AtOnboard d a q'') w = Some (Inr (AtDebug default_DebugMessage, [(d, a, b)], w'))
        \<and> queues_are c w' (queue_debug c w) (queue_attitude c w) rest"
    and empty_law: "links_valid c \<Longrightarrow> queue_debug c w = [] \<Longrightarrow> step c (AtDebug q) w = None"
      "links_valid c \<Longrightarrow> queue_attitude c w = [] \<Longrightarrow> step c (AtAttitude d q') w = None"
      "links_valid c \<Longrightarrow> queue_onboard c w = [] \<Longrightarrow> step c (AtOnboard d a q'') w = None"
begin

text \<open>At each point a read takes the head of its queue, or blocks when the queue is empty.\<close>

lemma read_holds_debug:
  assumes v: "links_valid c" and h: "link_holds c s ds as bs" and r: "l_reader s = AtDebug q"
  shows "ds = [] \<and> step c (l_reader s) (l_queues s) = None
    \<or> (\<exists>d ds' w'. ds = d # ds'
        \<and> step c (l_reader s) (l_queues s) = Some (Inr (AtAttitude d default_AttitudeMessage, [], w'))
        \<and> link_holds c (s\<lparr>l_queues := w', l_reader := AtAttitude d default_AttitudeMessage,
            l_out := l_out s @ []\<rparr>) ds' as bs)"
proof -
  have qu: "queue_debug c (l_queues s) = map enc_DebugMessage ds" using h by (simp add: link_holds_def)
  show ?thesis
  proof (cases ds)
    case Nil
    then show ?thesis using empty_law(1)[OF v, of "l_queues s" q] qu r by simp
  next
    case (Cons d ds')
    then obtain w' where "step c (AtDebug q) (l_queues s) = Some (Inr (AtAttitude d default_AttitudeMessage, [], w'))"
      "queues_are c w' (map enc_DebugMessage ds') (queue_attitude c (l_queues s)) (queue_onboard c (l_queues s))"
      using debug_law[OF v, of "l_queues s" d "map enc_DebugMessage ds'" q] qu by auto
    then show ?thesis using Cons h r by (simp add: link_holds_def queues_are_def)
  qed
qed

lemma read_holds_attitude:
  assumes v: "links_valid c" and h: "link_holds c s ds as bs" and r: "l_reader s = AtAttitude d q"
  shows "as = [] \<and> step c (l_reader s) (l_queues s) = None
    \<or> (\<exists>a as' w'. as = a # as'
        \<and> step c (l_reader s) (l_queues s) = Some (Inr (AtOnboard d a default_OnboardStateMessage, [], w'))
        \<and> link_holds c (s\<lparr>l_queues := w', l_reader := AtOnboard d a default_OnboardStateMessage,
            l_out := l_out s @ []\<rparr>) ds as' bs)"
proof -
  have qu: "queue_attitude c (l_queues s) = map enc_AttitudeMessage as" using h by (simp add: link_holds_def)
  show ?thesis
  proof (cases as)
    case Nil
    then show ?thesis using empty_law(2)[OF v, of "l_queues s" d q] qu r by simp
  next
    case (Cons a as')
    then obtain w' where "step c (AtAttitude d q) (l_queues s)
        = Some (Inr (AtOnboard d a default_OnboardStateMessage, [], w'))"
      "queues_are c w' (queue_debug c (l_queues s)) (map enc_AttitudeMessage as') (queue_onboard c (l_queues s))"
      using attitude_law[OF v, of "l_queues s" a "map enc_AttitudeMessage as'" d q] qu by auto
    then show ?thesis using Cons h r by (simp add: link_holds_def queues_are_def)
  qed
qed

lemma read_holds_onboard:
  assumes v: "links_valid c" and h: "link_holds c s ds as bs" and r: "l_reader s = AtOnboard d a q"
  shows "bs = [] \<and> step c (l_reader s) (l_queues s) = None
    \<or> (\<exists>b bs' w'. bs = b # bs'
        \<and> step c (l_reader s) (l_queues s) = Some (Inr (AtDebug default_DebugMessage, [(d, a, b)], w'))
        \<and> link_holds c (s\<lparr>l_queues := w', l_reader := AtDebug default_DebugMessage,
            l_out := l_out s @ [(d, a, b)]\<rparr>) ds as bs')"
proof -
  have qu: "queue_onboard c (l_queues s) = map (enc_OnboardStateMessage (t_pad c)) bs" "list_all loggable bs"
    using h by (auto simp: link_holds_def)
  show ?thesis
  proof (cases bs)
    case Nil
    then show ?thesis using empty_law(3)[OF v, of "l_queues s" d a q] qu r by simp
  next
    case (Cons b bs')
    then obtain w' where "step c (AtOnboard d a q) (l_queues s) = Some (Inr (AtDebug default_DebugMessage, [(d, a, b)], w'))"
      "queues_are c w' (queue_debug c (l_queues s)) (queue_attitude c (l_queues s))
        (map (enc_OnboardStateMessage (t_pad c)) bs')"
      using onboard_law[OF v, of "l_queues s" b "map (enc_OnboardStateMessage (t_pad c)) bs'" d a q] qu by auto
    then show ?thesis using Cons h r by (simp add: link_holds_def queues_are_def)
  qed
qed

lemma read_holds:
  assumes v: "links_valid c" and h: "link_holds c s ds as bs"
  obtains (debug) q d ds' w' where "l_reader s = AtDebug q" "ds = d # ds'"
      "step c (l_reader s) (l_queues s) = Some (Inr (AtAttitude d default_AttitudeMessage, [], w'))"
      "link_holds c (s\<lparr>l_queues := w', l_reader := AtAttitude d default_AttitudeMessage,
         l_out := l_out s @ []\<rparr>) ds' as bs"
    | (attitude) d q a as' w' where "l_reader s = AtAttitude d q" "as = a # as'"
      "step c (l_reader s) (l_queues s) = Some (Inr (AtOnboard d a default_OnboardStateMessage, [], w'))"
      "link_holds c (s\<lparr>l_queues := w', l_reader := AtOnboard d a default_OnboardStateMessage,
         l_out := l_out s @ []\<rparr>) ds as' bs"
    | (onboard) d a q b bs' w' where "l_reader s = AtOnboard d a q" "bs = b # bs'"
      "step c (l_reader s) (l_queues s) = Some (Inr (AtDebug default_DebugMessage, [(d, a, b)], w'))"
      "link_holds c (s\<lparr>l_queues := w', l_reader := AtDebug default_DebugMessage,
         l_out := l_out s @ [(d, a, b)]\<rparr>) ds as bs'"
    | (blocked) "step c (l_reader s) (l_queues s) = None"
      "\<And>q. l_reader s = AtDebug q \<Longrightarrow> ds = []" "\<And>d q. l_reader s = AtAttitude d q \<Longrightarrow> as = []"
      "\<And>d a q. l_reader s = AtOnboard d a q \<Longrightarrow> bs = []"
proof (cases "l_reader s")
  case (AtDebug q)
  then show thesis using read_holds_debug[OF v h AtDebug] debug[of q] blocked by auto
next
  case (AtAttitude d q)
  then show thesis using read_holds_attitude[OF v h AtAttitude] attitude[of d q] blocked by auto
next
  case (AtOnboard d a q)
  then show thesis using read_holds_onboard[OF v h AtOnboard] onboard[of d a q] blocked by auto
qed

lemma step_preserves:
  assumes v: "links_valid c" and i: "link_inv c s" and st: "link_step c step s s'"
  shows "link_inv c s'"
proof -
  from i obtain ds as bs where h: "link_holds c s ds as bs" by (auto simp: link_inv_def)
  from st show ?thesis
  proof cases
    case (send_debug b d ok w' a)
    show ?thesis unfolding link_inv_def send_debug(1) using send_preserves(1)[OF v h send_debug(2-)] by blast
  next
    case (send_attitude a b ok w')
    show ?thesis unfolding link_inv_def send_attitude(1) using send_preserves(2)[OF v h send_attitude(2-)] by blast
  next
    case (send_onboard b ok w')
    show ?thesis unfolding link_inv_def send_onboard(1) using send_preserves(3)[OF v h send_onboard(2-)] by blast
  next
    case (read pc' out w')
    then show ?thesis by (cases rule: read_holds[OF v h]) (auto simp: link_inv_def)
  qed
qed

lemma reachable_inv:
  assumes "links_valid c" "queue_debug c w = []" "queue_attitude c w = []" "queue_onboard c w = []"
    and "link_runs c step (link_begin w) s"
  shows "link_inv c s"
  using assms(5) by (induction rule: rtranclp_induct) (auto intro: link_inv_begin assms step_preserves)

lemma reader_defined: "links_valid c \<Longrightarrow> link_inv c s \<Longrightarrow> step c (l_reader s) (l_queues s) \<noteq> Some (Inl e)"
proof -
  assume v: "links_valid c" and "link_inv c s"
  then obtain ds as bs where h: "link_holds c s ds as bs" by (auto simp: link_inv_def)
  show ?thesis by (cases rule: read_holds[OF v h]) auto
qed

lemma read_progress:
  assumes v: "links_valid c" and i: "link_inv c s" "\<not> l_lost s" "l_sender s = Idle"
    and r: "link_rank s < 3 * length (l_sent s)"
  shows "\<exists>s'. link_step c step s s' \<and> link_rank s' = Suc (link_rank s) \<and> l_sent s' = l_sent s
    \<and> \<not> l_lost s' \<and> l_sender s' = Idle"
proof -
  from i(1) obtain ds as bs where h: "link_holds c s ds as bs" by (auto simp: link_inv_def)
  note l = link_lengths[OF h i(2,3)]
  from v h show ?thesis
  proof (cases rule: read_holds)
    case (debug q d ds' w')
    note st = link_step.read[of step c s, OF debug(3)]
    show ?thesis by (rule exI, rule conjI[OF st]) (use debug(1) i in \<open>auto simp: link_rank_def\<close>)
  next
    case (attitude d q a as' w')
    note st = link_step.read[of step c s, OF attitude(3)]
    show ?thesis by (rule exI, rule conjI[OF st]) (use attitude(1) i in \<open>auto simp: link_rank_def\<close>)
  next
    case (onboard d a q b bs' w')
    note st = link_step.read[of step c s, OF onboard(3)]
    show ?thesis by (rule exI, rule conjI[OF st]) (use onboard(1) i in \<open>auto simp: link_rank_def\<close>)
  next
    case blocked
    then have False using l r by (cases "l_reader s") (auto simp: link_rank_def)
    then show ?thesis ..
  qed
qed

lemma catches_up:
  assumes v: "links_valid c" and i: "link_inv c s" "\<not> l_lost s" "l_sender s = Idle"
  shows "\<exists>s'. link_runs c step s s' \<and> l_out s' = l_sent s
    \<and> link_inv c s' \<and> \<not> l_lost s' \<and> l_sender s' = Idle \<and> l_sent s' = l_sent s"
  using i
proof (induction "3 * length (l_sent s) - link_rank s" arbitrary: s)
  case 0
  from 0(2) obtain ds as bs where h: "link_holds c s ds as bs" by (auto simp: link_inv_def)
  have "length (l_sent s) \<le> length (l_out s)"
    using 0(1) link_lengths[OF h 0(3,4)] by (cases "l_reader s") (auto simp: link_rank_def)
  then have "l_out s = l_sent s" using link_aligned[OF 0(2,3)] by simp
  then show ?case using 0(2-4) by blast
next
  case (Suc n)
  then have "link_rank s < 3 * length (l_sent s)" by simp
  from read_progress[OF v Suc(3-5) this] obtain s1 where s1: "link_step c step s s1"
    "link_rank s1 = Suc (link_rank s)" "l_sent s1 = l_sent s" "\<not> l_lost s1" "l_sender s1 = Idle" by blast
  have "n = 3 * length (l_sent s1) - link_rank s1" using Suc(2) s1(2,3) by simp
  from Suc(1)[OF this step_preserves[OF v Suc(3) s1(1)] s1(4,5)] obtain s' where
    s': "link_runs c step s1 s'" "l_out s' = l_sent s1" "link_inv c s'" "\<not> l_lost s'" "l_sender s' = Idle"
      "l_sent s' = l_sent s1" by blast
  from converse_rtranclp_into_rtranclp[of "link_step c step", OF s1(1) s'(1)] s'(2-) s1(3) show ?case
    by (intro exI[of _ s']) simp
qed

end

lemma receive_link_empty:
  assumes v: "links_valid c"
  shows "queue_debug c w = [] \<Longrightarrow> receiveDebugMessage (t_mq c) (t_rx c) q w = None"
    and "queue_attitude c w = [] \<Longrightarrow> receiveAttitudeMessage (t_mq c) (t_rx c) q' w = None"
    and "queue_onboard c w = [] \<Longrightarrow> receiveOnboardMessage (t_mq c) (t_pad c) (t_rx c) q'' w = None"
proof -
  note vs = links_validD[OF v]
  show "queue_debug c w = [] \<Longrightarrow> receiveDebugMessage (t_mq c) (t_rx c) q w = None"
    by (rule debug_channel.receive_empty[OF vs(1)])
  show "queue_attitude c w = [] \<Longrightarrow> receiveAttitudeMessage (t_mq c) (t_rx c) q' w = None"
    by (rule attitude_channel.receive_empty[OF vs(2)])
  show "queue_onboard c w = [] \<Longrightarrow> receiveOnboardMessage (t_mq c) (t_pad c) (t_rx c) q'' w = None"
    by (rule onboard_channel.receive_empty[OF vs(3)])
qed

abbreviation telemetry_thread :: "('h, 'w) reader" where
  "telemetry_thread \<equiv> \<lambda>c. thread_step (t_mq c) (t_pad c) (t_rx c)"

abbreviation pc_program :: "('h, 'w) reader" where
  "pc_program \<equiv> \<lambda>c. pc_step (t_mq c) (t_pad c) (t_rx c)"

interpretation thread_reader: telemetry_reader telemetry_thread
  by unfold_locales (fastforce dest: receive_link simp: receive_link_empty)+

interpretation pc_reader: telemetry_reader pc_program
  by unfold_locales (fastforce dest: receive_link simp: receive_link_empty)+

subsection \<open>Schedules\<close>

text \<open>An executable form of the step relation: a schedule names the step to take, and whether it can be taken is computed.\<close>

datatype link_event = Publish telemetry_round | Continue | Read

fun link_do :: "('h, 'w) telemetry \<Rightarrow> ('h, 'w) reader \<Rightarrow> link_event \<Rightarrow> 'w link \<Rightarrow> 'w link option" where
  "link_do c step (Publish (d, a, b)) s =
     (case (l_sender s, sendDebugMessage (t_mq c) (t_tx c) d (l_queues s)) of
        (Idle, Inr (ok, w')) \<Rightarrow>
          if loggable b then Some (s\<lparr>l_queues := w', l_sender := SendAttitude a b,
            l_sent := l_sent s @ [(d, a, b)], l_lost := l_lost s \<or> \<not> ok\<rparr>) else None
      | _ \<Rightarrow> None)"
| "link_do c step Continue s =
     (case l_sender s of
        Idle \<Rightarrow> None
      | SendAttitude a b \<Rightarrow>
          (case sendAttitudeMessage (t_mq c) (t_tx c) a (l_queues s) of
             Inl e \<Rightarrow> None
           | Inr (ok, w') \<Rightarrow> Some (s\<lparr>l_queues := w', l_sender := SendOnboard b, l_lost := l_lost s \<or> \<not> ok\<rparr>))
      | SendOnboard b \<Rightarrow>
          (case sendOnboardMessage (t_mq c) (t_pad c) (t_tx c) b (l_queues s) of
             Inl e \<Rightarrow> None
           | Inr (ok, w') \<Rightarrow> Some (s\<lparr>l_queues := w', l_sender := Idle, l_lost := l_lost s \<or> \<not> ok\<rparr>)))"
| "link_do c step Read s =
     (case step c (l_reader s) (l_queues s) of
        Some (Inr (pc', out, w')) \<Rightarrow> Some (s\<lparr>l_queues := w', l_reader := pc', l_out := l_out s @ out\<rparr>)
      | _ \<Rightarrow> None)"

fun link_play :: "('h, 'w) telemetry \<Rightarrow> ('h, 'w) reader \<Rightarrow> link_event list \<Rightarrow> 'w link \<Rightarrow> 'w link option" where
  "link_play c step [] s = Some s"
| "link_play c step (e # es) s = Option.bind (link_do c step e s) (link_play c step es)"

lemma link_do_step: "link_do c step e s = Some s' \<Longrightarrow> link_step c step s s'"
proof (induction c step e s rule: link_do.induct)
  case (1 c step d a b s)
  then show ?case
    by (auto split: sender_pc.splits sum.splits prod.splits if_splits intro: link_step.send_debug)
next
  case (2 c step s)
  then show ?case
    by (auto split: sender_pc.splits sum.splits prod.splits intro: link_step.send_attitude link_step.send_onboard)
next
  case (3 c step s)
  then show ?case by (auto split: option.splits sum.splits prod.splits intro: link_step.read)
qed

lemma link_play_runs: "link_play c step es s = Some s' \<Longrightarrow> link_runs c step s s'"
  by (induction es arbitrary: s)
    (auto simp: bind_eq_Some_conv intro: converse_rtranclp_into_rtranclp dest: link_do_step)

subsection \<open>Properties\<close>

definition shm_single :: "(qid, shm) telemetry" where
  \<comment> \<open>queues of one message\<close>
  "shm_single = shm_telemetry\<lparr>
     t_tx := (t_tx shm_telemetry)\<lparr>m_debugMessageQueue := Some (1, 1, 20),
        m_attitudeMessageQueue := Some (2, 1, 32), m_onboardMessageQueue := Some (3, 1, 12)\<rparr>,
     t_rx := (t_rx shm_telemetry)\<lparr>r_debugMessageQueue := Some (1, 1, 20),
        r_attitudeMessageQueue := Some (2, 1, 32), r_onboardMessageQueue := Some (3, 1, 12)\<rparr>\<rparr>"

lemma shm_links_valid: "links_valid shm_telemetry" "links_valid shm_single"
  using shm_telemetry_valid
  by (simp_all add: links_valid_def shm_single_def channel_valid_def shm_telemetry_def)

lemma shm_links_empty:
  "queue_debug shm_telemetry shm_empty = []" "queue_attitude shm_telemetry shm_empty = []"
  "queue_onboard shm_telemetry shm_empty = []" "queue_debug shm_single shm_empty = []"
  "queue_attitude shm_single shm_empty = []" "queue_onboard shm_single shm_empty = []"
  by (simp_all add: channel_contents_def shm_telemetry_def shm_single_def shm_empty_def shm_cont_def)

definition numbered :: "nat \<Rightarrow> telemetry_round" where
  "numbered n = (default_DebugMessage\<lparr>mainLoopCounter := of_nat n\<rparr>,
     default_AttitudeMessage\<lparr>rollAngle := of_nat n\<rparr>, default_OnboardStateMessage\<lparr>mcuTimestamp := of_nat n\<rparr>)"

definition overflow_schedule :: "link_event list" where
  "overflow_schedule = [Publish (numbered 1), Continue, Continue, Publish (numbered 2), Read, Read, Continue,
     Continue, Read, Publish (numbered 3), Continue, Continue, Read, Read, Read]"

lemma overflow_schedule_plays:
  "map_option (\<lambda>s. (l_sent s, l_out s)) (link_play shm_single telemetry_thread overflow_schedule (link_begin shm_empty))
   = Some ([numbered 1, numbered 2, numbered 3],
       [numbered 1, (debug_of (numbered 3), attitude_of (numbered 2), onboard_of (numbered 3))])"
  by code_simp

text \<open>
  C10 Telemetry across the processes, for every interleaving of the SoM's three sends with the receives of the
  control station's thread, or of the PC program: as long as no queue was full, the rounds the reader
  puts together are the rounds the SoM published, in order; after a loss the messages of each kind
  still arrive in order and at most once; and no receive faults.
\<close>
theorem telemetry_rounds:
  fixes step :: "('h, 'w) reader"
  assumes "links_valid c" "queue_debug c w = []" "queue_attitude c w = []" "queue_onboard c w = []"
    and "step = telemetry_thread \<or> step = pc_program" "link_runs c step (link_begin w) s"
  shows "(\<not> l_lost s \<longrightarrow> take (length (l_out s)) (l_sent s) = l_out s)
    \<and> subseq (map debug_of (l_out s)) (map debug_of (l_sent s))
    \<and> subseq (map attitude_of (l_out s)) (map attitude_of (l_sent s))
    \<and> subseq (map onboard_of (l_out s)) (map onboard_of (l_sent s))
    \<and> (\<forall>e. step c (l_reader s) (l_queues s) \<noteq> Some (Inl e))"
proof -
  have i: "link_inv c s"
    using assms(5,6) thread_reader.reachable_inv[OF assms(1-4), of s] pc_reader.reachable_inv[OF assms(1-4), of s]
    by auto
  have "step c (l_reader s) (l_queues s) \<noteq> Some (Inl e)" for e
    using assms(5) thread_reader.reader_defined[OF assms(1) i, of e] pc_reader.reader_defined[OF assms(1) i, of e]
    by auto
  then show ?thesis using link_aligned[OF i] link_in_order[OF i] by blast
qed

theorem telemetry_rounds_witness:
  "\<exists>s. link_runs shm_single telemetry_thread (link_begin shm_empty) s \<and> length (l_out s) = 2
    \<and> subseq (map attitude_of (l_out s)) (map attitude_of (l_sent s))"
proof -
  obtain s where s: "link_play shm_single telemetry_thread overflow_schedule (link_begin shm_empty) = Some s"
    "length (l_out s) = 2" using overflow_schedule_plays by auto
  from telemetry_rounds[OF shm_links_valid(2) shm_links_empty(4-6) disjI1[OF refl] link_play_runs[OF s(1)]]
  show ?thesis using s(2) link_play_runs[OF s(1)] by blast
qed

end
