(* ===== verification/ControlStation.thy ===== *)
theory ControlStation
  imports TelemetryReaders Stabilize
begin

section \<open>The control station\<close>

text \<open>
  \<^verbatim>\<open>control_station/\<close>: \<^verbatim>\<open>AttitudeIndicator\<close>, \<^verbatim>\<open>HeadingIndicator\<close>, the slot \<^verbatim>\<open>ControlStation::handleMessages\<close> and
  \<^verbatim>\<open>main.cpp\<close> up to the event loop. Qt and the mathematical library are parameters, collected in
  \<open>station\<close>: \<^verbatim>\<open>QString::number\<close>, the sum in \<^verbatim>\<open>QGraphicsItem::moveBy\<close>, sine and cosine. An item is its file, height,
  origin, rotation and position, a label its text. The members \<^verbatim>\<open>m_oldXPosition\<close> and \<^verbatim>\<open>m_oldYPosition\<close> have no initializer: what
  the memory held is an argument of the constructor. The lemmas follow the position of the
  horizon over any number of messages.
\<close>

record station =
  number_int :: "int \<Rightarrow> string"
  number_double :: "u64 \<Rightarrow> string"
  move_add :: "fp \<Rightarrow> fp \<Rightarrow> fp"
  libm_sin :: "fp \<Rightarrow> fp"
  libm_cos :: "fp \<Rightarrow> fp"

definition trig_ok :: "station \<Rightarrow> bool" where
  "trig_ok Q \<longleftrightarrow> (\<forall>x. is_fin x \<longrightarrow>
     is_fin (libm_sin Q x) \<and> \<bar>fp_val (libm_sin Q x)\<bar> \<le> 1 \<and>
     is_fin (libm_cos Q x) \<and> \<bar>fp_val (libm_cos Q x)\<bar> \<le> 1)"

definition move_ok :: "station \<Rightarrow> bool" where
  \<comment> \<open>\<^verbatim>\<open>moveBy(dx, dy)\<close> is \<^verbatim>\<open>setPos(pos() + QPointF(dx, dy))\<close>, on doubles\<close>
  "move_ok Q \<longleftrightarrow> move_add Q = fp_add binary64"

subsection \<open>The indicators\<close>

record svg_item =
  svg_file :: string
  svg_z :: int
  svg_origin :: "int \<times> int"
  svg_rotation :: fp
  svg_x :: fp
  svg_y :: fp

definition new_svg_item :: "string \<Rightarrow> int \<Rightarrow> int \<times> int \<Rightarrow> svg_item" where
  \<comment> \<open>unrotated at the origin; the transformation set, a scaling by 1, is the identity\<close>
  "new_svg_item file z origin =
     \<lparr>svg_file = file, svg_z = z, svg_origin = origin, svg_rotation = Fin 0, svg_x = Fin 0, svg_y = Fin 0\<rparr>"

record AttitudeIndicator =
  m_svgBack :: svg_item
  m_svgFace :: svg_item
  m_svgRing :: svg_item
  m_svgCase :: svg_item
  m_oldXPosition :: fp
  m_oldYPosition :: fp

definition new_AttitudeIndicator :: "fp \<Rightarrow> fp \<Rightarrow> AttitudeIndicator" where
  "new_AttitudeIndicator memX memY =
     \<lparr>m_svgBack = new_svg_item ''/tmp/images/ai/ai_back.svg'' (- 30) (120, 120),
      m_svgFace = new_svg_item ''/tmp/images/ai/ai_face.svg'' (- 20) (120, 120),
      m_svgRing = new_svg_item ''/tmp/images/ai/ai_ring.svg'' (- 10) (120, 120),
      m_svgCase = new_svg_item ''/tmp/images/ai/ai_case.svg'' 10 (0, 0),
      m_oldXPosition = memX, m_oldYPosition = memY\<rparr>"

definition M_PI :: fp where
  "M_PI = fp_of_rat binary64 (314159265358979323846 / 100000000000000000000)"

definition roll_radians :: "fp \<Rightarrow> fp" where
  "roll_radians roll = fdiv (fmul M_PI roll) (Fin 180)"

definition limit_pitch :: "fp \<Rightarrow> fp" where
  "limit_pitch pitch =
     (if fp_less (Fin 30) pitch then Fin 30 else if fp_less pitch (Fin (- 30)) then Fin (- 30) else pitch)"

definition face_delta :: "fp \<Rightarrow> fp" where
  "face_delta pitch = fmul (limit_pitch pitch) (fp_of_rat binary64 (17 / 10))"

definition face_newX :: "station \<Rightarrow> fp \<Rightarrow> fp \<Rightarrow> fp" where
  "face_newX Q roll pitch = fmul (face_delta pitch) (libm_sin Q (roll_radians roll))"

definition face_newY :: "station \<Rightarrow> fp \<Rightarrow> fp \<Rightarrow> fp" where
  "face_newY Q roll pitch = fmul (face_delta pitch) (libm_cos Q (roll_radians roll))"

definition setAttitude :: "station \<Rightarrow> fp \<Rightarrow> fp \<Rightarrow> AttitudeIndicator \<Rightarrow> AttitudeIndicator" where
  "setAttitude Q roll pitch ai =
     ai\<lparr>m_svgBack := (m_svgBack ai)\<lparr>svg_rotation := fp_neg roll\<rparr>,
        m_svgFace := (m_svgFace ai)\<lparr>svg_rotation := fp_neg roll,
          svg_x := move_add Q (svg_x (m_svgFace ai)) (fsub (face_newX Q roll pitch) (m_oldXPosition ai)),
          svg_y := move_add Q (svg_y (m_svgFace ai))
            (fmul (Fin (- 1)) (fsub (face_newY Q roll pitch) (m_oldYPosition ai)))\<rparr>,
        m_svgRing := (m_svgRing ai)\<lparr>svg_rotation := fp_neg roll\<rparr>,
        m_oldXPosition := face_newX Q roll pitch, m_oldYPosition := face_newY Q roll pitch\<rparr>"

record HeadingIndicator =
  hi_svgFace :: svg_item
  hi_svgCase :: svg_item

definition new_HeadingIndicator :: HeadingIndicator where
  "new_HeadingIndicator =
     \<lparr>hi_svgFace = new_svg_item ''/tmp/images/hi/hi_face.svg'' (- 20) (120, 120),
      hi_svgCase = new_svg_item ''/tmp/images/hi/hi_case.svg'' 10 (0, 0)\<rparr>"

definition setHeading :: "fp \<Rightarrow> HeadingIndicator \<Rightarrow> HeadingIndicator" where
  "setHeading heading hi = hi\<lparr>hi_svgFace := (hi_svgFace hi)\<lparr>svg_rotation := heading\<rparr>\<rparr>"

subsection \<open>The window\<close>

record ControlStation =
  ui_mlCount :: string
  ui_txOK :: string
  ui_txTO :: string
  ui_rxOK :: string
  ui_rxTO :: string
  ui_mtm :: string
  ui_thl :: string
  ui_adf :: string
  ui_edf :: string
  ui_rdf :: string
  ui_apt :: string
  ui_gps :: string
  ui_tmp :: string
  ui_chd :: string
  m_attitudeIndicator :: AttitudeIndicator
  m_headingIndicator :: HeadingIndicator

definition new_ControlStation :: "(string \<Rightarrow> string) \<Rightarrow> fp \<Rightarrow> fp \<Rightarrow> ControlStation" where
  \<comment> \<open>the texts are those of \<^verbatim>\<open>controlstation.ui\<close>, by the label's name\<close>
  "new_ControlStation ui memX memY =
     \<lparr>ui_mlCount = ui ''mlCount'', ui_txOK = ui ''txOK'', ui_txTO = ui ''txTO'', ui_rxOK = ui ''rxOK'',
      ui_rxTO = ui ''rxTO'', ui_mtm = ui ''mtm'', ui_thl = ui ''thl'', ui_adf = ui ''adf'',
      ui_edf = ui ''edf'', ui_rdf = ui ''rdf'', ui_apt = ui ''apt'', ui_gps = ui ''gps'',
      ui_tmp = ui ''tmp'', ui_chd = ui ''chd'',
      m_attitudeIndicator = new_AttitudeIndicator memX memY, m_headingIndicator = new_HeadingIndicator\<rparr>"

definition show_debug :: "station \<Rightarrow> DebugMessage \<Rightarrow> ControlStation \<Rightarrow> ControlStation" where
  "show_debug Q m cs =
     cs\<lparr>ui_mlCount := number_int Q (uint (mainLoopCounter m)), ui_txOK := number_int Q (uint (serialWrites m)),
        ui_txTO := number_int Q (uint (serialWriteTimeouts m)), ui_rxOK := number_int Q (uint (serialReads m)),
        ui_rxTO := number_int Q (uint (serialReadTimeouts m))\<rparr>"

definition show_deflections :: "station \<Rightarrow> OnboardStateMessage \<Rightarrow> ControlStation \<Rightarrow> ControlStation" where
  "show_deflections Q m cs =
     cs\<lparr>ui_mtm := number_int Q (uint (mcuTimestamp m div 100)), ui_thl := number_int Q (uint (throttle m)),
        ui_adf := number_int Q (sint (o_aileronDeflection m)),
        ui_edf := number_int Q (sint (o_elevatorDeflection m)),
        ui_rdf := number_int Q (sint (o_rudderDeflection m))\<rparr>"

definition show_attitude :: "station \<Rightarrow> AttitudeMessage \<Rightarrow> ControlStation \<Rightarrow> ControlStation" where
  "show_attitude Q m cs =
     cs\<lparr>ui_chd := number_double Q (courseHeading m),
        m_attitudeIndicator := setAttitude Q (fp_of_bits64 (rollAngle m)) (fp_of_bits64 (pitchAngle m))
          (m_attitudeIndicator cs),
        m_headingIndicator := setHeading (fp_of_bits64 (yawAngle m)) (m_headingIndicator cs)\<rparr>"

definition handleMessages ::
  "station \<Rightarrow> telemetry_round \<Rightarrow> ControlStation \<Rightarrow> unit res \<times> ControlStation" where
  \<comment> \<open>\<^verbatim>\<open>at\<close> throws on a byte that is no enumerator; what was set before stays set\<close>
  "handleMessages Q = (\<lambda>(debugMessage, attitudeMessage, onboardMessage) cs.
     let cs1 = show_deflections Q onboardMessage (show_debug Q debugMessage cs) in
     (case map_at gAutopilotTypeToStr (autopilotType onboardMessage) of
        Inl e \<Rightarrow> (Inl e, cs1)
      | Inr apt \<Rightarrow>
     (case map_at gGpsFixTypeToStr (gpsFix onboardMessage) of
        Inl e \<Rightarrow> (Inl e, cs1\<lparr>ui_apt := apt\<rparr>)
      | Inr gps \<Rightarrow>
          (Inr (), show_attitude Q attitudeMessage
             (cs1\<lparr>ui_apt := apt, ui_gps := gps, ui_tmp := number_int Q (uint (imuTemperature onboardMessage))\<rparr>)))))"

fun handle_all ::
  "station \<Rightarrow> telemetry_round list \<Rightarrow> ControlStation \<Rightarrow> unit res \<times> ControlStation" where
  \<comment> \<open>the emitted signals, delivered to the slot in order\<close>
  "handle_all Q [] cs = (Inr (), cs)"
| "handle_all Q (r # rs) cs =
     (case handleMessages Q r cs of (Inl e, cs') \<Rightarrow> (Inl e, cs') | (Inr _, cs') \<Rightarrow> handle_all Q rs cs')"

definition control_station_begin ::
  "(string \<Rightarrow> string list) \<Rightarrow> (string \<Rightarrow> string option) \<Rightarrow> (string \<Rightarrow> json option)
   \<Rightarrow> (string \<Rightarrow> string) \<Rightarrow> fp \<Rightarrow> fp \<Rightarrow> (ControlStation \<times> 'h TelemetryReceiverMQ) res" where
  \<comment> \<open>\<^verbatim>\<open>main\<close> up to the start of the thread: the result of \<^verbatim>\<open>loadConfig\<close> is ignored\<close>
  "control_station_begin split fs parse ui memX memY =
     (case loadConfig fs parse new_ConfigManager ''../configs/config.json'' of (loaded, cm) \<Rightarrow>
        res_bind loaded (\<lambda>_.
        res_bind (new_TelemetryThread split cm) (\<lambda>rx. Inr (new_ControlStation ui memX memY, rx))))"

subsection \<open>What the window shows\<close>

definition labels :: "ControlStation \<Rightarrow> string list" where
  "labels cs = [ui_mlCount cs, ui_txOK cs, ui_txTO cs, ui_rxOK cs, ui_rxTO cs, ui_mtm cs, ui_thl cs,
     ui_adf cs, ui_edf cs, ui_rdf cs, ui_apt cs, ui_gps cs, ui_tmp cs, ui_chd cs]"

definition labels_of :: "station \<Rightarrow> telemetry_round \<Rightarrow> string list" where
  \<comment> \<open>the specification: every label from the one round\<close>
  "labels_of Q = (\<lambda>(d, a, b).
     map (\<lambda>n. number_int Q (uint n)) [mainLoopCounter d, serialWrites d, serialWriteTimeouts d,
       serialReads d, serialReadTimeouts d, mcuTimestamp b div 100]
     @ [number_int Q (uint (throttle b))]
     @ map (\<lambda>n. number_int Q (sint n)) [o_aileronDeflection b, o_elevatorDeflection b, o_rudderDeflection b]
     @ [the (map_of gAutopilotTypeToStr (autopilotType b)), the (map_of gGpsFixTypeToStr (gpsFix b)),
        number_int Q (uint (imuTemperature b)), number_double Q (courseHeading a)])"

lemma handleMessages_loggable:
  assumes "loggable b"
  shows "\<exists>cs'. handleMessages Q (d, a, b) cs = (Inr (), cs') \<and> labels cs' = labels_of Q (d, a, b)
    \<and> m_attitudeIndicator cs' = setAttitude Q (fp_of_bits64 (rollAngle a)) (fp_of_bits64 (pitchAngle a))
        (m_attitudeIndicator cs)
    \<and> svg_rotation (hi_svgFace (m_headingIndicator cs')) = fp_of_bits64 (yawAngle a)"
proof -
  have "autopilotType b \<in> fst ` set gAutopilotTypeToStr" "gpsFix b \<in> fst ` set gGpsFixTypeToStr"
    using assms by (auto simp: enumerators loggable_def)
  then obtain s t where "map_of gAutopilotTypeToStr (autopilotType b) = Some s"
    "map_of gGpsFixTypeToStr (gpsFix b) = Some t"
    by (metis map_of_eq_None_iff not_None_eq)
  then show ?thesis
    by (simp add: handleMessages_def map_at_def labels_def labels_of_def show_attitude_def show_debug_def
        show_deflections_def setHeading_def Let_def)
qed

lemma handleMessages_throws:
  assumes "\<not> loggable b"
  shows "\<exists>cs'. handleMessages Q (d, a, b) cs = (Inl OutOfRange, cs')
    \<and> m_attitudeIndicator cs' = m_attitudeIndicator cs \<and> ui_tmp cs' = ui_tmp cs
    \<and> ui_mlCount cs' = number_int Q (uint (mainLoopCounter d))"
proof -
  have "autopilotType b \<notin> fst ` set gAutopilotTypeToStr \<or> gpsFix b \<notin> fst ` set gGpsFixTypeToStr"
    using assms by (auto simp: enumerators loggable_def)
  then have "map_of gAutopilotTypeToStr (autopilotType b) = None \<or> map_of gGpsFixTypeToStr (gpsFix b) = None"
    by (simp add: map_of_eq_None_iff)
  then show ?thesis
    by (auto simp: handleMessages_def map_at_def show_attitude_def show_debug_def
        show_deflections_def Let_def split: option.split)
qed

lemma handle_all_append:
  "handle_all Q (rs @ rs') cs = (case handle_all Q rs cs of
     (Inl e, cs') \<Rightarrow> (Inl e, cs') | (Inr _, cs') \<Rightarrow> handle_all Q rs' cs')"
  by (induction rs arbitrary: cs) (auto split: prod.splits sum.splits)

lemma handle_all_defined:
  assumes "list_all loggable (map (\<lambda>r. snd (snd r)) rs)"
  shows "\<exists>cs'. handle_all Q rs cs = (Inr (), cs')"
  using assms
proof (induction rs arbitrary: cs)
  case (Cons r rs)
  obtain d a b where r: "r = (d, a, b)" using prod_cases3 by blast
  obtain cs1 where "handleMessages Q r cs = (Inr (), cs1)"
    using handleMessages_loggable[of b Q d a cs] Cons.prems r by auto
  with Cons show ?case by simp
qed simp

lemma handle_all_last:
  assumes "list_all loggable (map (\<lambda>r. snd (snd r)) rs)" "rs \<noteq> []"
  shows "\<exists>cs'. handle_all Q rs cs = (Inr (), cs') \<and> labels cs' = labels_of Q (last rs)"
proof -
  obtain rs' r where rs: "rs = rs' @ [r]" using assms(2) by (metis append_butlast_last_id)
  obtain d a b where r: "r = (d, a, b)" using prod_cases3 by blast
  obtain cs1 where 1: "handle_all Q rs' cs = (Inr (), cs1)"
    using handle_all_defined[of rs' Q cs] assms(1) rs by auto
  obtain cs2 where "handleMessages Q r cs1 = (Inr (), cs2)" "labels cs2 = labels_of Q r"
    using handleMessages_loggable[of b Q d a cs1] assms(1) rs r by auto
  then show ?thesis by (simp add: rs handle_all_append 1)
qed

end
