(* ===== verification/Horizon.thy ===== *)
theory Horizon
  imports ControlStation
begin

section \<open>The artificial horizon\<close>

text \<open>
  The position of the face of the attitude indicator over a sequence of messages, in double arithmetic. Each call moves
  the face by the difference to the previous target, so up to rounding the moves telescope: after any number of
  calls the face is at its target, minus what the two uninitialized members held at first. One
  message that is not a number makes the position one for good.
\<close>

abbreviation svgFace_x :: "AttitudeIndicator \<Rightarrow> fp" where "svgFace_x ai \<equiv> svg_x (m_svgFace ai)"
abbreviation svgFace_y :: "AttitudeIndicator \<Rightarrow> fp" where "svgFace_y ai \<equiv> svg_y (m_svgFace ai)"

fun attitudes :: "station \<Rightarrow> (fp \<times> fp) list \<Rightarrow> AttitudeIndicator \<Rightarrow> AttitudeIndicator" where
  "attitudes Q [] ai = ai"
| "attitudes Q ((roll, pitch) # as) ai = attitudes Q as (setAttitude Q roll pitch ai)"

lemma attitudes_snoc:
  "attitudes Q (as @ [(roll, pitch)]) ai = setAttitude Q roll pitch (attitudes Q as ai)"
  by (induction as arbitrary: ai) auto

definition angle_ok :: "fp \<Rightarrow> bool" where
  \<comment> \<open>any value a finite \<^verbatim>\<open>float\<close> can have\<close>
  "angle_ok x \<longleftrightarrow> is_fin x \<and> \<bar>fp_val x\<bar> \<le> 2 ^ 128"

subsection \<open>The target of the face\<close>

lemma pow2_bound64:
  assumes "k \<le> 1000"
  shows "representable binary64 (2 ^ k)" "(2 ^ k :: rat) < pow2 (emax binary64 + 1)"
proof -
  show "representable binary64 (2 ^ k)"
    unfolding representable_def by (intro exI[of _ 1] exI[of _ "int k"]) (simp add: pow2_of_nat binary64_def qmin_def)
  have "(2 ^ k :: rat) = pow2 (int k)" by (simp add: pow2_of_nat)
  then show "(2 ^ k :: rat) < pow2 (emax binary64 + 1)" using assms by (simp add: binary64_def)
qed

lemma constants64:
  "M_PI = Fin (884279719003555 / 281474976710656)"
  "fp_of_rat binary64 (17 / 10) = Fin (7656119366529843 / 4503599627370496)"
  by code_simp+

lemma roll_radians_fin:
  assumes "angle_ok roll"
  shows "is_fin (roll_radians roll)"
proof -
  have fr: "is_fin roll" and b: "\<bar>fp_val roll\<bar> \<le> 2 ^ 128" using assms by (auto simp: angle_ok_def)
  have "\<bar>fp_val M_PI * fp_val roll\<bar> \<le> 4 * 2 ^ 128"
    unfolding abs_mult using b by (intro mult_mono) (auto simp: constants64)
  then have m: "\<bar>fp_val M_PI * fp_val roll\<bar> \<le> 2 ^ 130" by simp
  have fpi: "is_fin M_PI" by (simp add: constants64)
  note p = fp_mul_val[OF fpi fr m pow2_bound64[of 130]]
  have p1: "is_fin (fmul M_PI roll)" "fp_val (fmul M_PI roll) = rnd binary64 (fp_val M_PI * fp_val roll)"
    using p by simp_all
  have "\<bar>fp_val (fmul M_PI roll)\<bar> \<le> 2 ^ 130" using rnd_abs_le[OF pow2_bound64(1) m] p1(2) by simp
  then have d: "\<bar>fp_val (fmul M_PI roll) / fp_val (Fin 180)\<bar> \<le> 2 ^ 130" by simp
  show ?thesis unfolding roll_radians_def
    using fp_div_val[OF p1(1) _ _ d pow2_bound64[of 130]] by simp
qed

lemma limit_pitch_bound:
  assumes "is_fin pitch"
  shows "is_fin (limit_pitch pitch) \<and> \<bar>fp_val (limit_pitch pitch)\<bar> \<le> 30"
  using assms fp_less_fin[of "Fin 30" pitch] fp_less_fin[of pitch "Fin (- 30)"]
  by (auto simp: limit_pitch_def)

lemma representable_51: "representable binary64 51"
  using representable_int[of 51 binary64] by (simp add: binary64_def qmin_def)

lemma small_64: "51 < pow2 (emax binary64 + 1)"
  using pow2_bound64(2)[of 6] by simp

lemma face_delta_bound:
  assumes "is_fin pitch"
  shows "is_fin (face_delta pitch) \<and> \<bar>fp_val (face_delta pitch)\<bar> \<le> 51"
proof -
  let ?c = "fp_of_rat binary64 (17 / 10)"
  have c: "is_fin ?c" "\<bar>fp_val ?c\<bar> \<le> 17 / 10" by (simp_all add: constants64)
  note l = limit_pitch_bound[OF assms]
  have "\<bar>fp_val (limit_pitch pitch) * fp_val ?c\<bar> \<le> 30 * (17 / 10)"
    unfolding abs_mult using l c by (intro mult_mono) auto
  then have m: "\<bar>fp_val (limit_pitch pitch) * fp_val ?c\<bar> \<le> 51" by simp
  show ?thesis unfolding face_delta_def
    using fp_mul_val[OF _ c(1) m representable_51 small_64] rnd_abs_le[OF representable_51 m] l by simp
qed

lemma face_target_bound:
  assumes d: "is_fin d" "\<bar>fp_val d\<bar> \<le> 51" and t: "is_fin t" "\<bar>fp_val t\<bar> \<le> 1"
  shows "is_fin (fmul d t) \<and> \<bar>fp_val (fmul d t)\<bar> \<le> 51"
proof -
  have "\<bar>fp_val d * fp_val t\<bar> \<le> 51 * 1" unfolding abs_mult using d t by (intro mult_mono) auto
  then have m: "\<bar>fp_val d * fp_val t\<bar> \<le> 51" by simp
  show ?thesis
    using fp_mul_val[OF d(1) t(1) m representable_51 small_64] rnd_abs_le[OF representable_51 m] by simp
qed

lemma face_targets:
  assumes "trig_ok Q" "angle_ok roll" "angle_ok pitch"
  shows "is_fin (face_newX Q roll pitch) \<and> \<bar>fp_val (face_newX Q roll pitch)\<bar> \<le> 51"
    "is_fin (face_newY Q roll pitch) \<and> \<bar>fp_val (face_newY Q roll pitch)\<bar> \<le> 51"
proof -
  have r: "is_fin (roll_radians roll)" by (rule roll_radians_fin[OF assms(2)])
  have d: "is_fin (face_delta pitch)" "\<bar>fp_val (face_delta pitch)\<bar> \<le> 51"
    using face_delta_bound[of pitch] assms(3) by (auto simp: angle_ok_def)
  show "is_fin (face_newX Q roll pitch) \<and> \<bar>fp_val (face_newX Q roll pitch)\<bar> \<le> 51"
    "is_fin (face_newY Q roll pitch) \<and> \<bar>fp_val (face_newY Q roll pitch)\<bar> \<le> 51"
    unfolding face_newX_def face_newY_def
    using face_target_bound[OF d] assms(1) r by (auto simp: trig_ok_def)
qed

subsection \<open>One move\<close>

lemma move_error:
  \<comment> \<open>one rounded difference and one rounded sum\<close>
  assumes x: "is_fin x" "\<bar>fp_val x\<bar> \<le> 4096" and n: "is_fin n" "\<bar>fp_val n\<bar> \<le> 51"
    and p: "is_fin p" "\<bar>fp_val p\<bar> \<le> 1024"
  shows "is_fin (fadd x (fsub n p)) \<and>
    \<bar>fp_val (fadd x (fsub n p)) - (fp_val x + (fp_val n - fp_val p))\<bar> \<le> pow2 (- 39)"
    and "is_fin (fadd x (fmul (Fin (- 1)) (fsub n p))) \<and>
    \<bar>fp_val (fadd x (fmul (Fin (- 1)) (fsub n p))) - (fp_val x - (fp_val n - fp_val p))\<bar> \<le> pow2 (- 39)"
proof -
  let ?s = "fp_val n - fp_val p" and ?r = "rnd binary64"
  have q: "qmin binary64 \<le> k - int (prec binary64 - 1)" if "- 1000 \<le> k" for k
    using that by (simp add: binary64_def qmin_def)
  have s: "\<bar>?s\<bar> \<le> 2 ^ 11" using n p by simp
  then have rs: "\<bar>?r ?s\<bar> \<le> 2 ^ 11" by (intro rnd_abs_le pow2_bound64) auto
  have s1: "is_fin (fsub n p)" "fp_val (fsub n p) = ?r ?s"
    using fp_sub_val[OF n(1) p(1) s pow2_bound64[of 11]] by auto
  have e1: "\<bar>?r ?s - ?s\<bar> \<le> pow2 (- 42)"
    using rnd_error_pow2[of ?s 11 binary64] s q[of 11] pow2_of_nat[of 11] pow2_Suc[of "- 42"]
    by (simp add: binary64_def)
  have final: "is_fin (fadd x t) \<and> \<bar>fp_val (fadd x t) - (fp_val x + v)\<bar> \<le> pow2 (- 39)"
    if t: "is_fin t" "\<bar>fp_val t\<bar> \<le> 2 ^ 11" "\<bar>fp_val t - v\<bar> \<le> pow2 (- 42)" for t v
  proof -
    have m: "\<bar>fp_val x + fp_val t\<bar> \<le> 2 ^ 13" using x t by simp
    have f: "is_fin (fadd x t)" "fp_val (fadd x t) = ?r (fp_val x + fp_val t)"
      using fp_add_val[OF x(1) t(1) m pow2_bound64[of 13]] by auto
    have e2: "\<bar>?r (fp_val x + fp_val t) - (fp_val x + fp_val t)\<bar> \<le> pow2 (- 40)"
      using rnd_error_pow2[of "fp_val x + fp_val t" 13 binary64] m q[of 13] pow2_of_nat[of 13] pow2_Suc[of "- 40"]
      by (simp add: binary64_def)
    have "pow2 (- 42) + pow2 (- 40) \<le> pow2 (- 39)"
      using pow2_Suc[of "- 40"] pow2_le[of "- 42" "- 40"] by simp
    then show ?thesis using f e2 t(3) by (simp add: abs_le_iff)
  qed
  show "is_fin (fadd x (fsub n p)) \<and>
    \<bar>fp_val (fadd x (fsub n p)) - (fp_val x + (fp_val n - fp_val p))\<bar> \<le> pow2 (- 39)"
    using final[of "fsub n p" ?s] s1 rs e1 by simp
  have rr: "?r (- ?r ?s) = - ?r ?s"
    using rnd_idem[of binary64 ?s] by (simp add: rnd_minus binary64_def)
  have m1: "is_fin (fmul (Fin (- 1)) (fsub n p))" "fp_val (fmul (Fin (- 1)) (fsub n p)) = - ?r ?s"
    using fp_mul_val[OF _ s1(1) _ pow2_bound64[of 11], of "Fin (- 1)"] s1(2) rs rr by auto
  show "is_fin (fadd x (fmul (Fin (- 1)) (fsub n p))) \<and>
    \<bar>fp_val (fadd x (fmul (Fin (- 1)) (fsub n p))) - (fp_val x - (fp_val n - fp_val p))\<bar> \<le> pow2 (- 39)"
    using final[of "fmul (Fin (- 1)) (fsub n p)" "- ?s"] m1 rs e1 by (simp add: abs_le_iff)
qed

subsection \<open>Any number of messages\<close>

definition face_near :: "nat \<Rightarrow> fp \<Rightarrow> fp \<Rightarrow> AttitudeIndicator \<Rightarrow> bool" where
  \<comment> \<open>after \<open>n\<close> calls, from the two values the members held at first\<close>
  "face_near n memX memY ai \<longleftrightarrow>
     is_fin (svgFace_x ai) \<and> is_fin (svgFace_y ai)
   \<and> is_fin (m_oldXPosition ai) \<and> \<bar>fp_val (m_oldXPosition ai)\<bar> \<le> 1024
   \<and> is_fin (m_oldYPosition ai) \<and> \<bar>fp_val (m_oldYPosition ai)\<bar> \<le> 1024
   \<and> \<bar>fp_val (svgFace_x ai) - (fp_val (m_oldXPosition ai) - fp_val memX)\<bar> \<le> of_nat n * pow2 (- 39)
   \<and> \<bar>fp_val (svgFace_y ai) - (fp_val memY - fp_val (m_oldYPosition ai))\<bar> \<le> of_nat n * pow2 (- 39)"

lemma steps_small: "n \<le> 2 ^ 39 \<Longrightarrow> of_nat n * pow2 (- 39) \<le> 1"
proof -
  assume "n \<le> 2 ^ 39"
  then have "(of_nat n :: rat) \<le> of_nat (2 ^ 39)" by (simp only: of_nat_le_iff)
  then show ?thesis by (simp add: pow2_def)
qed

lemma setAttitude_near:
  assumes Q: "trig_ok Q" "move_ok Q" and a: "angle_ok roll" "angle_ok pitch"
    and m: "\<bar>fp_val memX\<bar> \<le> 1024" "\<bar>fp_val memY\<bar> \<le> 1024"
    and n: "n < 2 ^ 39" "face_near n memX memY ai"
  shows "face_near (Suc n) memX memY (setAttitude Q roll pitch ai)"
proof -
  note t = face_targets[OF Q(1) a]
  have one: "of_nat n * pow2 (- 39) \<le> 1" using steps_small[of n] n(1) by simp
  have suc: "of_nat (Suc n) * pow2 (- 39) = of_nat n * pow2 (- 39) + pow2 (- 39)" by (simp add: algebra_simps)
  have x: "is_fin (svgFace_x ai)" "\<bar>fp_val (svgFace_x ai)\<bar> \<le> 4096"
    and y: "is_fin (svgFace_y ai)" "\<bar>fp_val (svgFace_y ai)\<bar> \<le> 4096"
    and o: "is_fin (m_oldXPosition ai)" "\<bar>fp_val (m_oldXPosition ai)\<bar> \<le> 1024"
      "is_fin (m_oldYPosition ai)" "\<bar>fp_val (m_oldYPosition ai)\<bar> \<le> 1024"
    using n(2) one m unfolding face_near_def by (auto simp: abs_le_iff)
  note ex = move_error(1)[OF x conjunct1[OF t(1)] conjunct2[OF t(1)] o(1,2)]
  note ey = move_error(2)[OF y conjunct1[OF t(2)] conjunct2[OF t(2)] o(3,4)]
  show ?thesis
    using ex ey t n(2) Q(2) unfolding face_near_def suc setAttitude_def move_ok_def
    by (auto simp: abs_le_iff)
qed

lemma attitudes_near:
  assumes Q: "trig_ok Q" "move_ok Q"
    and m: "is_fin memX" "is_fin memY" "\<bar>fp_val memX\<bar> \<le> 1024" "\<bar>fp_val memY\<bar> \<le> 1024"
    and "\<forall>(r, p) \<in> set as. angle_ok r \<and> angle_ok p" "length as \<le> 2 ^ 39"
  shows "face_near (length as) memX memY (attitudes Q as (new_AttitudeIndicator memX memY))"
  using assms(7,8)
proof (induction as rule: rev_induct)
  case Nil
  then show ?case using m by (simp add: face_near_def new_AttitudeIndicator_def new_svg_item_def)
next
  case (snoc a as)
  obtain r p where a: "a = (r, p)" by force
  have "face_near (length as) memX memY (attitudes Q as (new_AttitudeIndicator memX memY))"
    using snoc by auto
  from setAttitude_near[OF Q _ _ m(3,4) _ this, of r p] snoc.prems show ?case
    by (simp add: a attitudes_snoc)
qed

subsection \<open>Not a number\<close>

lemma fp_NaN_simps: "fp_add F x NaN = NaN" "fp_sub F x NaN = NaN" "fp_sub F NaN x = NaN" "fp_mul F x NaN = NaN"
  by (cases x; simp add: fp_sub_def)+

definition face_lost :: "AttitudeIndicator \<Rightarrow> bool" where
  "face_lost ai \<longleftrightarrow> svgFace_x ai = NaN \<and> svgFace_y ai = NaN"

lemma face_lost_step: "move_ok Q \<Longrightarrow> face_lost ai \<Longrightarrow> face_lost (setAttitude Q roll pitch ai)"
  by (simp add: face_lost_def setAttitude_def move_ok_def)

lemma face_lost_NaN: "move_ok Q \<Longrightarrow> face_lost (setAttitude Q roll NaN ai)"
  by (simp add: face_lost_def setAttitude_def move_ok_def face_newX_def face_newY_def face_delta_def
      limit_pitch_def fp_NaN_simps)

lemma face_lost_forever: "move_ok Q \<Longrightarrow> face_lost ai \<Longrightarrow> face_lost (attitudes Q as ai)"
  by (induction as arbitrary: ai) (auto simp: face_lost_step)

subsection \<open>Properties\<close>

definition demo_station :: station where
  \<comment> \<open>trigonometry good enough for level flight\<close>
  "demo_station = \<lparr>number_int = show_int, number_double = show_double, move_add = fp_add binary64,
     libm_sin = (\<lambda>_. Fin 0), libm_cos = (\<lambda>_. Fin 1)\<rparr>"

lemma demo_station_ok: "trig_ok demo_station" "move_ok demo_station"
  by (simp_all add: trig_ok_def move_ok_def demo_station_def)

text \<open>
  C29 The artificial horizon does not drift, provided that the two members without an initializer happen to
  hold numbers of at most \<open>1024\<close> in absolute value (huge ones may absorb the moves in the rounding): then, after any sequence of up to \<open>2 ^ 39\<close> messages whose angles are numbers of at most \<open>2 ^ 128\<close> in absolute
  value, the face stands where the last message alone puts it, at most 51 pixels away in each direction, up to rounding errors
  of \<open>2 ^ -39\<close> per message, and up to a fixed offset, the values of those members. \<open>sin\<close> and \<open>cos\<close> are
  assumed to be within -1 and 1, and \<^verbatim>\<open>moveBy\<close> to add.
\<close>
theorem horizon_tracks:
  assumes "trig_ok Q" "move_ok Q"
    and "is_fin memX" "is_fin memY" "\<bar>fp_val memX\<bar> \<le> 1024" "\<bar>fp_val memY\<bar> \<le> 1024"
    and "\<forall>(r, p) \<in> set (as @ [(roll, pitch)]). angle_ok r \<and> angle_ok p" "length as < 2 ^ 39"
    and "ai = attitudes Q (as @ [(roll, pitch)]) (new_AttitudeIndicator memX memY)"
  shows "is_fin (svgFace_x ai) \<and> is_fin (svgFace_y ai)
    \<and> \<bar>fp_val (svgFace_x ai) - (fp_val (face_newX Q roll pitch) - fp_val memX)\<bar> \<le> of_nat (length as + 1) * pow2 (- 39)
    \<and> \<bar>fp_val (svgFace_y ai) - (fp_val memY - fp_val (face_newY Q roll pitch))\<bar> \<le> of_nat (length as + 1) * pow2 (- 39)
    \<and> \<bar>fp_val (face_newX Q roll pitch)\<bar> \<le> 51 \<and> \<bar>fp_val (face_newY Q roll pitch)\<bar> \<le> 51"
proof -
  have near: "face_near (length as + 1) memX memY ai"
    using attitudes_near[OF assms(1-7)] assms(8) unfolding assms(9) by simp
  have "m_oldXPosition ai = face_newX Q roll pitch" "m_oldYPosition ai = face_newY Q roll pitch"
    unfolding assms(9) attitudes_snoc by (simp_all add: setAttitude_def)
  moreover have "angle_ok roll" "angle_ok pitch" using assms(7) by auto
  ultimately show ?thesis using near face_targets[OF assms(1), of roll pitch] unfolding face_near_def by metis
qed

theorem horizon_tracks_witness:
  "\<bar>fp_val (svgFace_y (attitudes demo_station [(Fin 0, Fin 10), (Fin 0, Fin (- 20))]
      (new_AttitudeIndicator (Fin 0) (Fin 0)))) + fp_val (face_newY demo_station (Fin 0) (Fin (- 20)))\<bar> \<le> 2 * pow2 (- 39)"
proof -
  have "\<forall>(r, p) \<in> set ([(Fin 0, Fin 10)] @ [(Fin 0, Fin (- 20))]). angle_ok r \<and> angle_ok p"
    by (simp add: angle_ok_def)
  from horizon_tracks[OF demo_station_ok, of "Fin 0" "Fin 0", OF _ _ _ _ this _ refl] show ?thesis by simp
qed

text \<open>
  C30 A pitch angle that is not a number, in one message, moves the face to a position that is not a number, and no
  later message brings it back; the same happens with the first message if the uninitialized members
  do not hold numbers.
\<close>
theorem horizon_lost:
  assumes "move_ok Q"
  shows "face_lost (attitudes Q (as @ (roll, NaN) # bs) ai)
    \<and> face_lost (attitudes Q ((roll', pitch') # bs) (new_AttitudeIndicator NaN NaN))"
proof
  show "face_lost (attitudes Q (as @ (roll, NaN) # bs) ai)"
  proof (induction as arbitrary: ai)
    case Nil
    then show ?case using face_lost_forever[OF assms face_lost_NaN[OF assms]] by simp
  qed (auto split: prod.split)
  have "face_lost (setAttitude Q roll' pitch' (new_AttitudeIndicator NaN NaN))"
    using assms by (simp add: face_lost_def setAttitude_def move_ok_def new_AttitudeIndicator_def fp_NaN_simps)
  then show "face_lost (attitudes Q ((roll', pitch') # bs) (new_AttitudeIndicator NaN NaN))"
    using face_lost_forever[OF assms] by simp
qed

theorem horizon_lost_witness:
  "svgFace_x (attitudes demo_station [(Fin 0, Fin 10), (Fin 0, NaN), (Fin 0, Fin 10)]
     (new_AttitudeIndicator (Fin 0) (Fin 0))) = NaN"
  using horizon_lost[OF demo_station_ok(2), of "[(Fin 0, Fin 10)]" "Fin 0" "[(Fin 0, Fin 10)]"]
  by (simp add: face_lost_def)

end
