(* ===== verification/Schema.thy ===== *)
theory Schema
  imports SomController
begin

section \<open>The type of a configuration\<close>

text \<open>
  Which JSON documents configure the SoM: the paths the constructors read, each with the type of its
  \<^verbatim>\<open>getValue<T>\<close>, are a schema, and a document has the schema's type if each path leads to a value that
  converts to its type. The lemmas show that this is exactly when no constructor throws.
\<close>

datatype conf_type = TString | TU32 | TU8 | TI8 | TDouble

fun has_type :: "json \<Rightarrow> conf_type \<Rightarrow> bool" where
  "has_type (JString s) TString = True"
| "has_type (JUnsigned n) t = (t \<noteq> TString)"
| "has_type (JInteger n) t = (t \<noteq> TString)"
| "has_type (JFloat x) TDouble = True"
| "has_type (JFloat x) TU32 = (is_fin x \<and> 0 \<le> trunc_rat (fp_val x) \<and> trunc_rat (fp_val x) < 2 ^ 32)"
| "has_type (JFloat x) TU8 = (is_fin x \<and> 0 \<le> trunc_rat (fp_val x) \<and> trunc_rat (fp_val x) < 2 ^ 8)"
| "has_type (JFloat x) TI8 = (is_fin x \<and> - (2 ^ 7) \<le> trunc_rat (fp_val x) \<and> trunc_rat (fp_val x) < 2 ^ 7)"
| "has_type (JBoolean b) t = (t \<in> {TU32, TU8, TI8})"
| "has_type _ t = False"

definition som_schema :: "(string \<times> conf_type) list" where
  "som_schema =
     [(''rcplane.som.som_controller.handshake_attempts'', TU32),
      (''rcplane.som.som_controller.main_loop_delay_ms'', TU32),
      (''rcplane.io.serial_controller.tty_dev'', TString),
      (''rcplane.io.serial_controller.baud_rate'', TU32),
      (''rcplane.io.serial_controller.read_timeout_ms'', TU32),
      (''rcplane.io.serial_controller.write_timeout_ms'', TU32),
      (''rcplane.common.handshake_termination_string'', TString),
      (''rcplane.autopilot.max_throttle'', TU8),
      (''rcplane.autopilot.max_aileron_deflection'', TI8),
      (''rcplane.autopilot.max_elevator_deflection'', TI8),
      (''rcplane.autopilot.max_rudder_deflection'', TI8),
      (''rcplane.autopilot.max_aileron_deflection'', TDouble),
      (''rcplane.autopilot.stabilize.kp'', TDouble),
      (''rcplane.autopilot.stabilize.ki'', TDouble),
      (''rcplane.autopilot.stabilize.kd'', TDouble),
      (''rcplane.autopilot.stabilize.tau'', TDouble),
      (''rcplane.autopilot.stabilize.max_integral_error'', TDouble),
      (''rcplane.io.telemetry.debug_mq_name'', TString),
      (''rcplane.io.telemetry.attitude_mq_name'', TString),
      (''rcplane.io.telemetry.onboard_mq_name'', TString),
      (''rcplane.io.telemetry.mq_size'', TU32)]"

definition path_typed :: "json \<Rightarrow> string \<Rightarrow> conf_type \<Rightarrow> bool" where
  "path_typed j path t =
     (case json_lookup j (split_dots path) of None \<Rightarrow> False | Some v \<Rightarrow> has_type v t)"

definition config_typed :: "json \<Rightarrow> bool" where
  "config_typed j = list_all (\<lambda>(path, t). path_typed j path t) som_schema"

lemma get_typed:
  "(\<exists>x. get_string v = Inr x) \<longleftrightarrow> has_type v TString"
  "(\<exists>x. get_u32 v = Inr x) \<longleftrightarrow> has_type v TU32"
  "(\<exists>x. get_u8 v = Inr x) \<longleftrightarrow> has_type v TU8"
  "(\<exists>x. get_i8 v = Inr x) \<longleftrightarrow> has_type v TI8"
  "(\<exists>x. get_double v = Inr x) \<longleftrightarrow> has_type v TDouble"
  by (cases v; auto simp: fp_to_u32_def fp_to_u8_def fp_to_i8_def fp_to_int_def)+

lemma getValue_path:
  assumes "split_ok split" "get_fails_ok get" "\<And>v. (\<exists>x. get v = Inr x) \<longleftrightarrow> has_type v t"
  shows "(\<exists>x. getValue split get cm path = Inr x) \<longleftrightarrow> path_typed (m_json cm) path t"
proof (cases "json_lookup (m_json cm) (split_dots path)")
  case None
  then show ?thesis using getValue_missing[OF assms(1,2) None] by (auto simp: path_typed_def)
next
  case (Some v)
  then show ?thesis using getValue_present[OF assms(1) Some, of get] assms(3)[of v]
    by (simp add: path_typed_def)
qed

lemma getValue_typed:
  assumes "split_ok split"
  shows "(\<exists>x. getValue split get_string cm path = Inr x) \<longleftrightarrow> path_typed (m_json cm) path TString"
    "(\<exists>x. getValue split get_u32 cm path = Inr x) \<longleftrightarrow> path_typed (m_json cm) path TU32"
    "(\<exists>x. getValue split get_u8 cm path = Inr x) \<longleftrightarrow> path_typed (m_json cm) path TU8"
    "(\<exists>x. getValue split get_i8 cm path = Inr x) \<longleftrightarrow> path_typed (m_json cm) path TI8"
    "(\<exists>x. getValue split get_double cm path = Inr x) \<longleftrightarrow> path_typed (m_json cm) path TDouble"
  using getValue_path[OF assms get_fails_ok_all(1) get_typed(1)] getValue_path[OF assms get_fails_ok_all(2) get_typed(2)]
    getValue_path[OF assms get_fails_ok_all(3) get_typed(3)] getValue_path[OF assms get_fails_ok_all(4) get_typed(4)]
    getValue_path[OF assms get_fails_ok_all(5) get_typed(5)] by blast+

lemma ex_res_bind: "(\<exists>y. res_bind r f = Inr y) \<longleftrightarrow> (\<exists>x. r = Inr x \<and> (\<exists>y. f x = Inr y))"
  by (cases r) auto

subsection \<open>The constructors\<close>

lemma constructors_typed:
  assumes sp: "split_ok split"
  shows "(\<exists>x. new_SerialController split cm port = Inr x) \<longleftrightarrow>
      path_typed (m_json cm) ''rcplane.io.serial_controller.tty_dev'' TString
    \<and> path_typed (m_json cm) ''rcplane.io.serial_controller.baud_rate'' TU32
    \<and> path_typed (m_json cm) ''rcplane.io.serial_controller.read_timeout_ms'' TU32
    \<and> path_typed (m_json cm) ''rcplane.io.serial_controller.write_timeout_ms'' TU32
    \<and> path_typed (m_json cm) ''rcplane.common.handshake_termination_string'' TString"
    and "(\<exists>x. new_AutopilotUtility split cm = Inr x) \<longleftrightarrow>
      path_typed (m_json cm) ''rcplane.autopilot.max_throttle'' TU8
    \<and> path_typed (m_json cm) ''rcplane.autopilot.max_aileron_deflection'' TI8
    \<and> path_typed (m_json cm) ''rcplane.autopilot.max_elevator_deflection'' TI8
    \<and> path_typed (m_json cm) ''rcplane.autopilot.max_rudder_deflection'' TI8"
    and "(\<exists>x. new_TelemetryTransmitterMQ split cm = (Inr x :: 'h TelemetryTransmitterMQ res)) \<longleftrightarrow>
      path_typed (m_json cm) ''rcplane.io.telemetry.debug_mq_name'' TString
    \<and> path_typed (m_json cm) ''rcplane.io.telemetry.attitude_mq_name'' TString
    \<and> path_typed (m_json cm) ''rcplane.io.telemetry.onboard_mq_name'' TString
    \<and> path_typed (m_json cm) ''rcplane.io.telemetry.mq_size'' TU32"
  by (simp_all add: new_SerialController_def new_AutopilotUtility_def new_TelemetryTransmitterMQ_def
      ex_res_bind getValue_typed[OF sp])

lemma new_AutopilotUtility_config: "new_AutopilotUtility split cm = Inr u \<Longrightarrow> m_configManager u = cm"
  by (auto simp: new_AutopilotUtility_def res_simps)

lemma manager_typed:
  assumes sp: "split_ok split"
  shows "(\<exists>x. new_AutopilotManager split u = Inr x) \<longleftrightarrow>
      path_typed (m_json (m_configManager u)) ''rcplane.autopilot.max_aileron_deflection'' TDouble
    \<and> path_typed (m_json (m_configManager u)) ''rcplane.autopilot.stabilize.kp'' TDouble
    \<and> path_typed (m_json (m_configManager u)) ''rcplane.autopilot.stabilize.ki'' TDouble
    \<and> path_typed (m_json (m_configManager u)) ''rcplane.autopilot.stabilize.kd'' TDouble
    \<and> path_typed (m_json (m_configManager u)) ''rcplane.autopilot.stabilize.tau'' TDouble
    \<and> path_typed (m_json (m_configManager u)) ''rcplane.autopilot.stabilize.max_integral_error'' TDouble"
  by (simp add: new_AutopilotManager_def new_StabilizeAutopilot_def Let_def getConfigManager_def
      ex_res_bind getValue_typed[OF sp])

subsection \<open>The SoM controller\<close>

definition start_ready :: "'d asio \<Rightarrow> ('h, 'w) mq \<Rightarrow> 'w \<Rightarrow> bool" where
  \<comment> \<open>every serial port opens and every queue can be created\<close>
  "start_ready A M w \<longleftrightarrow> (\<forall>sc. fst (open_port A sc)) \<and> (\<forall>tx. fst (init_transmitter M tx w))"

lemma start_ready_steps:
  assumes "start_ready A M w"
  shows "\<exists>sc'. som_open A sc = Inr sc'" "\<exists>tx' w'. som_init_telemetry M tx w = Inr (tx', w')"
  using assms unfolding start_ready_def som_open_def som_init_telemetry_def
  by (auto simp: split_beta)

lemma new_SomController_typed:
  assumes sp: "split_ok split" and r: "start_ready A M w" and l: "som_loadConfig fs parse configPath = Inr cm"
  shows "(\<exists>x. new_SomController split fs parse A M configPath port w = Inr x) \<longleftrightarrow> config_typed (m_json cm)"
proof -
  have open': "\<exists>y. som_open A sc = Inr y" for sc using start_ready_steps(1)[OF r] by blast
  have init': "\<exists>y. som_init_telemetry M tx w = Inr y" for tx using start_ready_steps(2)[OF r] by blast
  let ?P = "path_typed (m_json cm)"
  have mgr: "(\<exists>u. new_AutopilotUtility split cm = Inr u \<and> (\<exists>m. new_AutopilotManager split u = Inr m) \<and> Q)
    \<longleftrightarrow> (\<exists>u. new_AutopilotUtility split cm = Inr u)
      \<and> (?P ''rcplane.autopilot.max_aileron_deflection'' TDouble \<and> ?P ''rcplane.autopilot.stabilize.kp'' TDouble
      \<and> ?P ''rcplane.autopilot.stabilize.ki'' TDouble \<and> ?P ''rcplane.autopilot.stabilize.kd'' TDouble
      \<and> ?P ''rcplane.autopilot.stabilize.tau'' TDouble
      \<and> ?P ''rcplane.autopilot.stabilize.max_integral_error'' TDouble) \<and> Q" for Q
    using new_AutopilotUtility_config[of split cm] by (auto simp: manager_typed[OF sp])
  have "(\<exists>x. new_SomController split fs parse A M configPath port w = Inr x) \<longleftrightarrow>
      (\<exists>n. getValue split get_u32 cm ''rcplane.som.som_controller.handshake_attempts'' = Inr n)
    \<and> (\<exists>n. getValue split get_u32 cm ''rcplane.som.som_controller.main_loop_delay_ms'' = Inr n)
    \<and> (\<exists>sc. new_SerialController split cm port = Inr sc)
    \<and> (\<exists>u. new_AutopilotUtility split cm = Inr u \<and> (\<exists>m. new_AutopilotManager split u = Inr m)
        \<and> (\<exists>tx. new_TelemetryTransmitterMQ split cm = (Inr tx :: 'b TelemetryTransmitterMQ res)))"
    unfolding new_SomController_def l sum.case
    by (simp only: ex_res_bind split_beta sum.inject ex_simps simp_thms open' init')
  then show ?thesis
    unfolding mgr getValue_typed[OF sp] constructors_typed[OF sp]
    by (simp only: config_typed_def som_schema_def list.pred_inject prod.case conj_assoc simp_thms)
qed

definition config_fault :: "fault \<Rightarrow> bool" where
  "config_fault e \<longleftrightarrow> e \<in> {TypeError 302, TypeError 305, Undefined FloatConversion}"

lemma getValue_config_fault:
  assumes "split_ok split"
  shows "getValue split get_string cm path = Inl e \<Longrightarrow> config_fault e"
    "getValue split get_u32 cm path = Inl e \<Longrightarrow> config_fault e"
    "getValue split get_u8 cm path = Inl e \<Longrightarrow> config_fault e"
    "getValue split get_i8 cm path = Inl e \<Longrightarrow> config_fault e"
    "getValue split get_double cm path = Inl e \<Longrightarrow> config_fault e"
  unfolding config_fault_def
  using getValue_fault[OF assms get_fails_ok_all(1)] getValue_fault[OF assms get_fails_ok_all(2)]
    getValue_fault[OF assms get_fails_ok_all(3)] getValue_fault[OF assms get_fails_ok_all(4)]
    getValue_fault[OF assms get_fails_ok_all(5)] by blast+

lemma constructors_fault:
  assumes sp: "split_ok split"
  shows "new_SerialController split cm port = Inl e \<Longrightarrow> config_fault e"
    "new_AutopilotUtility split cm = Inl e \<Longrightarrow> config_fault e"
    "new_AutopilotManager split u = Inl e \<Longrightarrow> config_fault e"
    "new_TelemetryTransmitterMQ split cm = Inl e \<Longrightarrow> config_fault e"
  unfolding new_SerialController_def new_AutopilotUtility_def new_AutopilotManager_def
    new_StabilizeAutopilot_def new_TelemetryTransmitterMQ_def Let_def
  by (auto simp only: res_simps sum.distinct dest!: getValue_config_fault[OF sp])

lemma start_ready_no_fault:
  assumes "start_ready A M w"
  shows "som_open A sc \<noteq> Inl e" "som_init_telemetry M tx w \<noteq> Inl e"
  using start_ready_steps(1)[OF assms, of sc] start_ready_steps(2)[OF assms, of tx] by auto

lemma new_SomController_fault:
  assumes sp: "split_ok split" and r: "start_ready A M w" and l: "som_loadConfig fs parse configPath = Inr cm"
    and "new_SomController split fs parse A M configPath port w = Inl e"
  shows "config_fault e"
  using assms(4) unfolding new_SomController_def l sum.case
  by (auto simp only: res_simps split_beta sum.distinct start_ready_no_fault[OF r]
      dest!: getValue_config_fault[OF sp] constructors_fault[OF sp])

lemma config_json_typed: "config_typed config_json"
  by code_simp

subsection \<open>Properties\<close>

text \<open>
  C12 Which configurations start the SoM: with a file that was loaded, and ports and queues that can be opened, the
  controller is constructed exactly if the document has the type of the schema, each of the 21 values the
  constructors read being present and convertible to the type it is read as; on any other document construction
  ends with a \<^verbatim>\<open>type_error\<close> 302 or 305 or, for a floating-point number out of the range of an integer, an
  undefined conversion, and in no other way.
\<close>
theorem controller_typed:
  assumes "split_ok split" "som_loadConfig fs parse configPath = Inr cm" "start_ready A M w"
  shows "((\<exists>x. new_SomController split fs parse A M configPath port w = Inr x) \<longleftrightarrow> config_typed (m_json cm))
    \<and> (\<forall>e. new_SomController split fs parse A M configPath port w = Inl e
         \<longrightarrow> e \<in> {TypeError 302, TypeError 305, Undefined FloatConversion})"
  using new_SomController_typed[OF assms(1,3,2)] new_SomController_fault[OF assms(1,3,2)]
  unfolding config_fault_def by blast

definition empty_json :: json where
  "empty_json = JObject [(''rcplane'', JObject [])]"

lemma demo_start_ready: "start_ready tty_asio shm_mq w"
  by (auto simp: start_ready_def open_port_def tty_asio_def init_transmitter_def shm_mq_def
      split: option.split prod.split)

theorem controller_typed_witness:
  "(\<exists>x. new_SomController split_dots (\<lambda>_. Some []) (\<lambda>_. Some config_json) tty_asio shm_mq []
      \<lparr>tty_isopen = False, tty_batches = [], tty_rx = [], tty_tx = []\<rparr> shm_empty = Inr x)
   \<and> \<not> (\<exists>x. new_SomController split_dots (\<lambda>_. Some []) (\<lambda>_. Some empty_json) tty_asio shm_mq []
      \<lparr>tty_isopen = False, tty_batches = [], tty_rx = [], tty_tx = []\<rparr> shm_empty = Inr x)"
proof -
  have l: "som_loadConfig (\<lambda>_. Some []) (\<lambda>_. Some j) [] = Inr \<lparr>m_json = j, m_configLoaded = True\<rparr>" for j
    by (simp add: som_loadConfig_def loadConfig_def new_ConfigManager_def)
  have "\<not> config_typed empty_json" by code_simp
  with controller_typed[OF split_dots_ok l demo_start_ready, of config_json _ shm_empty] config_json_typed
    controller_typed[OF split_dots_ok l demo_start_ready, of empty_json _ shm_empty]
  show ?thesis by auto
qed

end
