(* ===== verification/SerialRace.thy ===== *)
theory SerialRace
  imports SerialController
begin

section \<open>An asynchronous operation against its timeout\<close>

text \<open>
  What \<^verbatim>\<open>readPacket\<close> and \<^verbatim>\<open>writePacket\<close> of \<^verbatim>\<open>io/SerialController\<close> do in detail: the caller starts an operation, waits for
  the future of a promise on its stack, and on a timeout cancels the operation and returns; the operation
  transfers bytes, and its handler runs on the thread of the \<^verbatim>\<open>io_service\<close>. The two are interleaved step by step.
  From \<^verbatim>\<open>boost::asio\<close> it takes what is documented: the handler of an operation runs once, without an error if all bytes were
  transferred, and a cancellation ends an operation in progress with an error but leaves one alone that has
  completed, whose handler is still to run. The lemmas say which outcomes are those of the
  one-step operations of \<open>SerialController\<close>, and what the others are.
\<close>

datatype 'v op_caller = Waiting | TimedOut | Cancelled | Returned 'v

datatype 'v op_handler =
    InProgress nat      \<comment> \<open>so many bytes were transferred\<close>
  | Completed bool      \<comment> \<open>the handler is to run, without an error or with one\<close>
  | Handling 'v         \<comment> \<open>in front of \<^verbatim>\<open>set_value\<close>\<close>
  | Finished

record ('c, 'v) async_op =
  op_caller :: "'v op_caller"
  op_handler :: "'v op_handler"
  op_promise :: "'v option"
  op_channel :: 'c

definition async_begin :: "'c \<Rightarrow> ('c, 'v) async_op" where
  "async_begin c = \<lparr>op_caller = Waiting, op_handler = InProgress 0, op_promise = None, op_channel = c\<rparr>"

inductive async_step ::
  "nat \<Rightarrow> ('c \<Rightarrow> 'c option) \<Rightarrow> ('c \<Rightarrow> 'v \<times> 'c) \<Rightarrow> 'v \<Rightarrow> ('c, 'v) async_op \<Rightarrow> ('c, 'v) async_op res \<Rightarrow> bool"
  for len :: nat and move :: "'c \<Rightarrow> 'c option" and handle :: "'c \<Rightarrow> 'v \<times> 'c" and dflt :: 'v where
  transfer: "op_handler s = InProgress k \<Longrightarrow> move (op_channel s) = Some c
    \<Longrightarrow> async_step len move handle dflt s (Inr (s\<lparr>op_channel := c,
          op_handler := if Suc k = len then Completed True else InProgress (Suc k)\<rparr>))"
| line_fails: "op_handler s = InProgress k
    \<Longrightarrow> async_step len move handle dflt s (Inr (s\<lparr>op_handler := Completed False\<rparr>))"
| handle_error: "op_handler s = Completed False
    \<Longrightarrow> async_step len move handle dflt s (Inr (s\<lparr>op_handler := Finished\<rparr>))"
| handle_done: "op_handler s = Completed True \<Longrightarrow> handle (op_channel s) = (v, c)
    \<Longrightarrow> async_step len move handle dflt s (Inr (s\<lparr>op_channel := c, op_handler := Handling v\<rparr>))"
| set_value: "op_handler s = Handling v \<Longrightarrow> \<forall>r. op_caller s \<noteq> Returned r
    \<Longrightarrow> async_step len move handle dflt s (Inr (s\<lparr>op_handler := Finished, op_promise := Some v\<rparr>))"
| set_dangling: "op_handler s = Handling v \<Longrightarrow> op_caller s = Returned r
    \<Longrightarrow> async_step len move handle dflt s (Inl (Undefined DanglingReference))"
    \<comment> \<open>the promise was on the stack of a call that is over\<close>
| ready: "op_caller s = Waiting \<Longrightarrow> op_promise s = Some v
    \<Longrightarrow> async_step len move handle dflt s (Inr (s\<lparr>op_caller := Returned v\<rparr>))"
| time_out: "op_caller s = Waiting \<Longrightarrow> op_promise s = None
    \<Longrightarrow> async_step len move handle dflt s (Inr (s\<lparr>op_caller := TimedOut\<rparr>))"
| cancel: "op_caller s = TimedOut
    \<Longrightarrow> async_step len move handle dflt s (Inr (s\<lparr>op_caller := Cancelled,
          op_handler := (case op_handler s of InProgress k \<Rightarrow> Completed False | h \<Rightarrow> h)\<rparr>))"
| cancel_throws: "op_caller s = TimedOut
    \<Longrightarrow> async_step len move handle dflt s (Inr (s\<lparr>op_caller := Cancelled\<rparr>))"
| give_up: "op_caller s = Cancelled
    \<Longrightarrow> async_step len move handle dflt s (Inr (s\<lparr>op_caller := Returned dflt\<rparr>))"

inductive_cases async_stepE: "async_step len move handle dflt s t"

abbreviation async_runs ::
  "nat \<Rightarrow> ('c \<Rightarrow> 'c option) \<Rightarrow> ('c \<Rightarrow> 'v \<times> 'c) \<Rightarrow> 'v \<Rightarrow> ('c, 'v) async_op \<Rightarrow> ('c, 'v) async_op \<Rightarrow> bool" where
  "async_runs len move handle dflt \<equiv> (\<lambda>s t. async_step len move handle dflt s (Inr t))\<^sup>*\<^sup>*"

subsection \<open>The invariant\<close>

fun moves :: "('c \<Rightarrow> 'c option) \<Rightarrow> nat \<Rightarrow> 'c \<Rightarrow> 'c option" where
  "moves move 0 c = Some c"
| "moves move (Suc k) c = Option.bind (moves move k c) move"

definition partly_moved :: "nat \<Rightarrow> ('c \<Rightarrow> 'c option) \<Rightarrow> 'c \<Rightarrow> 'c \<Rightarrow> bool" where
  "partly_moved len move c0 c \<longleftrightarrow> (\<exists>k < len. moves move k c0 = Some c)"

definition wholly_handled :: "nat \<Rightarrow> ('c \<Rightarrow> 'c option) \<Rightarrow> ('c \<Rightarrow> 'v \<times> 'c) \<Rightarrow> 'c \<Rightarrow> 'v \<Rightarrow> 'c \<Rightarrow> bool" where
  "wholly_handled len move handle c0 v c \<longleftrightarrow> (\<exists>c1. moves move len c0 = Some c1 \<and> handle c1 = (v, c))"

definition async_inv ::
  "nat \<Rightarrow> ('c \<Rightarrow> 'c option) \<Rightarrow> ('c \<Rightarrow> 'v \<times> 'c) \<Rightarrow> 'v \<Rightarrow> 'c \<Rightarrow> ('c, 'v) async_op \<Rightarrow> bool" where
  "async_inv len move handle dflt c0 s \<longleftrightarrow>
     (case op_handler s of
        InProgress k \<Rightarrow> k < len \<and> moves move k c0 = Some (op_channel s) \<and> op_promise s = None
      | Completed True \<Rightarrow> moves move len c0 = Some (op_channel s) \<and> op_promise s = None
      | Completed False \<Rightarrow> partly_moved len move c0 (op_channel s) \<and> op_promise s = None
      | Handling v \<Rightarrow> wholly_handled len move handle c0 v (op_channel s) \<and> op_promise s = None
      | Finished \<Rightarrow> partly_moved len move c0 (op_channel s) \<and> op_promise s = None
          \<or> (\<exists>v. wholly_handled len move handle c0 v (op_channel s) \<and> op_promise s = Some v))
   \<and> (\<forall>r. op_caller s = Returned r \<longrightarrow> r = dflt \<or> op_promise s = Some r)"

lemma async_inv_begin: "0 < len \<Longrightarrow> async_inv len move handle dflt c (async_begin c)"
  by (simp add: async_inv_def async_begin_def)

lemma async_inv_step:
  assumes "async_step len move handle dflt s (Inr s')" "async_inv len move handle dflt c0 s"
  shows "async_inv len move handle dflt c0 s'"
  using assms
proof cases
  case (transfer k c)
  then have "k < len" "moves move (Suc k) c0 = Some c" using assms(2) by (auto simp: async_inv_def)
  then show ?thesis using transfer assms(2) by (auto simp: async_inv_def)
next
  case (cancel)
  then show ?thesis using assms(2)
    by (auto simp: async_inv_def partly_moved_def split: op_handler.splits bool.splits)
qed (auto simp: async_inv_def partly_moved_def wholly_handled_def split: op_handler.splits bool.splits)

lemma async_inv_runs:
  assumes "async_runs len move handle dflt (async_begin c) s" "0 < len"
  shows "async_inv len move handle dflt c s"
  using assms(1)
  by (induction rule: rtranclp_induct) (auto intro: async_inv_begin assms(2) async_inv_step)

lemma async_outcome:
  \<comment> \<open>when both are done: completed in time, timed out, or completed after the timeout\<close>
  assumes "async_runs len move handle dflt (async_begin c) s" "0 < len"
    and "op_caller s = Returned r" "op_handler s = Finished"
  shows "wholly_handled len move handle c r (op_channel s)
    \<or> r = dflt \<and> partly_moved len move c (op_channel s)
    \<or> r = dflt \<and> (\<exists>v. wholly_handled len move handle c v (op_channel s))"
  using async_inv_runs[OF assms(1,2)] assms(3,4) by (auto simp: async_inv_def)

lemma async_fault:
  \<comment> \<open>the only fault, after a completed operation timed out\<close>
  assumes "async_runs len move handle dflt (async_begin c) s" "0 < len"
    and "async_step len move handle dflt s (Inl e)"
  shows "e = Undefined DanglingReference \<and> op_caller s = Returned dflt
    \<and> (\<exists>v. wholly_handled len move handle c v (op_channel s))"
  using assms(3) async_inv_runs[OF assms(1,2)] by (auto elim!: async_stepE simp: async_inv_def)

lemma async_transfers:
  assumes "moves move n c = Some c'" "n \<le> len"
  shows "async_runs len move handle dflt (async_begin c) ((async_begin c)\<lparr>op_channel := c',
    op_handler := if n = len \<and> 0 < n then Completed True else InProgress n\<rparr>)"
  using assms
proof (induction n arbitrary: c')
  case (Suc n)
  then obtain c1 where c1: "moves move n c = Some c1" "move c1 = Some c'"
    by (auto simp: bind_eq_Some_conv)
  let ?s = "(async_begin c)\<lparr>op_channel := c1, op_handler := InProgress n\<rparr> :: ('a, 'b) async_op"
  have "async_runs len move handle dflt (async_begin c) ?s" using Suc.IH[OF c1(1)] Suc.prems by simp
  moreover have "async_step len move handle dflt ?s (Inr (?s\<lparr>op_channel := c',
      op_handler := if Suc n = len then Completed True else InProgress (Suc n)\<rparr>))"
    by (rule async_step.transfer) (simp_all add: c1)
  ultimately show ?case by (auto elim: rtranclp.rtrancl_into_rtrancl)
qed (simp add: async_begin_def)

lemma async_late:
  \<comment> \<open>all bytes are there, the wait ends first, and the handler runs after the return\<close>
  assumes "moves move len c = Some c1" "handle c1 = (v, c2)" "0 < len"
  shows "\<exists>s. async_runs len move handle dflt (async_begin c) s \<and> op_caller s = Returned dflt
    \<and> op_handler s = Handling v \<and> op_channel s = c2
    \<and> async_step len move handle dflt s (Inl (Undefined DanglingReference))"
proof -
  let ?R = "async_step len move handle dflt"
  let ?s = "\<lambda>p c h. \<lparr>op_caller = p, op_handler = h, op_promise = None, op_channel = c\<rparr>"
  have "async_runs len move handle dflt (async_begin c) (?s Waiting c1 (Completed True))"
    using async_transfers[OF assms(1), of len handle dflt] assms(3) by (simp add: async_begin_def)
  moreover have "?R (?s Waiting c1 (Completed True)) (Inr (?s TimedOut c1 (Completed True)))"
    using async_step.time_out[of "?s Waiting c1 (Completed True)"] by simp
  moreover have "?R (?s TimedOut c1 (Completed True)) (Inr (?s Cancelled c1 (Completed True)))"
    using async_step.cancel[of "?s TimedOut c1 (Completed True)"] by simp
  moreover have "?R (?s Cancelled c1 (Completed True)) (Inr (?s (Returned dflt) c1 (Completed True)))"
    using async_step.give_up[of "?s Cancelled c1 (Completed True)"] by simp
  moreover have "?R (?s (Returned dflt) c1 (Completed True)) (Inr (?s (Returned dflt) c2 (Handling v)))"
    using async_step.handle_done[of "?s (Returned dflt) c1 (Completed True)" handle v c2] assms(2) by simp
  ultimately have "async_runs len move handle dflt (async_begin c) (?s (Returned dflt) c2 (Handling v))"
    by (meson rtranclp.rtrancl_into_rtrancl)
  moreover have "?R (?s (Returned dflt) c2 (Handling v)) (Inl (Undefined DanglingReference))"
    by (rule async_step.set_dangling) simp_all
  ultimately show ?thesis by (intro exI[of _ "?s (Returned dflt) c2 (Handling v)"]) simp
qed

lemma async_in_time:
  assumes "moves move len c = Some c1" "handle c1 = (v, c2)" "0 < len"
  shows "\<exists>s. async_runs len move handle dflt (async_begin c) s \<and> op_caller s = Returned v
    \<and> op_handler s = Finished \<and> op_channel s = c2"
proof -
  let ?R = "async_step len move handle dflt"
  let ?s = "\<lambda>p c h q. \<lparr>op_caller = p, op_handler = h, op_promise = q, op_channel = c\<rparr>"
  have "async_runs len move handle dflt (async_begin c) (?s Waiting c1 (Completed True) None)"
    using async_transfers[OF assms(1), of len handle dflt] assms(3) by (simp add: async_begin_def)
  moreover have "?R (?s Waiting c1 (Completed True) None) (Inr (?s Waiting c2 (Handling v) None))"
    using async_step.handle_done[of "?s Waiting c1 (Completed True) None" handle v c2] assms(2) by simp
  moreover have "?R (?s Waiting c2 (Handling v) None) (Inr (?s Waiting c2 Finished (Some v)))"
    using async_step.set_value[of "?s Waiting c2 (Handling v) None"] by simp
  moreover have "?R (?s Waiting c2 Finished (Some v)) (Inr (?s (Returned v) c2 Finished (Some v)))"
    using async_step.ready[of "?s Waiting c2 Finished (Some v)"] by simp
  ultimately have "async_runs len move handle dflt (async_begin c) (?s (Returned v) c2 Finished (Some v))"
    by (meson rtranclp.rtrancl_into_rtrancl)
  then show ?thesis by (intro exI[of _ "?s (Returned v) c2 Finished (Some v)"]) simp
qed

subsection \<open>Reads and writes\<close>

fun read_move :: "byte list \<times> byte list \<Rightarrow> (byte list \<times> byte list) option" where
  \<comment> \<open>one byte of the line reaches the stream buffer\<close>
  "read_move (buf, []) = None"
| "read_move (buf, b # line) = Some (buf @ [b], line)"

definition read_handler ::
  "nat \<Rightarrow> (byte list \<Rightarrow> 'p) \<Rightarrow> byte list \<times> byte list \<Rightarrow> 'p ReadResult \<times> (byte list \<times> byte list)" where
  "read_handler sz dec = (\<lambda>(buf, line).
     (\<lparr>packet = dec (take sz buf), didTimeout = False, bytesRead = 0\<rparr>, (drop sz buf, line)))"

fun write_move :: "byte list \<times> byte list \<Rightarrow> (byte list \<times> byte list) option" where
  \<comment> \<open>one byte of the packet is sent\<close>
  "write_move ([], sent) = None"
| "write_move (b # rest, sent) = Some (rest, sent @ [b])"

definition write_handler :: "byte list \<times> byte list \<Rightarrow> bool \<times> (byte list \<times> byte list)" where
  "write_handler c = (True, c)"

lemma read_moves:
  "moves read_move k (buf, line) = (if k \<le> length line then Some (buf @ take k line, drop k line) else None)"
proof (induction k)
  case (Suc k)
  then show ?case
    by (cases "drop k line") (auto simp: take_Suc_conv_app_nth Cons_nth_drop_Suc[symmetric] not_less_eq_eq
        dest: arg_cong[where f = length])
qed simp

lemma write_moves:
  "moves write_move k (bs, sent) = (if k \<le> length bs then Some (drop k bs, sent @ take k bs) else None)"
proof (induction k)
  case (Suc k)
  then show ?case
    by (cases "drop k bs") (auto simp: take_Suc_conv_app_nth Cons_nth_drop_Suc[symmetric] not_less_eq_eq
        dest: arg_cong[where f = length])
qed simp

definition scripted :: "nat \<Rightarrow> byte list asio" where
  \<comment> \<open>the one-step operations on a line of bytes to come, when so many of them arrive in time\<close>
  "scripted k = \<lparr>asio_open = (\<lambda>dev d. Some d), asio_baud_rate = (\<lambda>b d. Some d),
     asio_read = (\<lambda>n t d. (if k = n \<and> n \<le> length d then Done n else Pending, take k d, drop k d)),
     asio_read_until = (\<lambda>dl buf t d. (Pending, take k d, drop k d)),
     asio_write = (\<lambda>bs t d. (Pending, d)), asio_cancel = (\<lambda>d. d)\<rparr>"

lemma scripted_ok: "asio_ok (scripted k) (\<lambda>d. d) (\<lambda>d. [])"
  by (auto simp: asio_ok_def scripted_def split: if_splits)

definition scripted_write :: "nat \<Rightarrow> byte list asio" where
  \<comment> \<open>the port is what was sent; so many bytes go out in time\<close>
  "scripted_write k = \<lparr>asio_open = (\<lambda>dev d. Some d), asio_baud_rate = (\<lambda>b d. Some d),
     asio_read = (\<lambda>n t d. (Pending, [], d)), asio_read_until = (\<lambda>dl buf t d. (Pending, [], d)),
     asio_write = (\<lambda>bs t d. (if length bs \<le> k then Done (length bs) else Pending, d @ take k bs)),
     asio_cancel = (\<lambda>d. d)\<rparr>"

lemma scripted_write_ok: "asio_ok (scripted_write k) (\<lambda>d. []) (\<lambda>d. d)"
  by (auto simp: asio_ok_def scripted_write_def intro: exI[of _ k] exI[of _ "length _"] split: if_splits)

lemma read_ends:
  "partly_moved sz read_move (buf, line) c \<longleftrightarrow>
     (\<exists>k < sz. k \<le> length line \<and> c = (buf @ take k line, drop k line))"
  "wholly_handled sz read_move (read_handler sz dec) (buf, line) r c \<longleftrightarrow>
     sz \<le> length line \<and> r = \<lparr>packet = dec (take sz (buf @ take sz line)), didTimeout = False, bytesRead = 0\<rparr>
     \<and> c = (drop sz (buf @ take sz line), drop sz line)"
  by (auto simp: partly_moved_def wholly_handled_def read_moves read_handler_def)

lemma write_ends:
  "partly_moved (length bs) write_move (bs, sent) c \<longleftrightarrow> (\<exists>k < length bs. c = (drop k bs, sent @ take k bs))"
  "wholly_handled (length bs) write_move write_handler (bs, sent) ok c \<longleftrightarrow> ok \<and> c = ([], sent @ bs)"
  by (auto simp: partly_moved_def wholly_handled_def write_moves write_handler_def)

lemma readPacket_scripted:
  assumes "k \<le> length line" "k \<le> sz"
  shows "readPacket (scripted k) sz dec dflt (sc\<lparr>m_streamBuffer := buf, m_serialPort := line\<rparr>) =
    (if k = sz then
       (\<lparr>packet = dec (take sz (buf @ take sz line)), didTimeout = False, bytesRead = 0\<rparr>,
        sc\<lparr>m_streamBuffer := drop sz (buf @ take sz line), m_serialPort := drop sz line\<rparr>)
     else (default_ReadResult dflt, sc\<lparr>m_streamBuffer := buf @ take k line, m_serialPort := drop k line\<rparr>))"
  using assms by (simp add: readPacket_def scripted_def)

lemma writePacket_scripted:
  assumes "k \<le> length (enc p)"
  shows "writePacket (scripted_write k) enc (sc\<lparr>m_serialPort := sent\<rparr>) p =
    (k = length (enc p), sc\<lparr>m_serialPort := sent @ take k (enc p)\<rparr>)"
  using assms by (auto simp: writePacket_def scripted_write_def)

subsection \<open>Every interleaving against one step\<close>

lemma read_race_outcome:
  assumes "0 < sz" "async_runs sz read_move (read_handler sz dec) (default_ReadResult dflt) (async_begin (buf, line)) s"
    and "op_caller s = Returned r" "op_handler s = Finished" "op_channel s = (buf', line')"
  shows "(\<exists>k. readPacket (scripted k) sz dec dflt (sc\<lparr>m_streamBuffer := buf, m_serialPort := line\<rparr>)
        = (r, sc\<lparr>m_streamBuffer := buf', m_serialPort := line'\<rparr>))
    \<or> r = default_ReadResult dflt \<and> buf' = drop sz (buf @ take sz line) \<and> line' = drop sz line \<and> sz \<le> length line"
proof -
  note one = readPacket_scripted[where dec = dec and dflt = dflt and sc = sc and buf = buf]
  from async_outcome[OF assms(2,1,3,4)] consider
      (whole) "wholly_handled sz read_move (read_handler sz dec) (buf, line) r (buf', line')"
    | (part) k where "r = default_ReadResult dflt" "k < sz" "k \<le> length line" "buf' = buf @ take k line" "line' = drop k line"
    | (late) "r = default_ReadResult dflt"
        "\<exists>v. wholly_handled sz read_move (read_handler sz dec) (buf, line) v (buf', line')"
    unfolding assms(5) by (auto simp: read_ends(1))
  then show ?thesis
  proof cases
    case whole
    then have "readPacket (scripted sz) sz dec dflt (sc\<lparr>m_streamBuffer := buf, m_serialPort := line\<rparr>)
        = (r, sc\<lparr>m_streamBuffer := buf', m_serialPort := line'\<rparr>)"
      unfolding read_ends(2) using one[of sz line sz] by simp
    then show ?thesis by blast
  next
    case part
    then have "readPacket (scripted k) sz dec dflt (sc\<lparr>m_streamBuffer := buf, m_serialPort := line\<rparr>)
        = (r, sc\<lparr>m_streamBuffer := buf', m_serialPort := line'\<rparr>)" using one[of k line sz] by simp
    then show ?thesis by blast
  next
    case late
    then show ?thesis by (auto simp: read_ends)
  qed
qed

lemma write_race_outcome:
  assumes "enc p \<noteq> []" "async_runs (length (enc p)) write_move write_handler False (async_begin (enc p, sent)) s"
    and "op_caller s = Returned ok" "op_handler s = Finished" "op_channel s = (unsent, sent')"
  shows "(\<exists>k. writePacket (scripted_write k) enc (sc\<lparr>m_serialPort := sent\<rparr>) p = (ok, sc\<lparr>m_serialPort := sent'\<rparr>))
    \<or> \<not> ok \<and> sent' = sent @ enc p"
proof -
  have "0 < length (enc p)" using assms(1) by simp
  note one = writePacket_scripted[where enc = enc and p = p and sc = sc and sent = sent]
  from async_outcome[OF assms(2) \<open>0 < length (enc p)\<close> assms(3,4)] consider
      (whole) "ok" "sent' = sent @ enc p"
    | (part) k where "\<not> ok" "k < length (enc p)" "sent' = sent @ take k (enc p)"
    | (late) "\<not> ok" "sent' = sent @ enc p"
    unfolding assms(5) write_ends by auto
  then show ?thesis
  proof cases
    case whole
    then show ?thesis using one[of "length (enc p)"] by (intro disjI1 exI[of _ "length (enc p)"]) simp
  next
    case part
    then show ?thesis using one[of k] by (intro disjI1 exI[of _ k]) simp
  qed simp
qed

subsection \<open>Properties\<close>

text \<open>
  C21 The one-step reads and writes are what the interleavings of caller and handler amount to: when both are done without a
  fault, result, stream buffer, line and bytes sent are those of \<^verbatim>\<open>readPacket\<close> (\<^verbatim>\<open>writePacket\<close>) for the number of
  bytes that were transferred in time; with one exception, a packet that was completely transferred when the
  wait ended, which is taken off the stream (sent) although the call reports a timeout.
\<close>
theorem race_outcomes:
  assumes "0 < sz" "async_runs sz read_move (read_handler sz dec) (default_ReadResult dflt) (async_begin (buf, line)) s"
    and "op_caller s = Returned r" "op_handler s = Finished" "op_channel s = (buf', line')"
    and "enc p \<noteq> []" "async_runs (length (enc p)) write_move write_handler False (async_begin (enc p, sent)) v"
    and "op_caller v = Returned ok" "op_handler v = Finished" "op_channel v = (unsent, sent')"
  shows "((\<exists>k. readPacket (scripted k) sz dec dflt (sc\<lparr>m_streamBuffer := buf, m_serialPort := line\<rparr>)
          = (r, sc\<lparr>m_streamBuffer := buf', m_serialPort := line'\<rparr>))
      \<or> r = default_ReadResult dflt \<and> buf' = drop sz (buf @ take sz line) \<and> line' = drop sz line \<and> sz \<le> length line)
    \<and> ((\<exists>k. writePacket (scripted_write k) enc (sc\<lparr>m_serialPort := sent\<rparr>) p = (ok, sc\<lparr>m_serialPort := sent'\<rparr>))
      \<or> \<not> ok \<and> sent' = sent @ enc p)"
  using read_race_outcome[OF assms(1-5)] write_race_outcome[where enc = enc and p = p, OF assms(6-10)] by blast

definition race_controller :: "byte list SerialController" where
  "race_controller = \<lparr>c_ttyDev = [], c_baudRate = 0, c_readTimeoutMs = 500, c_writeTimeoutMs = 500,
     c_handshakeTerminationStr = [], m_streamBuffer = [], m_serialPort = [1]\<rparr>"

theorem race_outcomes_witness:
  "\<exists>k. readPacket (scripted k) 1 dec_HandshakePacket default_HandshakePacket race_controller
    = (\<lparr>packet = \<lparr>handshake = 1\<rparr>, didTimeout = False, bytesRead = 0\<rparr>, race_controller\<lparr>m_serialPort := []\<rparr>)"
proof -
  let ?d = "default_ReadResult default_HandshakePacket" and ?p = "default_HandshakePacket"
  let ?r = "\<lparr>packet = \<lparr>handshake = 1\<rparr>, didTimeout = False, bytesRead = 0\<rparr> :: HandshakePacket ReadResult"
  have e: "enc_HandshakePacket ?p = [0]" "length (enc_HandshakePacket ?p) = 1"
    by (simp_all add: enc_HandshakePacket_def default_HandshakePacket_def)
  have "moves read_move 1 ([], [1]) = Some ([1], [])"
    "read_handler 1 dec_HandshakePacket ([1], []) = (?r, ([], []))"
    by (simp_all add: read_handler_def dec_HandshakePacket_def byte_at_def)
  from async_in_time[where dflt = ?d and handle = "read_handler 1 dec_HandshakePacket", OF this zero_less_one]
  obtain s where s: "async_runs 1 read_move (read_handler 1 dec_HandshakePacket) ?d (async_begin ([], [1])) s"
    "op_caller s = Returned ?r" "op_handler s = Finished" "op_channel s = ([], [])" by blast
  have "moves write_move (length (enc_HandshakePacket ?p)) (enc_HandshakePacket ?p, []) = Some ([], [0])"
    "write_handler ([], [0]) = (True, ([], [0]))" "0 < length (enc_HandshakePacket ?p)"
    using e by (simp_all add: write_handler_def)
  from async_in_time[where dflt = False and handle = write_handler, OF this]
  obtain v where v: "async_runs (length (enc_HandshakePacket ?p)) write_move write_handler False
      (async_begin (enc_HandshakePacket ?p, [])) v"
    "op_caller v = Returned True" "op_handler v = Finished" "op_channel v = ([], [0])" by blast
  have "enc_HandshakePacket ?p \<noteq> []" using e by simp
  from race_outcomes[where sc = race_controller and enc = enc_HandshakePacket and p = ?p,
      OF zero_less_one s(1-4) this v(1-4)] have
    "\<exists>k. readPacket (scripted k) 1 dec_HandshakePacket default_HandshakePacket
      (race_controller\<lparr>m_streamBuffer := [], m_serialPort := [1]\<rparr>)
      = (?r, race_controller\<lparr>m_streamBuffer := [], m_serialPort := []\<rparr>)"
    by (auto simp: default_ReadResult_def)
  then show ?thesis by (simp add: race_controller_def)
qed

text \<open>
  C22 What a completion behind the timeout does: whenever the bytes of the packet are there to come, the read can time
  out with all of them transferred, return the default packet as a timeout, and its handler, running
  later, takes the packet off the buffer and sets a promise whose scope has ended, which is
  undefined; the same for every write. This is the only fault of either: a fault of the read (write) is this one, it comes
  after the call has returned a timeout, and all the bytes were there (have been sent).
\<close>
theorem late_completion:
  assumes "0 < sz" "enc p \<noteq> []"
  shows "(sz \<le> length line \<longrightarrow> (\<exists>s. async_runs sz read_move (read_handler sz dec) (default_ReadResult dflt)
          (async_begin (buf, line)) s
        \<and> op_caller s = Returned (default_ReadResult dflt) \<and> op_channel s = (drop sz (buf @ take sz line), drop sz line)
        \<and> async_step sz read_move (read_handler sz dec) (default_ReadResult dflt) s (Inl (Undefined DanglingReference))))
    \<and> (\<exists>s. async_runs (length (enc p)) write_move write_handler False (async_begin (enc p, sent)) s
        \<and> op_caller s = Returned False \<and> op_channel s = ([], sent @ enc p)
        \<and> async_step (length (enc p)) write_move write_handler False s (Inl (Undefined DanglingReference)))
    \<and> (\<forall>s e. async_runs sz read_move (read_handler sz dec) (default_ReadResult dflt) (async_begin (buf, line)) s
        \<and> async_step sz read_move (read_handler sz dec) (default_ReadResult dflt) s (Inl e)
        \<longrightarrow> e = Undefined DanglingReference \<and> op_caller s = Returned (default_ReadResult dflt) \<and> sz \<le> length line)
    \<and> (\<forall>s e. async_runs (length (enc p)) write_move write_handler False (async_begin (enc p, sent)) s
        \<and> async_step (length (enc p)) write_move write_handler False s (Inl e)
        \<longrightarrow> e = Undefined DanglingReference \<and> op_caller s = Returned False \<and> op_channel s = ([], sent @ enc p))"
proof (intro conjI allI impI)
  assume l: "sz \<le> length line"
  let ?r = "\<lparr>packet = dec (take sz (buf @ take sz line)), didTimeout = False, bytesRead = 0\<rparr>"
  have "moves read_move sz (buf, line) = Some (buf @ take sz line, drop sz line)"
    "read_handler sz dec (buf @ take sz line, drop sz line) = (?r, (drop sz (buf @ take sz line), drop sz line))"
    using l by (simp_all add: read_moves read_handler_def)
  from async_late[where handle = "read_handler sz dec" and dflt = "default_ReadResult dflt", OF this assms(1)]
  show "\<exists>s. async_runs sz read_move (read_handler sz dec) (default_ReadResult dflt) (async_begin (buf, line)) s
      \<and> op_caller s = Returned (default_ReadResult dflt) \<and> op_channel s = (drop sz (buf @ take sz line), drop sz line)
      \<and> async_step sz read_move (read_handler sz dec) (default_ReadResult dflt) s (Inl (Undefined DanglingReference))"
    by blast
next
  have "moves write_move (length (enc p)) (enc p, sent) = Some ([], sent @ enc p)"
    "write_handler ([], sent @ enc p) = (True, ([], sent @ enc p))" "0 < length (enc p)"
    using assms(2) by (simp_all add: write_moves write_handler_def)
  from async_late[where handle = write_handler and dflt = False, OF this]
  show "\<exists>s. async_runs (length (enc p)) write_move write_handler False (async_begin (enc p, sent)) s
      \<and> op_caller s = Returned False \<and> op_channel s = ([], sent @ enc p)
      \<and> async_step (length (enc p)) write_move write_handler False s (Inl (Undefined DanglingReference))"
    by blast
next
  fix s e
  assume h: "async_runs sz read_move (read_handler sz dec) (default_ReadResult dflt) (async_begin (buf, line)) s
    \<and> async_step sz read_move (read_handler sz dec) (default_ReadResult dflt) s (Inl e)"
  from async_fault[OF conjunct1[OF h] assms(1) conjunct2[OF h]] obtain v where
    f: "e = Undefined DanglingReference" "op_caller s = Returned (default_ReadResult dflt)"
      "wholly_handled sz read_move (read_handler sz dec) (buf, line) v (op_channel s)" by blast
  show "e = Undefined DanglingReference" "op_caller s = Returned (default_ReadResult dflt)" "sz \<le> length line"
    using f by (auto simp: read_ends)
next
  fix s e
  assume h: "async_runs (length (enc p)) write_move write_handler False (async_begin (enc p, sent)) s
    \<and> async_step (length (enc p)) write_move write_handler False s (Inl e)"
  have "0 < length (enc p)" using assms(2) by simp
  from async_fault[OF conjunct1[OF h] this conjunct2[OF h]] obtain v where
    f: "e = Undefined DanglingReference" "op_caller s = Returned False"
      "wholly_handled (length (enc p)) write_move write_handler (enc p, sent) v (op_channel s)" by blast
  show "e = Undefined DanglingReference" "op_caller s = Returned False" "op_channel s = ([], sent @ enc p)"
    using f by (auto simp: wholly_handled_def write_moves write_handler_def)
qed

theorem late_completion_witness:
  "\<exists>s. async_runs 1 read_move (read_handler 1 dec_HandshakePacket) (default_ReadResult default_HandshakePacket)
      (async_begin ([], [1])) s
    \<and> op_caller s = Returned (default_ReadResult default_HandshakePacket) \<and> op_channel s = ([], [])
    \<and> async_step 1 read_move (read_handler 1 dec_HandshakePacket) (default_ReadResult default_HandshakePacket) s
        (Inl (Undefined DanglingReference))"
proof -
  have "enc_HandshakePacket default_HandshakePacket \<noteq> []" by (simp add: enc_HandshakePacket_def)
  from late_completion[where enc = enc_HandshakePacket and p = default_HandshakePacket, OF zero_less_one this,
      of "[1]" dec_HandshakePacket default_HandshakePacket "[]" "[]"]
  show ?thesis by auto
qed

end
