(* ===== verification/FlushRace.thy ===== *)
theory FlushRace
  imports SerialRace
begin

section \<open>The handler of flush against the handshake\<close>

text \<open>
  The handler of \<^verbatim>\<open>flush\<close> (\<^verbatim>\<open>io/SerialController\<close>) sets its promise first and consumes the buffer afterwards, so the caller can
  be on its way while the bytes are still in the buffer. \<^verbatim>\<open>handshakeMCU\<close> (\<^verbatim>\<open>som/SomController\<close>) goes on with
  \<^verbatim>\<open>writePacket\<close>, and only then reads. Here the calling thread, the two operations and the thread
  of the \<^verbatim>\<open>io_service\<close>, on which the handlers run one after the other, are interleaved step by step. The
  lemmas show that the write settles the matter: its handler runs behind that of the flush.
\<close>

datatype handshake_caller =
    AwaitFlush | FlushTimedOut | FlushCancelled | FlushReturned bool
  | AwaitWrite | WriteTimedOut | WriteCancelled | WriteReturned bool

datatype flush_op =
    Matching
  | Matched "nat option"   \<comment> \<open>the handler is to run, with the size of the match or an error\<close>
  | FlushSet nat           \<comment> \<open>in front of \<^verbatim>\<open>set_value\<close>\<close>
  | FlushConsume nat       \<comment> \<open>in front of \<^verbatim>\<open>consume\<close>\<close>
  | FlushOver

datatype write_op = NotBegun | Sending | Sent bool | WriteSet | WriteOver

record handshake_race =
  hr_caller :: handshake_caller
  hr_flush :: flush_op
  hr_write :: write_op
  hr_flushed :: bool       \<comment> \<open>the promise of \<^verbatim>\<open>flush\<close> is set\<close>
  hr_written :: bool       \<comment> \<open>the promise of \<^verbatim>\<open>writePacket\<close> is set\<close>
  hr_buffer :: "byte list"
  hr_line :: "byte list"   \<comment> \<open>the bytes still to come\<close>
  hr_unsent :: "byte list"
  hr_sent :: "byte list"

definition race_begin :: "byte list \<Rightarrow> byte list \<Rightarrow> byte list \<Rightarrow> handshake_race" where
  \<comment> \<open>\<^verbatim>\<open>flush\<close> has started its operation\<close>
  "race_begin buf line sent = \<lparr>hr_caller = AwaitFlush, hr_flush = Matching, hr_write = NotBegun,
     hr_flushed = False, hr_written = False, hr_buffer = buf, hr_line = line, hr_unsent = [], hr_sent = sent\<rparr>"

definition io_busy :: "handshake_race \<Rightarrow> bool" where
  \<comment> \<open>a handler is running\<close>
  "io_busy s \<longleftrightarrow> (case hr_flush s of FlushSet n \<Rightarrow> True | FlushConsume n \<Rightarrow> True | _ \<Rightarrow> False) \<or> hr_write s = WriteSet"

inductive handshake_step ::
  "byte list \<Rightarrow> byte list \<Rightarrow> handshake_race \<Rightarrow> handshake_race res \<Rightarrow> bool"
  for dl :: "byte list" and pkt :: "byte list" where
  \<comment> \<open>the operation of \<^verbatim>\<open>flush\<close>\<close>
  receive: "hr_flush s = Matching \<Longrightarrow> first_end dl (hr_buffer s) = None \<Longrightarrow> k \<le> length (hr_line s)
    \<Longrightarrow> handshake_step dl pkt s
          (Inr (s\<lparr>hr_buffer := hr_buffer s @ take k (hr_line s), hr_line := drop k (hr_line s)\<rparr>))"
| matches: "hr_flush s = Matching \<Longrightarrow> first_end dl (hr_buffer s) = Some n
    \<Longrightarrow> handshake_step dl pkt s (Inr (s\<lparr>hr_flush := Matched (Some n)\<rparr>))"
| line_fails: "hr_flush s = Matching \<Longrightarrow> handshake_step dl pkt s (Inr (s\<lparr>hr_flush := Matched None\<rparr>))"
| flush_error: "hr_flush s = Matched None \<Longrightarrow> \<not> io_busy s
    \<Longrightarrow> handshake_step dl pkt s (Inr (s\<lparr>hr_flush := FlushOver\<rparr>))"
| flush_handler: "hr_flush s = Matched (Some n) \<Longrightarrow> \<not> io_busy s
    \<Longrightarrow> handshake_step dl pkt s (Inr (s\<lparr>hr_flush := FlushSet n\<rparr>))"
| flush_set: "hr_flush s = FlushSet n \<Longrightarrow> hr_caller s \<in> {AwaitFlush, FlushTimedOut, FlushCancelled}
    \<Longrightarrow> handshake_step dl pkt s (Inr (s\<lparr>hr_flush := FlushConsume n, hr_flushed := True\<rparr>))"
| flush_dangling: "hr_flush s = FlushSet n \<Longrightarrow> hr_caller s \<notin> {AwaitFlush, FlushTimedOut, FlushCancelled}
    \<Longrightarrow> handshake_step dl pkt s (Inl (Undefined DanglingReference))"
| flush_consume: "hr_flush s = FlushConsume n
    \<Longrightarrow> handshake_step dl pkt s (Inr (s\<lparr>hr_flush := FlushOver, hr_buffer := drop (n * 2) (hr_buffer s)\<rparr>))"
  \<comment> \<open>the operation of \<^verbatim>\<open>writePacket\<close>\<close>
| send: "hr_write s = Sending \<Longrightarrow> hr_unsent s = b # bs
    \<Longrightarrow> handshake_step dl pkt s (Inr (s\<lparr>hr_unsent := bs, hr_sent := hr_sent s @ [b]\<rparr>))"
| sends_all: "hr_write s = Sending \<Longrightarrow> hr_unsent s = []
    \<Longrightarrow> handshake_step dl pkt s (Inr (s\<lparr>hr_write := Sent True\<rparr>))"
| send_fails: "hr_write s = Sending \<Longrightarrow> handshake_step dl pkt s (Inr (s\<lparr>hr_write := Sent False\<rparr>))"
| write_error: "hr_write s = Sent False \<Longrightarrow> \<not> io_busy s
    \<Longrightarrow> handshake_step dl pkt s (Inr (s\<lparr>hr_write := WriteOver\<rparr>))"
| write_handler: "hr_write s = Sent True \<Longrightarrow> \<not> io_busy s
    \<Longrightarrow> handshake_step dl pkt s (Inr (s\<lparr>hr_write := WriteSet\<rparr>))"
| write_set: "hr_write s = WriteSet \<Longrightarrow> hr_caller s \<in> {AwaitWrite, WriteTimedOut, WriteCancelled}
    \<Longrightarrow> handshake_step dl pkt s (Inr (s\<lparr>hr_write := WriteOver, hr_written := True\<rparr>))"
| write_dangling: "hr_write s = WriteSet \<Longrightarrow> hr_caller s \<notin> {AwaitWrite, WriteTimedOut, WriteCancelled}
    \<Longrightarrow> handshake_step dl pkt s (Inl (Undefined DanglingReference))"
  \<comment> \<open>the calling thread\<close>
| flush_ready: "hr_caller s = AwaitFlush \<Longrightarrow> hr_flushed s
    \<Longrightarrow> handshake_step dl pkt s (Inr (s\<lparr>hr_caller := FlushReturned True\<rparr>))"
| flush_times_out: "hr_caller s = AwaitFlush \<Longrightarrow> \<not> hr_flushed s
    \<Longrightarrow> handshake_step dl pkt s (Inr (s\<lparr>hr_caller := FlushTimedOut\<rparr>))"
| flush_cancel: "hr_caller s = FlushTimedOut
    \<Longrightarrow> handshake_step dl pkt s (Inr (s\<lparr>hr_caller := FlushCancelled,
          hr_flush := (case hr_flush s of Matching \<Rightarrow> Matched None | f \<Rightarrow> f)\<rparr>))"
| flush_cancel_throws: "hr_caller s = FlushTimedOut
    \<Longrightarrow> handshake_step dl pkt s (Inr (s\<lparr>hr_caller := FlushCancelled\<rparr>))"
| flush_gives_up: "hr_caller s = FlushCancelled
    \<Longrightarrow> handshake_step dl pkt s (Inr (s\<lparr>hr_caller := FlushReturned False\<rparr>))"
| asserts: "hr_caller s = FlushReturned False \<Longrightarrow> handshake_step dl pkt s (Inl Exited)"
| begin_write: "hr_caller s = FlushReturned True
    \<Longrightarrow> handshake_step dl pkt s (Inr (s\<lparr>hr_caller := AwaitWrite, hr_write := Sending, hr_unsent := pkt\<rparr>))"
| write_ready: "hr_caller s = AwaitWrite \<Longrightarrow> hr_written s
    \<Longrightarrow> handshake_step dl pkt s (Inr (s\<lparr>hr_caller := WriteReturned True\<rparr>))"
| write_times_out: "hr_caller s = AwaitWrite \<Longrightarrow> \<not> hr_written s
    \<Longrightarrow> handshake_step dl pkt s (Inr (s\<lparr>hr_caller := WriteTimedOut\<rparr>))"
| write_cancel: "hr_caller s = WriteTimedOut
    \<Longrightarrow> handshake_step dl pkt s (Inr (s\<lparr>hr_caller := WriteCancelled,
          hr_write := (case hr_write s of Sending \<Rightarrow> Sent False | w \<Rightarrow> w)\<rparr>))"
| write_cancel_throws: "hr_caller s = WriteTimedOut
    \<Longrightarrow> handshake_step dl pkt s (Inr (s\<lparr>hr_caller := WriteCancelled\<rparr>))"
| write_gives_up: "hr_caller s = WriteCancelled
    \<Longrightarrow> handshake_step dl pkt s (Inr (s\<lparr>hr_caller := WriteReturned False\<rparr>))"

inductive_cases handshake_stepE: "handshake_step dl pkt s t"

abbreviation handshake_steps :: "byte list \<Rightarrow> byte list \<Rightarrow> handshake_race \<Rightarrow> handshake_race \<Rightarrow> bool" where
  "handshake_steps dl pkt \<equiv> (\<lambda>s t. handshake_step dl pkt s (Inr t))\<^sup>*\<^sup>*"

subsection \<open>The invariant\<close>

definition matched :: "byte list \<Rightarrow> byte list \<Rightarrow> byte list \<Rightarrow> nat \<Rightarrow> handshake_race \<Rightarrow> bool" where
  "matched dl buf line n s \<longleftrightarrow> first_end dl (hr_buffer s) = Some n
     \<and> (\<exists>j \<le> length line. hr_buffer s = buf @ take j line \<and> hr_line s = drop j line)"

definition consumed :: "byte list \<Rightarrow> byte list \<Rightarrow> byte list \<Rightarrow> handshake_race \<Rightarrow> bool" where
  "consumed dl buf line s \<longleftrightarrow> (\<exists>j n. j \<le> length line \<and> first_end dl (buf @ take j line) = Some n
     \<and> hr_buffer s = drop (n * 2) (buf @ take j line) \<and> hr_line s = drop j line)"

definition flush_inv :: "byte list \<Rightarrow> byte list \<Rightarrow> byte list \<Rightarrow> handshake_race \<Rightarrow> bool" where
  "flush_inv dl buf line s \<longleftrightarrow>
     (case hr_flush s of
        Matching \<Rightarrow> \<not> hr_flushed s \<and> (\<exists>j \<le> length line. hr_buffer s = buf @ take j line \<and> hr_line s = drop j line)
      | Matched m \<Rightarrow> \<not> hr_flushed s \<and> (\<forall>n. m = Some n \<longrightarrow> matched dl buf line n s)
      | FlushSet n \<Rightarrow> \<not> hr_flushed s \<and> matched dl buf line n s
      | FlushConsume n \<Rightarrow> hr_flushed s \<and> matched dl buf line n s
      | FlushOver \<Rightarrow> hr_flushed s \<longrightarrow> consumed dl buf line s)"

definition write_inv :: "byte list \<Rightarrow> byte list \<Rightarrow> handshake_race \<Rightarrow> bool" where
  "write_inv pkt sent s \<longleftrightarrow>
     (case hr_write s of
        NotBegun \<Rightarrow> \<not> hr_written s \<and> hr_sent s = sent
      | Sending \<Rightarrow> \<not> hr_written s \<and> hr_flushed s \<and> hr_sent s @ hr_unsent s = sent @ pkt
      | Sent ok \<Rightarrow> \<not> hr_written s \<and> hr_flushed s \<and> (ok \<longrightarrow> hr_sent s = sent @ pkt)
      | WriteSet \<Rightarrow> \<not> hr_written s \<and> hr_flushed s \<and> hr_flush s = FlushOver \<and> hr_sent s = sent @ pkt
      | WriteOver \<Rightarrow> hr_flushed s \<and> hr_flush s = FlushOver \<and> (hr_written s \<longrightarrow> hr_sent s = sent @ pkt))"

definition caller_inv :: "handshake_race \<Rightarrow> bool" where
  "caller_inv s \<longleftrightarrow>
     (case hr_caller s of
        FlushReturned ok \<Rightarrow> hr_write s = NotBegun \<and> (ok \<longrightarrow> hr_flushed s)
      | AwaitWrite \<Rightarrow> hr_write s \<noteq> NotBegun | WriteTimedOut \<Rightarrow> hr_write s \<noteq> NotBegun
      | WriteCancelled \<Rightarrow> hr_write s \<noteq> NotBegun
      | WriteReturned ok \<Rightarrow> hr_write s \<noteq> NotBegun \<and> (ok \<longrightarrow> hr_written s)
      | _ \<Rightarrow> hr_write s = NotBegun)"

lemmas race_inv_defs = flush_inv_def write_inv_def caller_inv_def

lemma race_inv_begin:
  "flush_inv dl buf line (race_begin buf line sent) \<and> write_inv pkt sent (race_begin buf line sent)
   \<and> caller_inv (race_begin buf line sent)"
  by (auto simp: race_inv_defs race_begin_def intro!: exI[of _ 0])

lemma flush_inv_step:
  assumes "handshake_step dl pkt s (Inr s')" "flush_inv dl buf line s"
  shows "flush_inv dl buf line s'"
  using assms
proof cases
  case (receive k)
  then obtain j where j: "j \<le> length line" "hr_buffer s = buf @ take j line" "hr_line s = drop j line" "\<not> hr_flushed s"
    using assms(2) by (auto simp: flush_inv_def)
  then have "hr_buffer s' = buf @ take (j + k) line" "hr_line s' = drop (j + k) line" "j + k \<le> length line"
    using receive by (simp_all add: take_add add.commute)
  then show ?thesis using receive j(4) by (auto simp: flush_inv_def)
qed (use assms(2) in \<open>auto simp: flush_inv_def matched_def consumed_def split: flush_op.splits\<close>)

lemma write_inv_step:
  assumes "handshake_step dl pkt s (Inr s')" "flush_inv dl buf line s" "write_inv pkt sent s" "caller_inv s"
  shows "write_inv pkt sent s'"
  using assms(1)
  by cases (use assms(2-4) in \<open>auto simp: race_inv_defs io_busy_def split: flush_op.splits write_op.splits\<close>)

lemma caller_inv_step:
  assumes "handshake_step dl pkt s (Inr s')" "caller_inv s"
  shows "caller_inv s'"
  using assms(1)
  by cases (use assms(2) in \<open>auto simp: caller_inv_def split: handshake_caller.splits write_op.splits\<close>)

lemma race_inv_steps:
  assumes "handshake_steps dl pkt (race_begin buf line sent) s"
  shows "flush_inv dl buf line s \<and> write_inv pkt sent s \<and> caller_inv s"
  using assms
proof (induction rule: rtranclp_induct)
  case base
  show ?case by (rule race_inv_begin)
next
  case (step s t)
  note i = conjunct1[OF step.IH] conjunct1[OF conjunct2[OF step.IH]] conjunct2[OF conjunct2[OF step.IH]]
  show ?case
    using flush_inv_step[OF step.hyps(2) i(1)] write_inv_step[OF step.hyps(2) i] caller_inv_step[OF step.hyps(2) i(3)]
    by blast
qed

subsection \<open>Every interleaving against two steps\<close>

definition scripted_handshake :: "nat \<Rightarrow> (byte list \<times> byte list) asio" where
  \<comment> \<open>the one-step operations on a line, the bytes to come and the bytes sent, when so many arrive until the match\<close>
  "scripted_handshake j = \<lparr>asio_open = (\<lambda>dev d. Some d), asio_baud_rate = (\<lambda>b d. Some d),
     asio_read = (\<lambda>n t d. (Pending, [], d)),
     asio_read_until = (\<lambda>dl buf t (line, sent).
       (case first_end dl (buf @ take j line) of Some n \<Rightarrow> Done n | None \<Rightarrow> Pending, take j line, (drop j line, sent))),
     asio_write = (\<lambda>bs t (line, sent). (Done (length bs), (line, sent @ bs))), asio_cancel = (\<lambda>d. d)\<rparr>"

lemma scripted_handshake_ok: "asio_ok (scripted_handshake j) fst snd"
  by (auto simp: asio_ok_def scripted_handshake_def split: option.splits) (metis order_refl take_all)

lemma settled_two_steps:
  assumes "handshake_steps (string_bytes (c_handshakeTerminationStr sc)) (enc p) (race_begin buf line sent) s"
    and "hr_caller s = WriteReturned True"
  shows "\<exists>j sc'. flush (scripted_handshake j) (sc\<lparr>m_streamBuffer := buf, m_serialPort := (line, sent)\<rparr>) = (True, sc')
    \<and> writePacket (scripted_handshake j) enc sc' p
      = (True, sc\<lparr>m_streamBuffer := hr_buffer s, m_serialPort := (hr_line s, hr_sent s)\<rparr>)"
proof -
  let ?dl = "string_bytes (c_handshakeTerminationStr sc)"
  have "hr_written s" "hr_write s \<noteq> NotBegun" using race_inv_steps[OF assms(1)] assms(2) by (auto simp: caller_inv_def)
  then have "hr_flush s = FlushOver" "hr_flushed s" "hr_sent s = sent @ enc p"
    using race_inv_steps[OF assms(1)] by (auto simp: write_inv_def split: write_op.splits)
  then have "consumed ?dl buf line s" using race_inv_steps[OF assms(1)] by (auto simp: flush_inv_def)
  then obtain j n where "j \<le> length line" "first_end ?dl (buf @ take j line) = Some n"
    "hr_buffer s = drop (n * 2) (buf @ take j line)" "hr_line s = drop j line" by (auto simp: consumed_def)
  then show ?thesis using \<open>hr_sent s = sent @ enc p\<close>
    by (intro exI[of _ j]) (simp add: flush_def writePacket_def scripted_handshake_def)
qed

lemma race_faults:
  assumes "handshake_steps dl pkt (race_begin buf line sent) s" "handshake_step dl pkt s (Inl e)"
  shows "hr_caller s \<in> {FlushReturned False, WriteReturned False}"
  using assms(2) race_inv_steps[OF assms(1)]
  by (elim handshake_stepE) (auto simp: race_inv_defs split: handshake_caller.splits write_op.splits)

lemma race_step:
  "handshake_step dl pkt s (Inr t) \<Longrightarrow> handshake_steps dl pkt t u \<Longrightarrow> handshake_steps dl pkt s u"
  by (rule converse_rtranclp_into_rtranclp)

lemma early_return:
  \<comment> \<open>\<^verbatim>\<open>flush\<close> has returned and the bytes are still in the buffer\<close>
  assumes "first_end dl buf = None" "first_end dl (buf @ line) = Some n"
  shows "handshake_steps dl pkt (race_begin buf line sent)
    ((race_begin (buf @ line) [] sent)\<lparr>hr_caller := FlushReturned True, hr_flush := FlushConsume n, hr_flushed := True\<rparr>)"
  by (rule race_step[OF handshake_step.receive[where k = "length line"]];
      (rule race_step[OF handshake_step.matches[where n = n]])?;
      (rule race_step[OF handshake_step.flush_handler[where n = n]])?;
      (rule race_step[OF handshake_step.flush_set[where n = n]])?;
      (rule race_step[OF handshake_step.flush_ready])?;
      simp add: race_begin_def assms io_busy_def)

lemma race_sends:
  "hr_write s = Sending \<Longrightarrow> hr_unsent s = bs
   \<Longrightarrow> handshake_steps dl pkt s (s\<lparr>hr_unsent := [], hr_sent := hr_sent s @ bs, hr_write := Sent True\<rparr>)"
proof (induction bs arbitrary: s)
  case Nil
  then show ?case using handshake_step.sends_all[of s dl pkt] by (cases s) auto
next
  case (Cons b bs)
  let ?s = "s\<lparr>hr_unsent := bs, hr_sent := hr_sent s @ [b]\<rparr>"
  have "handshake_steps dl pkt ?s (s\<lparr>hr_unsent := [], hr_sent := hr_sent s @ b # bs, hr_write := Sent True\<rparr>)"
    using Cons.IH[of ?s] Cons.prems by simp
  with handshake_step.send[OF Cons.prems] show ?case by (rule race_step)
qed

lemma settled_reachable:
  assumes "first_end dl buf = None" "first_end dl (buf @ line) = Some n"
  shows "handshake_steps dl pkt (race_begin buf line sent)
    ((race_begin (drop (n * 2) (buf @ line)) [] (sent @ pkt))\<lparr>hr_caller := WriteReturned True, hr_flush := FlushOver,
      hr_flushed := True, hr_write := WriteOver, hr_written := True\<rparr>)"
proof -
  let ?s = "(race_begin (buf @ line) [] sent)\<lparr>hr_caller := FlushReturned True, hr_flush := FlushConsume n,
    hr_flushed := True\<rparr>"
  let ?t = "?s\<lparr>hr_caller := AwaitWrite, hr_write := Sending, hr_unsent := pkt\<rparr>"
  let ?u = "?t\<lparr>hr_unsent := [], hr_sent := sent @ pkt, hr_write := Sent True\<rparr>"
  have "handshake_step dl pkt ?s (Inr ?t)" by (rule handshake_step.begin_write) simp
  with early_return[OF assms] have "handshake_steps dl pkt (race_begin buf line sent) ?t"
    by (rule rtranclp.rtrancl_into_rtrancl)
  moreover have "handshake_steps dl pkt ?t ?u" using race_sends[of ?t pkt dl pkt] by (simp add: race_begin_def)
  moreover have "handshake_steps dl pkt ?u
    ((race_begin (drop (n * 2) (buf @ line)) [] (sent @ pkt))\<lparr>hr_caller := WriteReturned True, hr_flush := FlushOver,
      hr_flushed := True, hr_write := WriteOver, hr_written := True\<rparr>)"
    by (rule race_step[OF handshake_step.flush_consume[where n = n]];
        (rule race_step[OF handshake_step.write_handler])?;
        (rule race_step[OF handshake_step.write_set])?;
        (rule race_step[OF handshake_step.write_ready])?;
        simp add: race_begin_def io_busy_def)
  ultimately show ?thesis by (meson rtranclp_trans)
qed

subsection \<open>Properties\<close>

text \<open>
  C24 The handshake need not fear that the handler of \<^verbatim>\<open>flush\<close> sets its promise before it consumes the
  buffer: \<^verbatim>\<open>flush\<close> can return with the discarded bytes still in the buffer, but when the write behind it has returned
  true, in every interleaving of the caller with the two handlers, they are gone, and buffer, line and bytes
  sent are those of the one-step \<^verbatim>\<open>flush\<close> followed by the one-step \<^verbatim>\<open>writePacket\<close>. A
  fault needs a timeout of one of the two.
\<close>
theorem flush_settled:
  assumes dl: "dl = string_bytes (c_handshakeTerminationStr (sc :: (byte list \<times> byte list) SerialController))"
    and r: "handshake_steps dl (enc p) (race_begin buf line sent) s"
  shows "(hr_caller s = WriteReturned True \<longrightarrow>
      (\<exists>j sc'. flush (scripted_handshake j) (sc\<lparr>m_streamBuffer := buf, m_serialPort := (line, sent)\<rparr>) = (True, sc')
        \<and> writePacket (scripted_handshake j) enc sc' p
          = (True, sc\<lparr>m_streamBuffer := hr_buffer s, m_serialPort := (hr_line s, hr_sent s)\<rparr>)))
    \<and> (\<forall>e. handshake_step dl (enc p) s (Inl e) \<longrightarrow> hr_caller s \<in> {FlushReturned False, WriteReturned False})
    \<and> (first_end dl buf = None \<and> first_end dl (buf @ line) \<noteq> None \<longrightarrow>
        (\<exists>t. handshake_steps dl (enc p) (race_begin buf line sent) t \<and> hr_caller t = FlushReturned True
          \<and> hr_buffer t = buf @ line))"
proof (intro conjI impI allI)
  assume "hr_caller s = WriteReturned True"
  with r show "\<exists>j sc'. flush (scripted_handshake j) (sc\<lparr>m_streamBuffer := buf, m_serialPort := (line, sent)\<rparr>) = (True, sc')
      \<and> writePacket (scripted_handshake j) enc sc' p
        = (True, sc\<lparr>m_streamBuffer := hr_buffer s, m_serialPort := (hr_line s, hr_sent s)\<rparr>)"
    unfolding dl by (rule settled_two_steps)
next
  assume "first_end dl buf = None \<and> first_end dl (buf @ line) \<noteq> None"
  then show "\<exists>t. handshake_steps dl (enc p) (race_begin buf line sent) t \<and> hr_caller t = FlushReturned True
      \<and> hr_buffer t = buf @ line"
    using early_return[of dl buf line _ "enc p" sent] by (fastforce simp: race_begin_def)
qed (rule race_faults[OF r])

theorem flush_settled_witness:
  "\<exists>j sc'. flush (scripted_handshake j) \<lparr>c_ttyDev = [], c_baudRate = 0, c_readTimeoutMs = 500, c_writeTimeoutMs = 500,
      c_handshakeTerminationStr = ''!'', m_streamBuffer = [7], m_serialPort = ([33, 5, 6, 8], [])\<rparr> = (True, sc')
    \<and> writePacket (scripted_handshake j) enc_HandshakePacket sc' \<lparr>handshake = 1\<rparr>
      = (True, \<lparr>c_ttyDev = [], c_baudRate = 0, c_readTimeoutMs = 500, c_writeTimeoutMs = 500,
      c_handshakeTerminationStr = ''!'', m_streamBuffer = [8], m_serialPort = ([], [1])\<rparr>)"
proof -
  let ?sc = "\<lparr>c_ttyDev = [], c_baudRate = 0, c_readTimeoutMs = 500, c_writeTimeoutMs = 500,
      c_handshakeTerminationStr = ''!'', m_streamBuffer = [7], m_serialPort = ([33, 5, 6, 8], [])\<rparr>
      :: (byte list \<times> byte list) SerialController"
  have d: "string_bytes (c_handshakeTerminationStr ?sc) = [33]" by code_simp
  have "first_end [33] [7 :: byte] = None" "first_end [33] ([7] @ [33, 5, 6, 8 :: byte]) = Some 2" by code_simp+
  from settled_reachable[OF this, of "enc_HandshakePacket \<lparr>handshake = 1\<rparr>" "[]"]
  have "handshake_steps [33] (enc_HandshakePacket \<lparr>handshake = 1\<rparr>) (race_begin [7] [33, 5, 6, 8] [])
    ((race_begin [8] [] [1])\<lparr>hr_caller := WriteReturned True, hr_flush := FlushOver,
      hr_flushed := True, hr_write := WriteOver, hr_written := True\<rparr>)"
    by (simp add: enc_HandshakePacket_def numeral_eq_Suc)
  from flush_settled[where sc = ?sc and enc = enc_HandshakePacket, OF d[symmetric] this] show ?thesis by (simp add: race_begin_def)
qed

end
