(* ===== verification/Symmetry.thy ===== *)
theory Symmetry
  imports StabilizeSafety
begin

section \<open>Left and right, up and down\<close>

text \<open>
  The stabilizing controllers treat both directions alike, roundings included: on mirrored angles, from mirrored states, every
  floating-point operation gives the opposite value, so a run over mirrored IMU packets gives the mirrored
  commands.
\<close>

subsection \<open>Opposite values\<close>

fun opposite :: "fp \<Rightarrow> fp \<Rightarrow> bool" where
  \<comment> \<open>up to the sign of a zero\<close>
  "opposite NaN y = (y = NaN)"
| "opposite (Inf s) y = (y = Inf (\<not> s))"
| "opposite x y = (is_fin y \<and> fp_val y = - fp_val x)"

lemma opposite_fin: "is_fin x \<Longrightarrow> opposite x y \<longleftrightarrow> is_fin y \<and> fp_val y = - fp_val x"
  by (cases x) auto

lemma opposite_neg: "opposite x (fp_neg x)"
  by (cases x) auto

lemma opposite_sym: "opposite x y \<Longrightarrow> opposite y x"
  by (cases x; cases y) auto

lemma opposite_fp_neg: "opposite x y \<Longrightarrow> opposite (fp_neg x) (fp_neg y)"
  by (cases x; cases y) auto

lemma opposite_round: "opposite (round_fp F s r) (round_fp F t (- r))"
  by (auto simp: round_fp_def rnd_minus)

lemma opposite_of_rat: "opposite (fp_of_rat F r) (fp_of_rat F (- r))"
  unfolding fp_of_rat_def by (rule opposite_round)

lemma opposite_add: "opposite x x' \<Longrightarrow> opposite y y' \<Longrightarrow> opposite (fp_add F x y) (fp_add F x' y')"
  using opposite_of_rat[of F "fp_val x + fp_val y"]
  by (cases x; cases y; cases x'; cases y'; simp; fastforce simp: fp_of_rat_def round_fp_def)

lemma opposite_sub: "opposite x x' \<Longrightarrow> opposite y y' \<Longrightarrow> opposite (fp_sub F x y) (fp_sub F x' y')"
  unfolding fp_sub_def by (intro opposite_add opposite_fp_neg)

lemma opposite_mul:
  assumes "opposite y y'" "is_fin c"
  shows "opposite (fp_mul F c y) (fp_mul F c y')"
proof (cases "is_fin y")
  case True
  then have "is_fin y'" "fp_val y' = - fp_val y" using assms(1) by (auto simp: opposite_fin)
  moreover have "fp_mul F c z = round_fp F (fp_sign c \<noteq> fp_sign z) (fp_val c * fp_val z)" if "is_fin z" for z
    using that assms(2) by (cases c; cases z; simp)
  ultimately show ?thesis using True opposite_round[of F _ "fp_val c * fp_val y"] by simp
next
  case False
  then show ?thesis using assms by (cases y; cases c) auto
qed

lemma opposite_less: "opposite x x' \<Longrightarrow> opposite y y' \<Longrightarrow> fp_less x y = fp_less y' x'"
  by (cases x; cases y; cases x'; cases y') auto

lemma opposite_to_i8:
  assumes "opposite x x'" "fp_to_i8 x = Inr b" "fp_to_i8 x' = Inr b'"
  shows "b' = - b" "sint b' = - sint b"
proof -
  let ?t = "trunc_rat (fp_val x)"
  have f: "is_fin x" "- 128 \<le> ?t" "?t \<le> 127" "b = word_of_int ?t"
    using assms(2) by (auto simp: fp_to_i8_def fp_to_int_def res_simps split: if_splits)
  then have "fp_val x' = - fp_val x" using assms(1) by (simp add: opposite_fin)
  then have g: "- 128 \<le> - ?t" "- ?t \<le> 127" "b' = word_of_int (- ?t)"
    using assms(3) by (auto simp: fp_to_i8_def fp_to_int_def res_simps trunc_rat_minus split: if_splits)
  show "b' = - b" using f(4) g(3) by simp
  have "sint b = ?t" using sint_word_of_int8[of ?t] f by simp
  moreover have "sint b' = - ?t" unfolding g(3) by (rule sint_word_of_int8[OF g(1,2)])
  ultimately show "sint b' = - sint b" by simp
qed

lemma fp_less_between: "fp_less l x \<Longrightarrow> fp_less x h \<Longrightarrow> is_fin l \<Longrightarrow> is_fin h \<Longrightarrow> fp_val l < fp_val h"
  by (cases l; cases x; cases h) (auto split: if_splits)

lemma opposite_of_int: "opposite (fp_of_int F n) (fp_of_int F (- n))"
  using opposite_of_rat[of F "of_int n"] by (simp add: fp_of_int_def)

lemma bindPidAileronDeflection_opposite:
  assumes "0 \<le> sint (AutopilotUtility.c_maxAileronDeflection u)" "opposite x x'"
  shows "opposite (bindPidAileronDeflection u x) (bindPidAileronDeflection u x')"
proof -
  let ?m = "sint (AutopilotUtility.c_maxAileronDeflection u)"
  let ?M = "fp_of_int binary64 ?m" and ?N = "fp_of_int binary64 (- ?m)"
  have o: "opposite ?M ?N" "opposite ?N ?M"
    using opposite_of_int[of binary64 ?m] opposite_sym by auto
  have "fp_less ?M x = fp_less x' ?N" "fp_less x ?N = fp_less ?M x'"
    using opposite_less[OF o(1) assms(2)] opposite_less[OF assms(2) o(2)] by auto
  moreover have "\<not> (fp_less ?M x \<and> fp_less x ?N)"
  proof
    have r: "\<bar>?m\<bar> \<le> 128" "\<bar>- ?m\<bar> \<le> 128" using sint8_range[of "AutopilotUtility.c_maxAileronDeflection u"] by auto
    assume "fp_less ?M x \<and> fp_less x ?N"
    then have "fp_val ?M < fp_val ?N" using fp_of_small_int[of ?m] fp_of_small_int[of "- ?m"] r
      by (intro fp_less_between) auto
    then have "(of_int ?m :: rat) < of_int (- ?m)" using fp_of_small_int[of ?m] fp_of_small_int[of "- ?m"] r
      by (simp only:)
    then show False using assms(1) unfolding of_int_less_iff by linarith
  qed
  ultimately show ?thesis using assms(2) o by (auto simp: bindPidAileronDeflection_def)
qed

subsection \<open>Mirrored controllers\<close>

definition mirrored :: "StabilizeAutopilot \<Rightarrow> StabilizeAutopilot \<Rightarrow> bool" where
  "mirrored s t \<longleftrightarrow> shipped_gains s \<and> shipped_gains t
     \<and> opposite (m_prevRollError s) (m_prevRollError t) \<and> opposite (m_prevPitchError s) (m_prevPitchError t)
     \<and> opposite (m_rollDerivativeError s) (m_rollDerivativeError t)
     \<and> opposite (m_rollIntegralError s) (m_rollIntegralError t)
     \<and> opposite (m_pitchIntegralError s) (m_pitchIntegralError t)"

definition mirrored_imu :: "ImuPacket \<Rightarrow> ImuPacket \<Rightarrow> bool" where
  "mirrored_imu i j \<longleftrightarrow> opposite (fp_of_bits32 (gyroX i)) (fp_of_bits32 (gyroX j))
     \<and> opposite (fp_of_bits32 (gyroY i)) (fp_of_bits32 (gyroY j))"

definition mirror_command :: "ControlSurfacePacket \<Rightarrow> ControlSurfacePacket" where
  "mirror_command c = c\<lparr>aileronDeflection := - aileronDeflection c, elevatorDeflection := - elevatorDeflection c\<rparr>"

lemma gains_fin:
  assumes "shipped_gains s"
  shows "is_fin (c_kp s)" "is_fin (c_ki s)" "is_fin (c_kd s)"
    "is_fin (fdiv loop_dt (Fin 2))" "is_fin (fdiv loop_dt (c_ki s))"
    "is_fin (fdiv (fsub (fmul (Fin 2) (c_tau s)) loop_dt) (fadd (fmul (Fin 2) (c_tau s)) loop_dt))"
    "is_fin (fdiv (Fin 2) (fadd (fmul (Fin 2) (c_tau s)) loop_dt))"
  using assms unfolding shipped_gains_def by (simp_all add: gain_values) code_simp+

lemma roll_errors_mirrored:
  assumes m: "mirrored s t" and r: "opposite r r'"
  shows "mirrored (roll_errors s r) (roll_errors t r')"
proof -
  have g: "shipped_gains s" "shipped_gains t" and o: "opposite (m_prevRollError s) (m_prevRollError t)"
    "opposite (m_rollDerivativeError s) (m_rollDerivativeError t)"
    "opposite (m_rollIntegralError s) (m_rollIntegralError t)" using m by (auto simp: mirrored_def)
  have tau: "c_tau t = c_tau s" using g by (simp add: shipped_gains_def)
  have "opposite (roll_integral s r) (roll_integral t r')"
    unfolding roll_integral_def using gains_fin[OF g(1)] o r by (intro opposite_add opposite_mul) auto
  moreover have "opposite (roll_derivative s r) (roll_derivative t r')"
    unfolding roll_derivative_def tau using gains_fin[OF g(1)] o r
    by (intro opposite_add opposite_mul opposite_sub) auto
  ultimately show ?thesis using m r by (simp add: mirrored_def roll_errors_def shipped_gains_def)
qed

lemma pid_output_opposite:
  assumes g: "shipped_gains s" "shipped_gains t" and o: "opposite e e'" "opposite i i'" "opposite d d'"
  shows "opposite (pid_output s e i d) (pid_output t e' i' d')"
proof -
  have "c_kp t = c_kp s" "c_ki t = c_ki s" "c_kd t = c_kd s" using g by (simp_all add: shipped_gains_def)
  then show ?thesis unfolding pid_output_def using gains_fin[OF g(1)] o
    by (auto intro!: opposite_add opposite_mul)
qed

lemma computeRoll_mirrored:
  assumes u: "limits_ok u" and m: "mirrored s t" and r: "opposite r r'"
    and d: "computeRollToAileronDeflection u s r = Inr (s', b)" "computeRollToAileronDeflection u t r' = Inr (t', b')"
  shows "mirrored s' t' \<and> b' = - b"
proof -
  have g: "shipped_gains s" "shipped_gains t" using m by (auto simp: mirrored_def)
  let ?s = "roll_errors s (fsub (m_desiredRollAngle s) r)" and ?t = "roll_errors t (fsub (m_desiredRollAngle t) r')"
  have "opposite (fsub (m_desiredRollAngle s) r) (fsub (m_desiredRollAngle t) r')"
    using g r by (intro opposite_sub) (simp_all add: shipped_gains_def)
  from roll_errors_mirrored[OF m this] have mt: "mirrored ?s ?t" .
  then have gt: "shipped_gains ?s" "shipped_gains ?t" by (auto simp: mirrored_def)
  have o: "opposite (roll_output ?s) (roll_output ?t)"
    unfolding roll_output_def using mt by (intro pid_output_opposite) (auto simp: mirrored_def)
  let ?b = "bindPidAileronDeflection u (roll_output ?s)" and ?b' = "bindPidAileronDeflection u (roll_output ?t)"
  have ob: "opposite ?b ?b'" using bindPidAileronDeflection_opposite[OF _ o] u by (simp add: limits_ok_def)
  have ki: "c_ki ?t = c_ki ?s" using gt by (simp add: shipped_gains_def)
  have w: "opposite (anti_windup ?s (roll_output ?s) ?b) (anti_windup ?t (roll_output ?t) ?b')"
    unfolding anti_windup.simps ki using mt ob o gains_fin(5)[OF gt(1)]
    by (intro opposite_add opposite_mul opposite_sub) (auto simp: mirrored_def)
  have e: "s' = ?s\<lparr>m_rollIntegralError := anti_windup ?s (roll_output ?s) ?b\<rparr>" "fp_to_i8 ?b = Inr b"
    "t' = ?t\<lparr>m_rollIntegralError := anti_windup ?t (roll_output ?t) ?b'\<rparr>" "fp_to_i8 ?b' = Inr b'"
    using d by (auto simp: computeRollToAileronDeflection_def roll_step_def roll_saturate_def res_simps)
  have "mirrored s' t'" unfolding e(1,3) using mt w by (simp add: mirrored_def shipped_gains_def)
  then show ?thesis using opposite_to_i8(1)[OF ob e(2,4)] by simp
qed

lemma bindIntegralError_mirrored:
  assumes g: "shipped_gains s" "shipped_gains t" and "sint a' = - sint a"
    and "bindIntegralError s a = Inr i" "bindIntegralError t a' = Inr i'"
  shows "sint i' = - sint i"
  using assms(3-5) unfolding bindIntegralError_shipped[OF g(1)] bindIntegralError_shipped[OF g(2)]
  by (auto simp: sint_word_of_int8)

lemma computePitch_mirrored:
  assumes m: "mirrored s t" and r: "opposite r r'"
    and d: "computePitchToElevatorDeflection s r = Inr (s', b)" "computePitchToElevatorDeflection t r' = Inr (t', b')"
  shows "mirrored s' t' \<and> sint b' = - sint b"
proof -
  have g: "shipped_gains s" "shipped_gains t" using m by (auto simp: mirrored_def)
  let ?e = "fsub (m_desiredPitchAngle s) r" and ?e' = "fsub (m_desiredPitchAngle t) r'"
  have oe: "opposite ?e ?e'" using g r by (intro opposite_sub) (simp_all add: shipped_gains_def)
  have mo: "opposite (m_prevPitchError s) (m_prevPitchError t)"
    "opposite (m_pitchIntegralError s) (m_pitchIntegralError t)" using m by (auto simp: mirrored_def)
  obtain a i where s: "fp_to_i8 (fadd (m_pitchIntegralError s) ?e) = Inr a" "bindIntegralError s a = Inr i"
    "fp_to_i8 (pid_output s ?e (fp_of_int binary64 (sint i)) (fsub ?e (m_prevPitchError s))) = Inr b"
    "s' = s\<lparr>m_pitchIntegralError := fp_of_int binary64 (sint i), m_prevPitchError := ?e\<rparr>"
    using d(1) by (auto simp: computePitchToElevatorDeflection_def pitch_step_def pitch_finish_def res_simps)
  obtain a' i' where t: "fp_to_i8 (fadd (m_pitchIntegralError t) ?e') = Inr a'" "bindIntegralError t a' = Inr i'"
    "fp_to_i8 (pid_output t ?e' (fp_of_int binary64 (sint i')) (fsub ?e' (m_prevPitchError t))) = Inr b'"
    "t' = t\<lparr>m_pitchIntegralError := fp_of_int binary64 (sint i'), m_prevPitchError := ?e'\<rparr>"
    using d(2) by (auto simp: computePitchToElevatorDeflection_def pitch_step_def pitch_finish_def res_simps)
  have "sint a' = - sint a" using opposite_to_i8(2)[OF opposite_add[OF mo(2) oe] s(1) t(1)] .
  then have i: "sint i' = - sint i" using bindIntegralError_mirrored[OF g _ s(2) t(2)] by simp
  then have oi: "opposite (fp_of_int binary64 (sint i)) (fp_of_int binary64 (sint i'))"
    using opposite_of_int[of binary64 "sint i"] by simp
  have "sint b' = - sint b"
    using opposite_to_i8(2)[OF pid_output_opposite[OF g oe oi opposite_sub[OF oe mo(1)]] s(3) t(3)] .
  then show ?thesis unfolding s(4) t(4) using m oe oi by (simp add: mirrored_def shipped_gains_def)
qed

lemma bindPidElevatorDeflection_mirrored:
  assumes "limits_ok u" "sint v' = - sint v"
  shows "bindPidElevatorDeflection u v' = - bindPidElevatorDeflection u v"
proof -
  have "v' = word_of_int (sint v')" "v = word_of_int (sint v)"
    "c_maxElevatorDeflection u = word_of_int (sint (c_maxElevatorDeflection u))" by simp_all
  then show ?thesis using assms unfolding bindPidElevatorDeflection_def limits_ok_def
    by (smt (verit, best) wi_hom_neg add.inverse_inverse)
qed

lemma trigger_mirrored:
  assumes u: "limits_ok u" and m: "mirrored s t" and i: "mirrored_imu i j"
    and d: "StabilizeAutopilot_trigger u s c r i = Inr (s', x)" "StabilizeAutopilot_trigger u t c r j = Inr (t', y)"
  shows "mirrored s' t' \<and> y = mirror_command x"
proof -
  obtain s1 a b where 1: "computeRollToAileronDeflection u s (fp_of_bits32 (gyroX i)) = Inr (s1, a)"
    "computePitchToElevatorDeflection s1 (fp_of_bits32 (gyroY i)) = Inr (s', b)"
    "x = c\<lparr>motorSpeed := bindRcThrottle u (motorStickPosition r), aileronDeflection := a,
          elevatorDeflection := bindPidElevatorDeflection u b,
          rudderDeflection := bindRcRudderDeflection u (rudderStickPosition r)\<rparr>"
    using d(1) by (auto simp: StabilizeAutopilot_trigger_def res_simps)
  obtain t1 a' b' where 2: "computeRollToAileronDeflection u t (fp_of_bits32 (gyroX j)) = Inr (t1, a')"
    "computePitchToElevatorDeflection t1 (fp_of_bits32 (gyroY j)) = Inr (t', b')"
    "y = c\<lparr>motorSpeed := bindRcThrottle u (motorStickPosition r), aileronDeflection := a',
          elevatorDeflection := bindPidElevatorDeflection u b',
          rudderDeflection := bindRcRudderDeflection u (rudderStickPosition r)\<rparr>"
    using d(2) by (auto simp: StabilizeAutopilot_trigger_def res_simps)
  have o: "opposite (fp_of_bits32 (gyroX i)) (fp_of_bits32 (gyroX j))"
    "opposite (fp_of_bits32 (gyroY i)) (fp_of_bits32 (gyroY j))" using i by (auto simp: mirrored_imu_def)
  from computeRoll_mirrored[OF u m o(1) 1(1) 2(1)] have r: "mirrored s1 t1" "a' = - a" by auto
  from computePitch_mirrored[OF r(1) o(2) 1(2) 2(2)] have p: "mirrored s' t'" "sint b' = - sint b" by auto
  then show ?thesis using r(2) bindPidElevatorDeflection_mirrored[OF u p(2)]
    by (simp add: 1(3) 2(3) mirror_command_def)
qed

lemma runs_mirrored:
  assumes u: "limits_ok u" and m: "mirrored s t" and inv: "stab_inv s" "stab_inv t"
    and ps: "list_all2 (\<lambda>(r, i) (q, j). q = r \<and> mirrored_imu i j) ps qs"
    and ok: "\<forall>(r, i) \<in> set ps. attitude_ok i" "\<forall>(r, i) \<in> set qs. attitude_ok i"
  shows "\<exists>s' t' cs. run_triggers (StabilizeAutopilot_trigger u) s ps = Inr (s', cs)
    \<and> run_triggers (StabilizeAutopilot_trigger u) t qs = Inr (t', map mirror_command cs)
    \<and> mirrored s' t'"
  using ps m inv ok
proof (induction arbitrary: s t rule: list_all2_induct)
  case (Cons p ps q qs)
  obtain r i j where p: "p = (r, i)" "q = (r, j)" "mirrored_imu i j" using Cons.hyps(1) by (cases p; cases q) auto
  obtain s1 x where 1: "StabilizeAutopilot_trigger u s default_ControlSurfacePacket r i = Inr (s1, x)" "stab_inv s1"
    using StabilizeAutopilot_trigger_defined[OF u Cons.prems(2), of i] Cons.prems(4) p by fastforce
  obtain t1 y where 2: "StabilizeAutopilot_trigger u t default_ControlSurfacePacket r j = Inr (t1, y)" "stab_inv t1"
    using StabilizeAutopilot_trigger_defined[OF u Cons.prems(3), of j] Cons.prems(5) p by fastforce
  from trigger_mirrored[OF u Cons.prems(1) p(3) 1(1) 2(1)] have mt: "mirrored s1 t1" "y = mirror_command x" by auto
  have "\<forall>(r, i) \<in> set ps. attitude_ok i" "\<forall>(r, i) \<in> set qs. attitude_ok i" using Cons.prems by auto
  from Cons.IH[OF mt(1) 1(2) 2(2) this] show ?case using 1 2 mt p by auto
qed simp

subsection \<open>Properties\<close>

text \<open>
  C8 The stabilizing autopilot has no preferred side: fly twice, from states that
  mirror each other and with the sticks the same, where every roll and pitch angle of the one flight is the
  negative of that of the other; within the angle bounds every aileron and elevator command of the one flight is the exact
  negative of that of the other, throttle and rudder are the same, and the states mirror each other again. No
  rounding, truncation or limit on the way breaks the symmetry.
\<close>
theorem stabilize_mirrored:
  assumes "limits_ok u" "stab_inv s" "stab_inv t" "mirrored s t"
    and "list_all2 (\<lambda>(r, i) (q, j). q = r \<and> mirrored_imu i j) ps qs"
    and "\<forall>(r, i) \<in> set ps. attitude_ok i" "\<forall>(r, i) \<in> set qs. attitude_ok i"
  shows "\<exists>s' t' cs. run_triggers (StabilizeAutopilot_trigger u) s ps = Inr (s', cs)
    \<and> run_triggers (StabilizeAutopilot_trigger u) t qs = Inr (t', map mirror_command cs) \<and> mirrored s' t'"
  using runs_mirrored[OF assms(1,4,2,3,5-7)] .

lemma banked_mirrored:
  "attitude_ok (default_ImuPacket\<lparr>gyroX := 0x41700000, gyroY := 0xC1200000\<rparr>)"
  "mirrored_imu (default_ImuPacket\<lparr>gyroX := 0xC1700000, gyroY := 0x41200000\<rparr>)
     (default_ImuPacket\<lparr>gyroX := 0x41700000, gyroY := 0xC1200000\<rparr>)"
  by code_simp+

lemma level_mirrored: "mirrored level_stabilize level_stabilize"
  using level_ok(2) by (simp add: mirrored_def level_stabilize_def)

theorem stabilize_mirrored_witness:
  "\<exists>s' t' cs. run_triggers (StabilizeAutopilot_trigger level_utility) level_stabilize
      (replicate 3 (default_RcRxPacket, default_ImuPacket\<lparr>gyroX := 0xC1700000, gyroY := 0x41200000\<rparr>)) = Inr (s', cs)
    \<and> run_triggers (StabilizeAutopilot_trigger level_utility) level_stabilize
      (replicate 3 (default_RcRxPacket, default_ImuPacket\<lparr>gyroX := 0x41700000, gyroY := 0xC1200000\<rparr>))
      = Inr (t', map mirror_command cs) \<and> mirrored s' t'"
  by (rule stabilize_mirrored[OF level_ok(3,1,1) level_mirrored])
    (auto simp: banked banked_mirrored list_all2_conv_all_nth)

end
