(* ===== verification/RollAccuracy.thy ===== *)
theory RollAccuracy
  imports StabilizeSafety
begin

section \<open>The roll controller against exact arithmetic\<close>

text \<open>
  The reference of \<^verbatim>\<open>computeRollToAileronDeflection\<close> (\<^verbatim>\<open>autopilot/StabilizeAutopilot\<close>): the same recursion over the
  rationals, with the gains as they stand in \<^verbatim>\<open>configs/config.json\<close> instead of the nearest doubles. One operation of
  the code is within \<open>ulp20\<close> of the exact one, the derivative forgets its errors, and the integral, whose anti-windup
  correction never drives two values apart, collects at most 18 of them per trigger.
\<close>

subsection \<open>The reference\<close>

record exact_roll =
  x_prev :: rat
  x_derivative :: rat
  x_integral :: rat

definition saturate :: "rat \<Rightarrow> rat \<Rightarrow> rat" where
  "saturate c x = max (- c) (min c x)"

definition exact_errors :: "exact_roll \<Rightarrow> rat \<Rightarrow> exact_roll" where
  \<comment> \<open>integral, derivative and previous error, with \<open>kp = 0.5\<close>, \<open>ki = 0.05\<close>, \<open>kd = 0.08\<close>, \<open>tau = 0.05\<close> and a step of 0.04\<close>
  "exact_errors x e =
     \<lparr>x_prev = e,
      x_derivative = (2 * (5 / 100) - 4 / 100) / (2 * (5 / 100) + 4 / 100) * x_derivative x
        + 2 / (2 * (5 / 100) + 4 / 100) * (e - x_prev x),
      x_integral = x_integral x + (4 / 100) / 2 * (e + x_prev x)\<rparr>"

definition exact_output :: "exact_roll \<Rightarrow> rat" where
  "exact_output x = 5 / 10 * x_prev x + 5 / 100 * x_integral x + 8 / 100 * x_derivative x"

definition exact_windup :: "rat \<Rightarrow> exact_roll \<Rightarrow> exact_roll" where
  "exact_windup c x =
     x\<lparr>x_integral := x_integral x + (4 / 100) / (5 / 100) * (saturate c (exact_output x) - exact_output x)\<rparr>"

fun exact_roll_run :: "rat \<Rightarrow> exact_roll \<Rightarrow> rat list \<Rightarrow> rat list" where
  \<comment> \<open>the bounded outputs over a list of roll angles\<close>
  "exact_roll_run c x [] = []"
| "exact_roll_run c x (a # as) =
     (let y = exact_errors x (0 - a)
      in saturate c (exact_output y) # exact_roll_run c (exact_windup c y) as)"

lemma exact_simps:
  "x_derivative (exact_errors x e) = 3 / 7 * x_derivative x + (100 / 7 * e - 100 / 7 * x_prev x)"
  "x_integral (exact_errors x e) = x_integral x + (1 / 50 * e + 1 / 50 * x_prev x)"
  "x_prev (exact_errors x e) = e"
  "exact_output x = 1 / 2 * x_prev x + 1 / 20 * x_integral x + 2 / 25 * x_derivative x"
  "x_integral (exact_windup c x) = x_integral x + (4 / 5 * saturate c (exact_output x) - 4 / 5 * exact_output x)"
  "x_derivative (exact_windup c x) = x_derivative x" "x_prev (exact_windup c x) = x_prev x"
  by (simp_all add: exact_errors_def exact_output_def exact_windup_def diff_divide_distrib algebra_simps)

subsection \<open>One operation\<close>

abbreviation ulp20 :: rat where
  \<comment> \<open>half a unit in the last place of a double just below \<open>2 ^ 20\<close>: \<open>2 ^ - 33\<close>\<close>
  "ulp20 \<equiv> 1 / 8589934592"

lemma fine64:
  assumes "\<bar>r\<bar> \<le> 1000000"
  shows "is_fin (round_fp binary64 s r) \<and> \<bar>fp_val (round_fp binary64 s r) - r\<bar> \<le> ulp20"
proof -
  have "representable binary64 (of_int 1000000)"
    by (rule representable_int) (auto simp: binary64_def qmin_def)
  then have "is_fin (round_fp binary64 s r)" "fp_val (round_fp binary64 s r) = rnd binary64 r"
    using round_fp_val[OF assms, of binary64] by (simp_all add: binary64_def pow2_def)
  moreover have "\<bar>rnd binary64 r - r\<bar> \<le> pow2 (20 - int (prec binary64 - 1)) / 2"
    using assms by (intro rnd_error_pow2) (auto simp: binary64_def qmin_def pow2_def)
  ultimately show ?thesis by (simp add: binary64_def pow2_def)
qed

lemma fadd_fine:
  assumes "is_fin x" "is_fin y" "\<bar>fp_val x + fp_val y\<bar> \<le> 1000000"
  shows "is_fin (fadd x y)" "\<bar>fp_val (fadd x y) - (fp_val x + fp_val y)\<bar> \<le> ulp20"
  using fine64[OF assms(3)] assms(1,2) by (cases x; cases y; simp add: fp_of_rat_def)+

lemma fsub_fine:
  assumes "is_fin x" "is_fin y" "\<bar>fp_val x - fp_val y\<bar> \<le> 1000000"
  shows "is_fin (fsub x y)" "\<bar>fp_val (fsub x y) - (fp_val x - fp_val y)\<bar> \<le> ulp20"
  using fadd_fine[of x "fp_neg y"] assms by (simp_all add: fp_sub_def)

lemma fmul_fine:
  assumes "is_fin x" "\<bar>k * fp_val x\<bar> \<le> 1000000"
  shows "is_fin (fmul (Fin k) x)" "\<bar>fp_val (fmul (Fin k) x) - k * fp_val x\<bar> \<le> ulp20"
  using fine64[OF assms(2)] assms(1) by (cases x; simp)+

subsection \<open>The stages of one computation\<close>

lemma roll_error_close:
  assumes "shipped_gains s" "fp_within a 180"
  shows "\<bar>fp_val (fsub (m_desiredRollAngle s) a) - (0 - fp_val a)\<bar> \<le> ulp20"
proof -
  have "is_fin a" "\<bar>fp_val (Fin 0) - fp_val a\<bar> \<le> 1000000" using assms(2) by (auto simp: fp_within_def)
  from fsub_fine(2)[OF _ this] show ?thesis by (simp add: shipped_gainsD[OF assms(1)])
qed

lemma roll_integral_close:
  assumes s: "roll_inv s" "fp_within e 181"
    and "\<bar>fp_val e - E\<bar> \<le> ulp20" "\<bar>fp_val (m_prevRollError s) - P\<bar> \<le> ulp20"
  shows "\<bar>fp_val (roll_integral s e) - (I + (1 / 50 * E + 1 / 50 * P))\<bar> \<le> \<bar>fp_val (m_rollIntegralError s) - I\<bar> + 3 * ulp20"
proof -
  let ?p = "m_prevRollError s" and ?i = "m_rollIntegralError s"
  let ?k = "5764607523034235 / 288230376151711744 :: rat"
  let ?a = "fadd e ?p" let ?m = "fmul (Fin ?k) ?a"
  have b: "\<bar>fp_val e\<bar> \<le> 181" "\<bar>fp_val ?p\<bar> \<le> 181" "\<bar>fp_val ?i\<bar> \<le> 25000"
    and f: "is_fin e" "is_fin ?p" "is_fin ?i" using s by (auto simp: roll_inv_def fp_within_def)
  have "\<bar>fp_val e + fp_val ?p\<bar> \<le> 1000000" using b unfolding abs_le_iff by linarith
  note a = fadd_fine[OF f(1,2) this]
  have "\<bar>?k * fp_val ?a\<bar> \<le> 1000000" using b a(2) unfolding abs_le_iff by linarith
  note m = fmul_fine[OF a(1) this]
  have "\<bar>fp_val ?i + fp_val ?m\<bar> \<le> 1000000" using b a(2) m(2) unfolding abs_le_iff by linarith
  note r = fadd_fine[OF f(3) m(1) this]
  have "\<bar>fp_val ?m - (1 / 50 * E + 1 / 50 * P)\<bar> \<le> 2 * ulp20"
    using b a(2) m(2) assms(3,4) unfolding abs_le_iff by linarith
  with r(2) have "\<bar>fp_val (fadd ?i ?m) - (I + (1 / 50 * E + 1 / 50 * P))\<bar> \<le> \<bar>fp_val ?i - I\<bar> + 3 * ulp20" by linarith
  then show ?thesis by (simp only: roll_integral_def tau_terms(1))
qed

lemma roll_derivative_close:
  assumes s: "roll_inv s" "fp_within e 181"
    and "\<bar>fp_val e - E\<bar> \<le> ulp20" "\<bar>fp_val (m_prevRollError s) - P\<bar> \<le> ulp20"
    and "\<bar>fp_val (m_rollDerivativeError s) - D\<bar> \<le> 84 * ulp20"
  shows "\<bar>fp_val (roll_derivative s e) - (3 / 7 * D + (100 / 7 * E - 100 / 7 * P))\<bar> \<le> 84 * ulp20"
proof -
  let ?p = "m_prevRollError s" and ?d = "m_rollDerivativeError s"
  let ?A = "7720456504063707 / 18014398509481984 :: rat"
  let ?B = "2010535547933257 / 140737488355328 :: rat"
  let ?a = "fsub e ?p" let ?m = "fmul (Fin ?A) ?d" let ?n = "fmul (Fin ?B) ?a"
  have b: "\<bar>fp_val e\<bar> \<le> 181" "\<bar>fp_val ?p\<bar> \<le> 181" "\<bar>fp_val ?d\<bar> \<le> 9500"
    and f: "is_fin e" "is_fin ?p" "is_fin ?d" using s by (auto simp: roll_inv_def fp_within_def)
  have "\<bar>fp_val e - fp_val ?p\<bar> \<le> 1000000" using b unfolding abs_le_iff by linarith
  note a = fsub_fine[OF f(1,2) this]
  have "\<bar>?A * fp_val ?d\<bar> \<le> 1000000" using b unfolding abs_le_iff by linarith
  note m = fmul_fine[OF f(3) this]
  have "\<bar>?B * fp_val ?a\<bar> \<le> 1000000" using b a(2) unfolding abs_le_iff by linarith
  note n = fmul_fine[OF a(1) this]
  have "\<bar>fp_val ?m + fp_val ?n\<bar> \<le> 1000000" using b a(2) m(2) n(2) unfolding abs_le_iff by linarith
  note r = fadd_fine[OF m(1) n(1) this]
  have "\<bar>fp_val ?n - (100 / 7 * E - 100 / 7 * P)\<bar> \<le> 45 * ulp20"
    using b a(2) n(2) assms(3,4) unfolding abs_le_iff by linarith
  moreover have "\<bar>fp_val ?m - 3 / 7 * D\<bar> \<le> 38 * ulp20"
    using b m(2) assms(5) unfolding abs_le_iff by linarith
  ultimately have "\<bar>fp_val (fadd ?m ?n) - (3 / 7 * D + (100 / 7 * E - 100 / 7 * P))\<bar> \<le> 84 * ulp20"
    using r(2) unfolding abs_le_iff by linarith
  moreover have "roll_derivative s e = fadd ?m ?n"
    using s(1) by (simp only: roll_derivative_def roll_inv_def shipped_gainsD tau_terms)
  ultimately show ?thesis by simp
qed

lemma roll_output_close:
  assumes g: "shipped_gains s" and w: "fp_within (m_prevRollError s) 181"
    "fp_within (m_rollDerivativeError s) 9500" "fp_within (m_rollIntegralError s) 25009"
    and "\<bar>fp_val (m_prevRollError s) - E\<bar> \<le> ulp20" "\<bar>fp_val (m_rollDerivativeError s) - D\<bar> \<le> 84 * ulp20"
  shows "\<bar>fp_val (roll_output s) - (1 / 2 * E + 1 / 20 * fp_val (m_rollIntegralError s) + 2 / 25 * D)\<bar> \<le> 13 * ulp20"
proof -
  let ?e = "m_prevRollError s" and ?i = "m_rollIntegralError s" and ?d = "m_rollDerivativeError s"
  let ?ki = "3602879701896397 / 72057594037927936 :: rat"
  let ?kd = "5764607523034235 / 72057594037927936 :: rat"
  let ?p = "fmul (Fin (1 / 2)) ?e" and ?x = "fmul (Fin ?ki) ?i" and ?n = "fmul (Fin ?kd) ?d"
  have b: "\<bar>fp_val ?e\<bar> \<le> 181" "\<bar>fp_val ?d\<bar> \<le> 9500" "\<bar>fp_val ?i\<bar> \<le> 25009"
    and f: "is_fin ?e" "is_fin ?d" "is_fin ?i" using w by (auto simp: fp_within_def)
  have "\<bar>1 / 2 * fp_val ?e\<bar> \<le> 1000000" using b unfolding abs_le_iff by linarith
  note p = fmul_fine[OF f(1) this]
  have "\<bar>?ki * fp_val ?i\<bar> \<le> 1000000" using b unfolding abs_le_iff by linarith
  note x = fmul_fine[OF f(3) this]
  have "\<bar>?kd * fp_val ?d\<bar> \<le> 1000000" using b unfolding abs_le_iff by linarith
  note n = fmul_fine[OF f(2) this]
  have "\<bar>fp_val ?p + fp_val ?x\<bar> \<le> 1000000" using b p(2) x(2) unfolding abs_le_iff by linarith
  note y = fadd_fine[OF p(1) x(1) this]
  have "\<bar>fp_val (fadd ?p ?x) + fp_val ?n\<bar> \<le> 1000000"
    using b p(2) x(2) n(2) y(2) unfolding abs_le_iff by linarith
  note o = fadd_fine[OF y(1) n(1) this]
  have "\<bar>fp_val ?p - 1 / 2 * E\<bar> \<le> 3 / 2 * ulp20" using p(2) assms(5) unfolding abs_le_iff by linarith
  moreover have "\<bar>fp_val ?x - 1 / 20 * fp_val ?i\<bar> \<le> 3 / 2 * ulp20" using b x(2) unfolding abs_le_iff by linarith
  moreover have "\<bar>fp_val ?n - 2 / 25 * D\<bar> \<le> 8 * ulp20" using b n(2) assms(6) unfolding abs_le_iff by linarith
  ultimately have "\<bar>fp_val (fadd (fadd ?p ?x) ?n) - (1 / 2 * E + 1 / 20 * fp_val ?i + 2 / 25 * D)\<bar> \<le> 13 * ulp20"
    using y(2) o(2) unfolding abs_le_iff by linarith
  then show ?thesis by (simp only: roll_output_def pid_output_def shipped_gainsD[OF g])
qed

text \<open>The correction by the anti-windup term does not drive two integrals apart.\<close>

lemma saturate_near: "0 \<le> c \<Longrightarrow> \<bar>saturate c x - saturate c y\<bar> \<le> \<bar>x - y\<bar>"
  by (auto simp: saturate_def)

lemma windup_contracts:
  fixes i I out O' a b c :: rat
  assumes "0 \<le> c" "\<bar>i - I\<bar> \<le> a" "\<bar>out - O' - (1 / 20 * i - 1 / 20 * I)\<bar> \<le> b"
  shows "\<bar>(i + (4 / 5 * saturate c out - 4 / 5 * out)) - (I + (4 / 5 * saturate c O' - 4 / 5 * O'))\<bar> \<le> a + 4 / 5 * b"
proof -
  consider "c < out" | "out < - c" | "- c \<le> out" "out \<le> c" by linarith
  then have o: "saturate c out = c \<and> c < out \<or> saturate c out = - c \<and> out < - c
      \<or> saturate c out = out \<and> - c \<le> out \<and> out \<le> c" using assms(1) by cases (auto simp: saturate_def)
  consider "c < O'" | "O' < - c" | "- c \<le> O'" "O' \<le> c" by linarith
  then have O: "saturate c O' = c \<and> c < O' \<or> saturate c O' = - c \<and> O' < - c
      \<or> saturate c O' = O' \<and> - c \<le> O' \<and> O' \<le> c" using assms(1) by cases (auto simp: saturate_def)
  show ?thesis using o O assms by (elim disjE) (unfold abs_le_iff, linarith+)
qed

lemma anti_windup_close:
  assumes g: "shipped_gains s" and c: "0 \<le> c" "c \<le> 127"
    and i: "is_fin (m_rollIntegralError s)" "\<bar>fp_val (m_rollIntegralError s)\<bar> \<le> 25009"
    and out: "is_fin out" "\<bar>fp_val out\<bar> \<le> 2200"
    and sat: "is_fin sat" "fp_val sat = saturate c (fp_val out)"
  shows "\<bar>fp_val (anti_windup s out sat) - (fp_val (m_rollIntegralError s)
      + (4 / 5 * saturate c (fp_val out) - 4 / 5 * fp_val out))\<bar> \<le> 4 * ulp20"
proof -
  let ?i = "m_rollIntegralError s" and ?k = "7205759403792793 / 9007199254740992 :: rat"
  let ?w = "fsub sat out"  let ?z = "fmul (Fin ?k) ?w"
  have b: "\<bar>fp_val sat\<bar> \<le> 127" using c sat(2) by (auto simp: saturate_def)
  have "\<bar>fp_val sat - fp_val out\<bar> \<le> 1000000" using b out(2) unfolding abs_le_iff by linarith
  note w = fsub_fine[OF sat(1) out(1) this]
  have "\<bar>?k * fp_val ?w\<bar> \<le> 1000000" using b out(2) w(2) unfolding abs_le_iff by linarith
  note z = fmul_fine[OF w(1) this]
  have "\<bar>fp_val ?i + fp_val ?z\<bar> \<le> 1000000" using b out(2) w(2) z(2) i(2) unfolding abs_le_iff by linarith
  note r = fadd_fine[OF i(1) z(1) this]
  have "\<bar>fp_val ?z - (4 / 5 * fp_val sat - 4 / 5 * fp_val out)\<bar> \<le> 3 * ulp20"
    using b out(2) w(2) z(2) unfolding abs_le_iff by linarith
  then have "\<bar>fp_val (fadd ?i ?z) - (fp_val ?i + (4 / 5 * fp_val sat - 4 / 5 * fp_val out))\<bar> \<le> 4 * ulp20"
    using r(2) unfolding abs_le_iff by linarith
  then show ?thesis by (simp only: anti_windup.simps shipped_gainsD[OF g] tau_terms sat(2))
qed

lemma trunc_rat_near: "\<bar>of_int (trunc_rat r) - r\<bar> \<le> (1 :: rat)"
proof -
  have f: "\<bar>of_int \<lfloor>q\<rfloor> - q\<bar> \<le> 1" for q :: rat using floor_correct[of q] unfolding abs_le_iff by linarith
  show ?thesis
  proof (cases "0 \<le> r")
    case False
    then have "of_int (trunc_rat r) - r = - (of_int \<lfloor>- r\<rfloor> - (- r))" by (simp add: trunc_rat_def)
    then show ?thesis using f[of "- r"] by (simp only: abs_minus_cancel)
  next
    case True
    then have "trunc_rat r = \<lfloor>r\<rfloor>" by (simp add: trunc_rat_def)
    then show ?thesis using f[of r] by (simp only:)
  qed
qed

subsection \<open>Any number of triggers\<close>

definition exact_of :: "StabilizeAutopilot \<Rightarrow> exact_roll" where
  "exact_of s = \<lparr>x_prev = fp_val (m_prevRollError s), x_derivative = fp_val (m_rollDerivativeError s),
     x_integral = fp_val (m_rollIntegralError s)\<rparr>"

definition roll_close :: "nat \<Rightarrow> StabilizeAutopilot \<Rightarrow> exact_roll \<Rightarrow> bool" where
  \<comment> \<open>after so many triggers\<close>
  "roll_close n s x \<longleftrightarrow> \<bar>fp_val (m_prevRollError s) - x_prev x\<bar> \<le> ulp20
     \<and> \<bar>fp_val (m_rollDerivativeError s) - x_derivative x\<bar> \<le> 84 * ulp20
     \<and> \<bar>fp_val (m_rollIntegralError s) - x_integral x\<bar> \<le> of_nat n * (18 * ulp20)"

lemma roll_errors_close:
  assumes s: "roll_inv s" and a: "fp_within a 180" and x: "roll_close n s x"
  defines "t \<equiv> roll_errors s (fsub (m_desiredRollAngle s) a)" and "y \<equiv> exact_errors x (0 - fp_val a)"
  shows "\<bar>fp_val (m_prevRollError t) - x_prev y\<bar> \<le> ulp20"
    "\<bar>fp_val (m_rollDerivativeError t) - x_derivative y\<bar> \<le> 84 * ulp20"
    "\<bar>fp_val (m_rollIntegralError t) - x_integral y\<bar> \<le> of_nat n * (18 * ulp20) + 3 * ulp20"
    "\<bar>fp_val (roll_output t) - (1 / 2 * x_prev y + 1 / 20 * fp_val (m_rollIntegralError t) + 2 / 25 * x_derivative y)\<bar>
      \<le> 13 * ulp20"
    "shipped_gains t" "is_fin (roll_output t)" "\<bar>fp_val (roll_output t)\<bar> \<le> 2200"
    "is_fin (m_rollIntegralError t)" "\<bar>fp_val (m_rollIntegralError t)\<bar> \<le> 25009"
proof -
  have g: "shipped_gains s" using s by (simp add: roll_inv_def)
  let ?e = "fsub (m_desiredRollAngle s) a"
  note e = roll_error_close[OF g a]
  have "fp_within (fsub (Fin 0) a) (of_int 181)"
    using a by (intro fsub_within[of _ 0 _ 180]) (auto simp: fp_within_def)
  then have w: "fp_within ?e 181" by (simp add: shipped_gainsD[OF g])
  have p: "\<bar>fp_val (m_prevRollError s) - x_prev x\<bar> \<le> ulp20" and d: "\<bar>fp_val (m_rollDerivativeError s) - x_derivative x\<bar> \<le> 84 * ulp20"
    and i: "\<bar>fp_val (m_rollIntegralError s) - x_integral x\<bar> \<le> of_nat n * (18 * ulp20)" using x by (auto simp: roll_close_def)
  show gt: "shipped_gains t" using g by (simp add: t_def shipped_gains_def roll_errors_def)
  have wt: "fp_within (m_prevRollError t) 181" "fp_within (m_rollDerivativeError t) 9500"
    "fp_within (m_rollIntegralError t) 25009"
    using roll_derivative_bound[OF s w] roll_integral_bound[OF s w] w by (simp_all add: t_def roll_errors_def)
  show pt: "\<bar>fp_val (m_prevRollError t) - x_prev y\<bar> \<le> ulp20"
    using e by (simp add: t_def y_def roll_errors_def exact_simps)
  show dt: "\<bar>fp_val (m_rollDerivativeError t) - x_derivative y\<bar> \<le> 84 * ulp20"
    using roll_derivative_close[OF s w e p d] by (simp only: t_def y_def roll_errors_def exact_simps) simp
  show "\<bar>fp_val (m_rollIntegralError t) - x_integral y\<bar> \<le> of_nat n * (18 * ulp20) + 3 * ulp20"
    using roll_integral_close[OF s w e p, of "x_integral x"] i
    by (simp only: t_def y_def roll_errors_def exact_simps) simp
  show "\<bar>fp_val (roll_output t) - (1 / 2 * x_prev y + 1 / 20 * fp_val (m_rollIntegralError t) + 2 / 25 * x_derivative y)\<bar>
      \<le> 13 * ulp20" by (rule roll_output_close[OF gt wt pt dt])
  show it: "is_fin (m_rollIntegralError t)" "\<bar>fp_val (m_rollIntegralError t)\<bar> \<le> 25009"
    using wt(3) by (auto simp: fp_within_def)
  obtain p' x' y' d' where o: "is_fin (roll_output t)" "\<bar>p'\<bar> \<le> 92" "\<bar>d'\<bar> \<le> 762"
    "\<bar>x' - 3602879701896397 / 72057594037927936 * fp_val (m_rollIntegralError t)\<bar> \<le> 1 / 2"
    "\<bar>y' - (p' + x')\<bar> \<le> 1 / 2" "\<bar>fp_val (roll_output t) - (y' + d')\<bar> \<le> 1 / 2"
    by (rule roll_output_bound[OF gt wt])
  then show "is_fin (roll_output t)" "\<bar>fp_val (roll_output t)\<bar> \<le> 2200"
    using it(2) unfolding abs_le_iff by (simp, linarith)
qed

lemma computeRoll_close:
  assumes u: "0 \<le> sint (AutopilotUtility.c_maxAileronDeflection u)"
    and s: "roll_inv s" and a: "fp_within a 180" and x: "roll_close n s x"
    and d: "computeRollToAileronDeflection u s a = Inr (s', b)"
  defines "c \<equiv> of_int (sint (AutopilotUtility.c_maxAileronDeflection u))" and "y \<equiv> exact_errors x (0 - fp_val a)"
  shows "roll_close (Suc n) s' (exact_windup c y)"
    "\<bar>of_int (sint b) - saturate c (exact_output y)\<bar> \<le> 1 + (of_nat n + 14) * ulp20"
proof -
  define t where "t = roll_errors s (fsub (m_desiredRollAngle s) a)"
  define out where "out = roll_output t"
  define sat where "sat = bindPidAileronDeflection u out"
  note t = roll_errors_close[OF s a x, folded t_def y_def, folded out_def]
  have "of_int 0 \<le> c" "c \<le> of_int 127" unfolding c_def of_int_le_iff
    using u sint8_range(2)[of "AutopilotUtility.c_maxAileronDeflection u"] by simp_all
  then have c: "0 \<le> c" "c \<le> 127" by (simp_all only: of_int_numeral of_int_0)
  have sf: "is_fin sat" "fp_val sat = saturate c (fp_val out)"
    using bindPidAileronDeflection_fin[OF u t(6)] by (simp_all add: sat_def c_def saturate_def)
  have e: "s' = t\<lparr>m_rollIntegralError := anti_windup t out sat\<rparr>" "fp_to_i8 sat = Inr b"
    using d by (auto simp: computeRollToAileronDeflection_def roll_step_def roll_saturate_def res_simps
        t_def[symmetric] out_def[symmetric] sat_def[symmetric])
  note w = anti_windup_close[OF t(5) c t(8,9,6,7) sf]
  have oy: "exact_output y = 1 / 2 * x_prev y + 1 / 20 * x_integral y + 2 / 25 * x_derivative y" by (simp only: exact_simps)
  have b: "\<bar>fp_val out - exact_output y - (1 / 20 * fp_val (m_rollIntegralError t) - 1 / 20 * x_integral y)\<bar> \<le> 13 * ulp20"
    using t(4) unfolding oy abs_le_iff by linarith
  note k = windup_contracts[OF c(1) t(3) b]
  have "\<bar>fp_val (anti_windup t out sat) - x_integral (exact_windup c y)\<bar> \<le> of_nat n * (18 * ulp20) + 18 * ulp20"
    using k w unfolding exact_simps abs_le_iff by linarith
  moreover have "of_nat (Suc n) * (18 * ulp20) = of_nat n * (18 * ulp20) + 18 * ulp20" by (simp add: field_simps)
  ultimately show "roll_close (Suc n) s' (exact_windup c y)"
    using t(1,2) by (simp only: roll_close_def e exact_simps) simp
  have "sint b = trunc_rat (fp_val sat)"
    using e(2) fp_to_i8_within[of sat] sf c by (auto simp: fp_within_def saturate_def)
  then have "\<bar>of_int (sint b) - fp_val sat\<bar> \<le> 1" using trunc_rat_near by simp
  moreover have "\<bar>saturate c (fp_val out) - saturate c (exact_output y)\<bar> \<le> \<bar>fp_val out - exact_output y\<bar>"
    by (rule saturate_near[OF c(1)])
  moreover have "\<bar>fp_val out - exact_output y\<bar> \<le> 14 * ulp20 + of_nat n * ulp20"
    using b t(3) unfolding abs_le_iff by linarith
  ultimately show "\<bar>of_int (sint b) - saturate c (exact_output y)\<bar> \<le> 1 + (of_nat n + 14) * ulp20"
    unfolding sf(2) ring_distribs by linarith
qed

lemma run_close:
  assumes u: "limits_ok u" and s: "stab_inv s" "roll_close n s x" and ps: "\<forall>(r, i) \<in> set ps. attitude_ok i"
  defines "c \<equiv> of_int (sint (AutopilotUtility.c_maxAileronDeflection u))"
  shows "\<exists>s' cs. run_triggers (StabilizeAutopilot_trigger u) s ps = Inr (s', cs) \<and> length cs = length ps
    \<and> (\<forall>k < length ps. \<bar>of_int (sint (aileronDeflection (cs ! k)))
        - exact_roll_run c x (map (\<lambda>(r, i). fp_val (fp_of_bits32 (gyroX i))) ps) ! k\<bar>
        \<le> 1 + (of_nat (n + k) + 14) * ulp20)"
  using s ps
proof (induction ps arbitrary: s n x)
  case (Cons p ps)
  obtain r i where p: "p = (r, i)" by (cases p)
  then have i: "attitude_ok i" using Cons.prems(3) by auto
  let ?a = "fp_of_bits32 (gyroX i)"
  obtain s1 cmd where t: "StabilizeAutopilot_trigger u s default_ControlSurfacePacket r i = Inr (s1, cmd)" "stab_inv s1"
    using StabilizeAutopilot_trigger_defined[OF u Cons.prems(1) i] by blast
  obtain s0 b eb where 0: "computeRollToAileronDeflection u s ?a = Inr (s0, b)"
    "computePitchToElevatorDeflection s0 (fp_of_bits32 (gyroY i)) = Inr (s1, eb)" "aileronDeflection cmd = b"
    using t(1) by (auto simp: StabilizeAutopilot_trigger_def res_simps)
  have m: "m_prevRollError s1 = m_prevRollError s0" "m_rollDerivativeError s1 = m_rollDerivativeError s0"
    "m_rollIntegralError s1 = m_rollIntegralError s0"
    using 0(2) by (auto simp: computePitchToElevatorDeflection_def pitch_step_def pitch_finish_def res_simps)
  have "roll_inv s" "fp_within ?a 180" "0 \<le> sint (AutopilotUtility.c_maxAileronDeflection u)"
    using Cons.prems(1) i u by (auto simp: stab_inv_def attitude_ok_def limits_ok_def)
  note c = computeRoll_close[OF this(3,1,2) Cons.prems(2) 0(1), folded c_def]
  let ?y = "exact_errors x (0 - fp_val ?a)"
  have "roll_close (Suc n) s1 (exact_windup c ?y)" using c(1) m by (simp add: roll_close_def)
  moreover have "\<forall>(r, i) \<in> set ps. attitude_ok i" using Cons.prems(3) by auto
  ultimately obtain s' cs where 2: "run_triggers (StabilizeAutopilot_trigger u) s1 ps = Inr (s', cs)" "length cs = length ps"
    "\<forall>k < length ps. \<bar>of_int (sint (aileronDeflection (cs ! k)))
        - exact_roll_run c (exact_windup c ?y) (map (\<lambda>(r, i). fp_val (fp_of_bits32 (gyroX i))) ps) ! k\<bar>
        \<le> 1 + (of_nat (Suc n + k) + 14) * ulp20"
    using Cons.IH[OF t(2)] by blast
  have "\<bar>of_int (sint (aileronDeflection ((cmd # cs) ! k)))
      - exact_roll_run c x (map (\<lambda>(r, i). fp_val (fp_of_bits32 (gyroX i))) (p # ps)) ! k\<bar>
      \<le> 1 + (of_nat (n + k) + 14) * ulp20" if "k < length (p # ps)" for k
    using that 2(3) c(2) 0(3) p by (cases k) (auto simp: Let_def)
  then show ?case using t(1) 2(1,2) p by auto
qed simp

subsection \<open>Properties\<close>

text \<open>
  C6 The roll controller computes what its formulas say: over any flight within the angle bounds, the aileron
  command of trigger \<open>k\<close> differs from the bounded output of the reference, the PID recursion with anti-windup in exact
  arithmetic and with the decimal gains of the configuration, by at most one (the truncation to a whole number) and
  \<open>(k + 14) / 2 ^ 33\<close> (all roundings so far); an eighth after a billion triggers, more than a year of flight.
\<close>
theorem roll_accurate:
  assumes "limits_ok u" "stab_inv s" "\<forall>(r, i) \<in> set ps. attitude_ok i"
  shows "\<exists>s' cs. run_triggers (StabilizeAutopilot_trigger u) s ps = Inr (s', cs) \<and> length cs = length ps
    \<and> (\<forall>k < length ps. \<bar>of_int (sint (aileronDeflection (cs ! k)))
        - exact_roll_run (of_int (sint (AutopilotUtility.c_maxAileronDeflection u))) (exact_of s)
            (map (\<lambda>(r, i). fp_val (fp_of_bits32 (gyroX i))) ps) ! k\<bar>
        \<le> 1 + of_nat (k + 14) / 2 ^ 33)"
proof -
  have "roll_close 0 s (exact_of s)" by (simp add: roll_close_def exact_of_def)
  from run_close[OF assms(1,2) this assms(3)] show ?thesis by (simp add: add_divide_distrib)
qed

theorem roll_accurate_witness:
  "\<exists>s' cs. run_triggers (StabilizeAutopilot_trigger level_utility) level_stabilize
      (replicate 3 (default_RcRxPacket, default_ImuPacket\<lparr>gyroX := 0xC1700000, gyroY := 0x41200000\<rparr>)) = Inr (s', cs)
    \<and> \<bar>of_int (sint (aileronDeflection (cs ! 0))) - (15 / 2 + 3 / 200 + 120 / 7)\<bar> \<le> (1 :: rat) + 14 / 2 ^ 33"
proof -
  let ?ps = "replicate 3 (default_RcRxPacket, default_ImuPacket\<lparr>gyroX := 0xC1700000, gyroY := 0x41200000\<rparr>)"
  have h: "exact_roll_run c x (a # as) ! 0 = saturate c (exact_output (exact_errors x (0 - a)))" for c x a as
    by (simp add: Let_def)
  have "fp_of_bits32 0xC1700000 = Fin (- 15)" by code_simp
  then have e: "exact_roll_run 35 (exact_of level_stabilize) (map (\<lambda>(r, i). fp_val (fp_of_bits32 (gyroX i))) ?ps) ! 0
      = 15 / 2 + 3 / 200 + 120 / 7"
    by (simp add: numeral_3_eq_3 h exact_of_def level_stabilize_def exact_errors_def exact_output_def saturate_def
        del: exact_roll_run.simps)
  have c: "of_int (sint (AutopilotUtility.c_maxAileronDeflection level_utility)) = (35 :: rat)"
    by (simp add: level_utility_def)
  have "\<forall>(r, i) \<in> set ?ps. attitude_ok i" using banked by auto
  from roll_accurate[OF level_ok(3,1) this, unfolded c] obtain s' cs where
    1: "run_triggers (StabilizeAutopilot_trigger level_utility) level_stabilize ?ps = Inr (s', cs)"
    and 2: "\<forall>k < length ?ps. \<bar>of_int (sint (aileronDeflection (cs ! k))) - exact_roll_run 35 (exact_of level_stabilize)
        (map (\<lambda>(r, i). fp_val (fp_of_bits32 (gyroX i))) ?ps) ! k\<bar> \<le> 1 + of_nat (k + 14) / 2 ^ 33"
    by blast
  from 2[rule_format, of 0] have "\<bar>of_int (sint (aileronDeflection (cs ! 0))) - (15 / 2 + 3 / 200 + 120 / 7)\<bar>
      \<le> (1 :: rat) + 14 / 2 ^ 33" unfolding e by simp
  with 1 show ?thesis by blast
qed

end
