(* ===== verification/PersistentBank.thy ===== *)
theory PersistentBank
  imports RollAccuracy
begin

section \<open>A bank that persists\<close>

text \<open>
  What the integral part of the roll controller is for: an error that stays brings, in exact arithmetic
  sooner or later, and in the rounded one when it is not too small, the full deflection. Over the reference of \<open>RollAccuracy\<close>: the unsaturated output grows by a thousandth of the error per trigger, once the
  derivative of the first trigger has faded, and where the output is bounded, the anti-windup correction does not undo it.
\<close>

subsection \<open>The reference under a constant error\<close>

definition hold_step :: "rat \<Rightarrow> rat \<Rightarrow> exact_roll \<Rightarrow> exact_roll" where
  "hold_step c e x = exact_windup c (exact_errors x e)"

definition next_output :: "rat \<Rightarrow> exact_roll \<Rightarrow> rat" where
  "next_output e x = exact_output (exact_errors x e)"

lemma held_outputs:
  "k < m \<Longrightarrow> exact_roll_run c x (replicate m a) ! k = saturate c (next_output (- a) ((hold_step c (- a) ^^ k) x))"
proof (induction m arbitrary: k x)
  case (Suc m)
  then show ?case by (cases k) (simp_all add: Let_def next_output_def hold_step_def funpow_Suc_right del: funpow.simps(2))
qed simp

lemma hold_step_fields [simp]:
  "x_prev (hold_step c e x) = e"
  "x_prev x = e \<Longrightarrow> x_derivative (hold_step c e x) = 3 / 7 * x_derivative x"
  by (simp_all add: hold_step_def exact_simps)

lemma next_output_step:
  assumes "x_prev x = e"
  shows "next_output e (hold_step c e x) = next_output e x + e / 500
    + (1 / 25 * saturate c (next_output e x) - 1 / 25 * next_output e x) - 24 / 1225 * x_derivative x"
  unfolding next_output_def hold_step_def exact_simps assms by (simp add: field_simps)

lemma saturate_above:
  assumes "0 \<le> c"
  shows "c \<le> x \<and> saturate c x = c \<or> x < c \<and> x \<le> saturate c x"
  using assms by (auto simp: saturate_def)

lemma output_grows:
  assumes x: "x_prev x = e" and c: "0 \<le> c" and d: "24 / 1225 * x_derivative x + g \<le> e / 500" "0 \<le> g"
  shows "min c (next_output e x + g) \<le> min c (next_output e (hold_step c e x))"
proof -
  have "c \<le> next_output e (hold_step c e x) \<or> next_output e x + g \<le> next_output e (hold_step c e x)"
    using saturate_above[OF c, of "next_output e x"] d unfolding next_output_step[OF x] by (elim disjE conjE; linarith)
  then show ?thesis by (auto simp: min_def)
qed

lemma output_keeps:
  \<comment> \<open>what the derivative takes away, it has given before\<close>
  assumes x: "x_prev x = e" and c: "0 \<le> c" and e: "0 \<le> e" and d: "0 \<le> x_derivative x"
  shows "min c (next_output e x) - 6 / 175 * x_derivative x
    \<le> min c (next_output e (hold_step c e x)) - 6 / 175 * (3 / 7 * x_derivative x)"
proof -
  have "c - 24 / 1225 * x_derivative x \<le> next_output e (hold_step c e x)
      \<or> next_output e x - 24 / 1225 * x_derivative x \<le> next_output e (hold_step c e x)"
    using saturate_above[OF c, of "next_output e x"] e unfolding next_output_step[OF x] by (elim disjE conjE; linarith)
  then show ?thesis using d unfolding min_def by (elim disjE) (auto split: if_splits)
qed

subsection \<open>From level flight\<close>

definition level_roll :: exact_roll where
  "level_roll = \<lparr>x_prev = 0, x_derivative = 0, x_integral = 0\<rparr>"

lemma held_first:
  assumes "0 \<le> c" "0 \<le> e"
  shows "- (e / 2) \<le> min c (next_output e (hold_step c e level_roll)) - 6 / 175 * (100 / 7 * e)"
proof -
  obtain o1 where o: "o1 = 1 / 2 * e + 1 / 1000 * e + 8 / 7 * e" by blast
  have "next_output e (hold_step c e level_roll)
      = 503 / 1000 * e + (1 / 25 * saturate c o1 - 1 / 25 * o1) + 24 / 49 * e"
    unfolding next_output_def hold_step_def exact_simps level_roll_def o by (simp add: field_simps)
  then have "0 \<le> next_output e (hold_step c e level_roll)"
    using saturate_above[OF assms(1), of o1] assms o by (elim disjE conjE; linarith)
  then show ?thesis using assms by (auto simp: min_def)
qed

definition held :: "rat \<Rightarrow> rat \<Rightarrow> nat \<Rightarrow> exact_roll" where
  \<comment> \<open>behind the first trigger and so many others\<close>
  "held c e k = (hold_step c e ^^ Suc k) level_roll"

lemma held_Suc: "held c e (Suc k) = hold_step c e (held c e k)"
  by (simp add: held_def)

lemma held_prev: "x_prev (held c e k) = e"
  by (simp add: held_def)

lemma held_derivative: "x_derivative (held c e k) = 100 / 7 * e * (3 / 7) ^ k"
proof (induction k)
  case 0
  then show ?case by (simp add: held_def hold_step_def exact_simps level_roll_def)
qed (simp add: held_Suc held_prev)

lemma held_bound:
  assumes "0 \<le> c" "0 \<le> e"
  shows "- (e / 2) \<le> min c (next_output e (held c e k)) - 6 / 175 * x_derivative (held c e k)"
proof (induction k)
  case 0
  then show ?case using held_first[OF assms] held_derivative[of c e 0] by (simp add: held_def)
next
  case (Suc k)
  have "0 \<le> x_derivative (held c e k)" using assms by (simp add: held_derivative)
  from output_keeps[OF held_prev assms this] Suc.IH show ?case by (simp add: held_Suc held_prev)
qed

lemma held_grows:
  assumes c: "0 \<le> c" and e: "0 \<le> e"
  shows "min c (of_nat j * (e / 1000) - e / 2) \<le> min c (next_output e (held c e (7 + j)))"
proof (induction j)
  case 0
  have "0 \<le> x_derivative (held c e 7)" using e by (simp add: held_derivative)
  then have "- (e / 2) \<le> min c (next_output e (held c e 7))" using held_bound[OF assms, of 7] by linarith
  then show ?case by simp
next
  case (Suc j)
  have "(3 / 7 :: rat) ^ (7 + j) \<le> (3 / 7) ^ 7" by (rule power_decreasing) simp_all
  also have "\<dots> \<le> 7 / 2000" by (simp add: power_divide)
  finally have "e * (3 / 7) ^ (7 + j) \<le> e * (7 / 2000)" using e by (rule mult_left_mono)
  then have "x_derivative (held c e (7 + j)) \<le> e / 20" unfolding held_derivative by simp
  then have "24 / 1225 * x_derivative (held c e (7 + j)) + e / 1000 \<le> e / 500" using e by linarith
  from output_grows[OF held_prev c this] e
  have "min c (next_output e (held c e (7 + j)) + e / 1000) \<le> min c (next_output e (held c e (7 + Suc j)))"
    unfolding add_Suc_right held_Suc by simp
  moreover have "min c (of_nat (Suc j) * (e / 1000) - e / 2) \<le> min c (next_output e (held c e (7 + j)) + e / 1000)"
    using Suc.IH e by (simp add: min_def algebra_simps split: if_splits)
  ultimately show ?case by (rule order_trans[rotated])
qed

lemma held_full:
  assumes c: "0 \<le> c" and e: "0 < e" and k: "1000 * c + 508 * e \<le> of_nat k * e"
  shows "saturate c (next_output e ((hold_step c e ^^ k) level_roll)) = c"
proof -
  have "508 * e \<le> of_nat k * e" using k c by linarith
  then have "(508 :: rat) \<le> of_nat k" using e by simp
  then have "of_nat 508 \<le> (of_nat k :: rat)" by simp
  then have "508 \<le> k" by (simp only: of_nat_le_iff)
  then have j: "k = Suc (7 + (k - 8))" by simp
  then obtain j where j: "k = Suc (7 + j)" by blast
  have "of_nat k * e = 8 * e + of_nat j * e" by (simp add: j algebra_simps)
  then have "c \<le> of_nat j * (e / 1000) - e / 2" using k by (simp add: field_simps)
  then have "c \<le> next_output e (held c e (7 + j))" using held_grows[OF c, of e j] e by (simp add: min_def split: if_splits)
  moreover have "(hold_step c e ^^ k) level_roll = held c e (7 + j)" by (simp only: held_def j)
  ultimately show ?thesis using c by (simp add: saturate_def)
qed

subsection \<open>The other direction\<close>

definition mirror_roll :: "exact_roll \<Rightarrow> exact_roll" where
  "mirror_roll x = \<lparr>x_prev = - x_prev x, x_derivative = - x_derivative x, x_integral = - x_integral x\<rparr>"

lemma saturate_minus: "0 \<le> c \<Longrightarrow> saturate c (- x) = - saturate c x"
  by (auto simp: saturate_def min_def max_def)

lemma exact_mirrored:
  "exact_errors (mirror_roll x) (- e) = mirror_roll (exact_errors x e)"
  "exact_output (mirror_roll x) = - exact_output x"
  by (simp_all add: mirror_roll_def exact_errors_def exact_output_def field_simps)

lemma exact_windup_mirrored: "0 \<le> c \<Longrightarrow> exact_windup c (mirror_roll x) = mirror_roll (exact_windup c x)"
  unfolding exact_windup_def exact_mirrored(2) by (simp add: mirror_roll_def saturate_minus right_diff_distrib)

lemma exact_roll_run_mirrored:
  "0 \<le> c \<Longrightarrow> exact_roll_run c (mirror_roll x) (map uminus as) = map uminus (exact_roll_run c x as)"
proof (induction as arbitrary: x)
  case (Cons a as)
  have "exact_errors (mirror_roll x) (0 - - a) = mirror_roll (exact_errors x (0 - a))"
    using exact_mirrored(1)[of x "- a"] by simp
  then show ?case using Cons by (simp add: Let_def exact_mirrored exact_windup_mirrored saturate_minus)
qed simp

lemma bank_answered:
  assumes c: "0 \<le> c" and a: "a \<noteq> 0" and k: "k < m" "1000 * c + 508 * \<bar>a\<bar> \<le> of_nat k * \<bar>a\<bar>"
  shows "exact_roll_run c level_roll (replicate m a) ! k = - sgn a * c"
proof (cases "a < 0")
  case True
  then show ?thesis using held_full[OF c, of "- a" k] k by (simp add: held_outputs)
next
  case False
  then have "exact_roll_run c level_roll (replicate m (- a)) ! k = c"
    using held_full[OF c, of a k] a k by (simp add: held_outputs)
  moreover have "length (exact_roll_run c x as) = length as" for x as by (induction as arbitrary: x) (simp_all add: Let_def)
  moreover have "mirror_roll level_roll = level_roll" by (simp add: mirror_roll_def level_roll_def)
  ultimately show ?thesis using exact_roll_run_mirrored[OF c, of level_roll "replicate m (- a)"] False a k(1)
    by (simp add: nth_map)
qed

subsection \<open>Properties\<close>

text \<open>
  C7 A bank that persists is answered with the full aileron: from level flight, with a roll angle that stays at
  some \<open>a\<close> of at least a thousandth of a degree, every command from trigger \<open>1000 c / \<bar>a\<bar> + 508\<close> on, up to trigger
  \<open>2 ^ 32\<close>, is within one of the limit \<open>c\<close>, against the angle, although the anti-windup correction works against the
  integral all the time and each trigger rounds. (The first of these triggers is below \<open>2 ^ 27\<close>. Of smaller angles nothing
  is claimed: the rounding may absorb what they add to the integral before the limit is reached.)
\<close>
theorem persistent_bank:
  fixes a :: rat
  assumes "limits_ok u" "stab_inv s" "exact_of s = level_roll" "1 / 1000 \<le> \<bar>a\<bar>"
    and "\<forall>(r, i) \<in> set ps. attitude_ok i \<and> fp_val (fp_of_bits32 (gyroX i)) = a"
  shows "\<exists>s' cs. run_triggers (StabilizeAutopilot_trigger u) s ps = Inr (s', cs) \<and> length cs = length ps
    \<and> (\<forall>k < length ps. k < 2 ^ 32
        \<and> 1000 * of_int (sint (AutopilotUtility.c_maxAileronDeflection u)) + 508 * \<bar>a\<bar> \<le> of_nat k * \<bar>a\<bar>
        \<longrightarrow> \<bar>sint (aileronDeflection (cs ! k))
              + (if 0 < a then 1 else - 1) * sint (AutopilotUtility.c_maxAileronDeflection u)\<bar> \<le> 1)"
proof -
  let ?ci = "sint (AutopilotUtility.c_maxAileronDeflection u)" and ?f = "\<lambda>(r, i). fp_val (fp_of_bits32 (gyroX i))"
  have "roll_close 0 s level_roll" using assms(3) by (simp add: roll_close_def exact_of_def level_roll_def)
  moreover have "\<forall>(r, i) \<in> set ps. attitude_ok i" using assms(5) by auto
  ultimately obtain s' cs where r: "run_triggers (StabilizeAutopilot_trigger u) s ps = Inr (s', cs)" "length cs = length ps"
    "\<forall>k < length ps. \<bar>of_int (sint (aileronDeflection (cs ! k))) - exact_roll_run (of_int ?ci) level_roll (map ?f ps) ! k\<bar>
      \<le> 1 + (of_nat (0 + k) + 14) * ulp20"
    using run_close[OF assms(1,2)] by blast
  have m: "map ?f ps = replicate (length ps) a" using assms(5) by (intro replicate_eqI) auto
  have a: "a \<noteq> 0" using assms(4) by auto
  have "\<bar>sint (aileronDeflection (cs ! k)) + (if 0 < a then 1 else - 1) * ?ci\<bar> \<le> 1"
    if k: "k < length ps" "k < 2 ^ 32" "1000 * of_int ?ci + 508 * \<bar>a\<bar> \<le> of_nat k * \<bar>a\<bar>" for k
  proof -
    let ?n = "sint (aileronDeflection (cs ! k)) + (if 0 < a then 1 else - 1) * ?ci"
    have "(0 :: rat) \<le> of_int ?ci" using assms(1) by (simp only: limits_ok_def of_int_0_le_iff)
    from bank_answered[OF this a k(1,3)] have
      "exact_roll_run (of_int ?ci) level_roll (map ?f ps) ! k = - (of_int ((if 0 < a then 1 else - 1) * ?ci))"
      using a unfolding m by (simp add: sgn_if)
    with r(3)[rule_format, OF k(1)] have "\<bar>of_int ?n\<bar> \<le> 1 + (of_nat k + 14) * ulp20"
      by (simp only: of_int_add add_0 diff_minus_eq_add)
    moreover have "(of_nat k :: rat) < of_nat (2 ^ 32)" using k(2) by (simp only: of_nat_less_iff)
    then have "(of_nat k + 14) * ulp20 < 1" by simp
    ultimately have "\<bar>of_int ?n\<bar> < (of_int 2 :: rat)" by linarith
    then show ?thesis by (simp only: of_int_abs[symmetric] of_int_less_iff)
  qed
  with r(1,2) show ?thesis by blast
qed

theorem persistent_bank_witness:
  "\<exists>s' cs. run_triggers (StabilizeAutopilot_trigger level_utility) level_stabilize
      (replicate 3000 (default_RcRxPacket, default_ImuPacket\<lparr>gyroX := 0xC1700000, gyroY := 0x41200000\<rparr>)) = Inr (s', cs)
    \<and> length cs = 3000 \<and> \<bar>sint (aileronDeflection (cs ! 2999)) - 35\<bar> \<le> 1"
proof -
  let ?ps = "replicate 3000 (default_RcRxPacket, default_ImuPacket\<lparr>gyroX := 0xC1700000, gyroY := 0x41200000\<rparr>)"
  have "fp_of_bits32 0xC1700000 = Fin (- 15)" by code_simp
  then have "\<forall>(r, i) \<in> set ?ps. attitude_ok i \<and> fp_val (fp_of_bits32 (gyroX i)) = - 15" using banked by auto
  moreover have "exact_of level_stabilize = level_roll" by (simp add: exact_of_def level_roll_def level_stabilize_def)
  ultimately obtain s' cs where r: "run_triggers (StabilizeAutopilot_trigger level_utility) level_stabilize ?ps = Inr (s', cs)"
    "length cs = length ?ps"
    and k: "\<forall>k < length ?ps. k < 2 ^ 32 \<and> 1000 * of_int (sint (AutopilotUtility.c_maxAileronDeflection level_utility)) + 508 * \<bar>- 15 :: rat\<bar>
        \<le> of_nat k * \<bar>- 15\<bar> \<longrightarrow> \<bar>sint (aileronDeflection (cs ! k))
          + (if 0 < (- 15 :: rat) then 1 else - 1) * sint (AutopilotUtility.c_maxAileronDeflection level_utility)\<bar> \<le> 1"
    using persistent_bank[OF level_ok(3,1), of "- 15" ?ps] by auto
  have "sint (AutopilotUtility.c_maxAileronDeflection level_utility) = 35" by (simp add: level_utility_def)
  with k[rule_format, of 2999] r show ?thesis by simp
qed

end
