(* ===== verification/Resync.thy ===== *)
theory Resync
  imports SomLoop
begin

section \<open>Where timeouts leave the stream\<close>

text \<open>
  \<^verbatim>\<open>runMainLoop\<close> reads an RC packet of 9 bytes and an IMU packet of 28, in turns, and a read that times out skips nothing. The
  lemmas count what any number of iterations has taken off the stream, and where in a pair of packets that
  leaves it; the pair's 37 bytes are a prime number.
\<close>

subsection \<open>Bytes taken\<close>

lemma som_write_stream:
  assumes "asio_ok A rx tx"
  shows "stream rx (m_serialController (som_write A som c i)) = stream rx (m_serialController som)"
  using writePacket_cases(1)[OF assms] by (auto simp: som_write_def split: prod.split)

lemma readPacket_drops:
  assumes "asio_ok A rx tx" "readPacket A sz dec dflt sc = (res, sc')"
  shows "stream rx sc' = drop (if didTimeout res then 0 else sz) (stream rx sc)
    \<and> (\<not> didTimeout res \<longrightarrow> sz \<le> length (stream rx sc))"
  using readPacket_cases(2,3)[OF assms] by (cases "didTimeout res") simp_all

lemma som_read_takes:
  assumes A: "asio_ok A rx tx"
  shows "som_read_rc A som = (r, som') \<Longrightarrow> \<exists>t. m_debugMessage som' = count_read t (m_debugMessage som)
      \<and> (\<not> t \<longrightarrow> 9 \<le> length (stream rx (m_serialController som)))
      \<and> stream rx (m_serialController som') = drop (if t then 0 else 9) (stream rx (m_serialController som))"
    and "som_read_imu A som = (i, som') \<Longrightarrow> \<exists>t. m_debugMessage som' = count_read t (m_debugMessage som)
      \<and> (\<not> t \<longrightarrow> 28 \<le> length (stream rx (m_serialController som)))
      \<and> stream rx (m_serialController som') = drop (if t then 0 else 28) (stream rx (m_serialController som))"
proof -
  obtain res sc where e: "readPacket A 9 dec_RcRxPacket default_RcRxPacket (m_serialController som) = (res, sc)" by force
  assume "som_read_rc A som = (r, som')"
  then show "\<exists>t. m_debugMessage som' = count_read t (m_debugMessage som)
      \<and> (\<not> t \<longrightarrow> 9 \<le> length (stream rx (m_serialController som)))
      \<and> stream rx (m_serialController som') = drop (if t then 0 else 9) (stream rx (m_serialController som))"
    using readPacket_drops[OF A e] e by (intro exI[of _ "didTimeout res"]) (auto simp: som_read_rc_def)
next
  obtain res sc where e: "readPacket A 28 dec_ImuPacket default_ImuPacket (m_serialController som) = (res, sc)" by force
  assume "som_read_imu A som = (i, som')"
  then show "\<exists>t. m_debugMessage som' = count_read t (m_debugMessage som)
      \<and> (\<not> t \<longrightarrow> 28 \<le> length (stream rx (m_serialController som)))
      \<and> stream rx (m_serialController som') = drop (if t then 0 else 28) (stream rx (m_serialController som))"
    using readPacket_drops[OF A e] e by (intro exI[of _ "didTimeout res"]) (auto simp: som_read_imu_def)
qed

definition taken :: "('d \<Rightarrow> byte list) \<Rightarrow> nat \<Rightarrow> nat \<Rightarrow> ('d, 'h) SomController \<Rightarrow> ('d, 'h) SomController \<Rightarrow> bool" where
  \<comment> \<open>so many RC and IMU packets, and the counter of reads says how many in all\<close>
  "taken rx a b som som' \<longleftrightarrow> 9 * a + 28 * b \<le> length (stream rx (m_serialController som))
     \<and> stream rx (m_serialController som') = drop (9 * a + 28 * b) (stream rx (m_serialController som))
     \<and> serialReads (m_debugMessage som') = serialReads (m_debugMessage som) + of_nat (a + b)"

lemma taken_refl: "taken rx 0 0 som som"
  by (simp add: taken_def)

lemma taken_trans:
  assumes "taken rx a b s0 s1" "taken rx a' b' s1 s2"
  shows "taken rx (a + a') (b + b') s0 s2"
  using assms by (auto simp: taken_def algebra_simps)

lemma som_iteration_taken:
  assumes A: "asio_ok A rx tx" and i: "som_iteration A M pad (som, w) = Inr (som', w')"
  shows "\<exists>a b. a \<le> 1 \<and> b \<le> 1 \<and> taken rx a b som som'"
  using i
proof (rule som_iterationE)
  fix r som1 i som2 c som3
  assume s: "som_read_rc A som = (r, som1)" "som_read_imu A som1 = (i, som2)"
    "som_control som2 r i = Inr (c, som3)" "som' = som_write A som3 c i"
  obtain t where t: "m_debugMessage som1 = count_read t (m_debugMessage som)"
    "\<not> t \<longrightarrow> 9 \<le> length (stream rx (m_serialController som))"
    "stream rx (m_serialController som1) = drop (if t then 0 else 9) (stream rx (m_serialController som))"
    using som_read_takes(1)[OF A s(1)] by blast
  obtain t' where t': "m_debugMessage som2 = count_read t' (m_debugMessage som1)"
    "\<not> t' \<longrightarrow> 28 \<le> length (stream rx (m_serialController som1))"
    "stream rx (m_serialController som2) = drop (if t' then 0 else 28) (stream rx (m_serialController som1))"
    using som_read_takes(2)[OF A s(2)] by blast
  have c: "m_serialController som3 = m_serialController som2" "m_debugMessage som3 = m_debugMessage som2"
    using s(3) by (auto simp: som_control_def res_simps)
  have "serialReads (m_debugMessage som') = serialReads (m_debugMessage som2)"
    using s(4) c(2) by (auto simp: som_write_def count_write_def split: prod.splits)
  then have "taken rx (of_bool (\<not> t)) (of_bool (\<not> t')) som som'"
    using t t' c(1) som_write_stream[OF A, of som3 c i] s(4)
    by (auto simp: taken_def count_read_def split: if_splits)
  then show ?thesis by (intro exI[of _ "of_bool (\<not> t)"] exI[of _ "of_bool (\<not> t')"]) auto
qed

lemma som_iterations_taken:
  assumes A: "asio_ok A rx tx" and "repeat_res n (som_iteration A M pad) (som, w) = Inr (som', w')"
  shows "\<exists>a b. a \<le> n \<and> b \<le> n \<and> taken rx a b som som'"
  using assms(2)
proof (induction n arbitrary: som w)
  case 0
  then show ?case using taken_refl by auto
next
  case (Suc n)
  then obtain som1 w1 where 1: "som_iteration A M pad (som, w) = Inr (som1, w1)"
    "repeat_res n (som_iteration A M pad) (som1, w1) = Inr (som', w')" by (auto simp: res_simps)
  obtain a b where "a \<le> 1" "b \<le> 1" "taken rx a b som som1" using som_iteration_taken[OF A 1(1)] by blast
  moreover obtain a' b' where "a' \<le> n" "b' \<le> n" "taken rx a' b' som1 som'" using Suc.IH[OF 1(2)] by blast
  ultimately show ?case using taken_trans[of rx a b som som1 a' b' som']
    by (intro exI[of _ "a + a'"] exI[of _ "b + b'"]) auto
qed

subsection \<open>The place in a pair\<close>

lemma length_packets_bytes: "length (packets_bytes ps) = 37 * length ps"
  by (induction ps) (auto simp: packets_bytes_def rcrx.enc_length imu.enc_length)

lemma drop_packets_bytes: "drop (37 * q) (packets_bytes ps) = packets_bytes (drop q ps)"
proof (induction q arbitrary: ps)
  case (Suc q)
  show ?case
  proof (cases ps)
    case (Cons p ps')
    have "length (case p of (r, i) \<Rightarrow> enc_RcRxPacket r @ enc_ImuPacket i) = 37"
      by (cases p) (simp add: rcrx.enc_length imu.enc_length)
    then have "drop (37 * Suc q) (packets_bytes ps) = drop (37 * q) (packets_bytes ps')"
      using Cons by (simp add: packets_bytes_def)
    then show ?thesis using Suc.IH[of ps'] Cons by simp
  qed (simp add: packets_bytes_def)
qed simp

lemma drop_phase: "drop n (packets_bytes ps) = drop (n mod 37) (packets_bytes (drop (n div 37) ps))"
proof -
  have "n = n mod 37 + 37 * (n div 37)" by simp
  then have "drop n (packets_bytes ps) = drop (n mod 37) (drop (37 * (n div 37)) (packets_bytes ps))"
    by (metis drop_drop)
  then show ?thesis by (simp only: drop_packets_bytes)
qed

lemma dvd_37: "37 dvd 9 * x \<longleftrightarrow> 37 dvd (x :: int)"
proof
  assume "37 dvd 9 * x"
  then obtain k where "9 * x = 37 * k" by blast
  then have "x = 37 * (33 * k - 8 * x)" by simp
  then show "37 dvd x" by (rule dvdI)
qed simp

lemma phase_zero_iff: "(9 * a + 28 * b) mod 37 = 0 \<longleftrightarrow> a mod 37 = b mod (37 :: nat)"
proof -
  have e: "int (9 * a + 28 * b) = 9 * (int a - int b) + 37 * int b" by simp
  have "(9 * a + 28 * b) mod 37 = 0 \<longleftrightarrow> int 37 dvd int (9 * a + 28 * b)"
    by (simp only: of_nat_dvd_iff mod_eq_0_iff_dvd)
  also have "\<dots> \<longleftrightarrow> 37 dvd 9 * (int a - int b) + 37 * int b" by (simp only: e of_nat_numeral)
  also have "\<dots> \<longleftrightarrow> 37 dvd int a - int b" by (metis dvd_add_left_iff dvd_triv_left dvd_37)
  also have "\<dots> \<longleftrightarrow> int a mod 37 = int b mod 37" by (simp add: mod_eq_dvd_iff)
  also have "\<dots> \<longleftrightarrow> a mod 37 = b mod 37" by (metis of_nat_eq_iff of_nat_numeral zmod_int)
  finally show ?thesis .
qed

end
