(* ===== verification/Waiting.thy ===== *)
theory Waiting
  imports SomLoop
begin

section \<open>How long the SoM can wait\<close>

text \<open>
  The waits of the serial operations are the only ones in the main loop and in the handshake. With a
  port that keeps a clock, and operations that end no later than their timeouts (\<open>asio_timed\<close>, what \<^verbatim>\<open>wait_for\<close> promises), the
  lemmas add them up: two reads and a write bound the period of the main loop, whatever arrives.
\<close>

definition asio_timed :: "'d asio \<Rightarrow> ('d \<Rightarrow> nat) \<Rightarrow> bool" where
  \<comment> \<open>milliseconds; the wait for the future ends after the given time at the latest, and a cancellation does not wait\<close>
  "asio_timed A clk \<longleftrightarrow>
     (\<forall>n t d c bs d'. asio_read A n t d = (c, bs, d') \<longrightarrow> clk d \<le> clk d' \<and> clk d' \<le> clk d + t)
   \<and> (\<forall>dl buf t d c bs d'. asio_read_until A dl buf t d = (c, bs, d') \<longrightarrow> clk d \<le> clk d' \<and> clk d' \<le> clk d + t)
   \<and> (\<forall>bs t d c d'. asio_write A bs t d = (c, d') \<longrightarrow> clk d \<le> clk d' \<and> clk d' \<le> clk d + t)
   \<and> (\<forall>d. clk (asio_cancel A d) = clk d)"

definition waited :: "('d \<Rightarrow> nat) \<Rightarrow> 'd SerialController \<Rightarrow> nat \<Rightarrow> 'd SerialController \<Rightarrow> bool" where
  \<comment> \<open>at most so many milliseconds, and the timeouts are still the configured ones\<close>
  "waited clk sc t sc' \<longleftrightarrow> clk (m_serialPort sc) \<le> clk (m_serialPort sc')
     \<and> clk (m_serialPort sc') \<le> clk (m_serialPort sc) + t
     \<and> c_readTimeoutMs sc' = c_readTimeoutMs sc \<and> c_writeTimeoutMs sc' = c_writeTimeoutMs sc"

lemma waited_refl: "waited clk sc 0 sc"
  by (simp add: waited_def)

lemma waited_trans: "waited clk s0 t s1 \<Longrightarrow> waited clk s1 t' s2 \<Longrightarrow> waited clk s0 (t + t') s2"
  by (simp add: waited_def)

lemma waited_mono: "waited clk s0 t s1 \<Longrightarrow> t \<le> t' \<Longrightarrow> waited clk s0 t' s1"
  by (simp add: waited_def)

subsection \<open>Serial operations\<close>

lemma readPacket_waited:
  assumes A: "asio_timed A clk" and r: "readPacket A sz dec dflt sc = (res, sc')"
  shows "waited clk sc (unat (c_readTimeoutMs sc)) sc'"
proof -
  obtain c bs d where e: "asio_read A sz (unat (c_readTimeoutMs sc)) (m_serialPort sc) = (c, bs, d)"
    using prod_cases3 by blast
  then have "clk (m_serialPort sc) \<le> clk d" "clk d \<le> clk (m_serialPort sc) + unat (c_readTimeoutMs sc)"
    "clk (asio_cancel A d) = clk d" using A unfolding asio_timed_def by blast+
  then show ?thesis using r e by (cases c) (auto simp: readPacket_def waited_def)
qed

lemma writePacket_waited:
  assumes A: "asio_timed A clk" and r: "writePacket A enc sc p = (ok, sc')"
  shows "waited clk sc (unat (c_writeTimeoutMs sc)) sc'"
proof -
  obtain c d where e: "asio_write A (enc p) (unat (c_writeTimeoutMs sc)) (m_serialPort sc) = (c, d)" by force
  then have "clk (m_serialPort sc) \<le> clk d" "clk d \<le> clk (m_serialPort sc) + unat (c_writeTimeoutMs sc)"
    "clk (asio_cancel A d) = clk d" using A unfolding asio_timed_def by blast+
  then show ?thesis using r e by (cases c) (auto simp: writePacket_def waited_def)
qed

lemma flush_waited:
  assumes A: "asio_timed A clk" and r: "flush A sc = (ok, sc')"
  shows "waited clk sc (2 * unat (c_readTimeoutMs sc)) sc'"
proof -
  let ?t = "unat (c_readTimeoutMs sc * ucast kDelayMultiplier)"
  obtain c bs d where e: "asio_read_until A (string_bytes (c_handshakeTerminationStr sc)) (m_streamBuffer sc)
      ?t (m_serialPort sc) = (c, bs, d)" using prod_cases3 by blast
  then have "clk (m_serialPort sc) \<le> clk d" "clk d \<le> clk (m_serialPort sc) + ?t"
    "clk (asio_cancel A d) = clk d" using A unfolding asio_timed_def by blast+
  moreover have "?t \<le> 2 * unat (c_readTimeoutMs sc)"
    unfolding unat_word_ariths kDelayMultiplier_def by simp
  ultimately show ?thesis using r e by (cases c) (auto simp: flush_def waited_def)
qed

subsection \<open>Iterations and the handshake\<close>

lemma som_iteration_waited:
  assumes A: "asio_timed A clk" and i: "som_iteration A M pad (som, w) = Inr (som', w')"
  shows "waited clk (m_serialController som) (2 * unat (c_readTimeoutMs (m_serialController som))
    + unat (c_writeTimeoutMs (m_serialController som))) (m_serialController som')"
  using i
proof (rule som_iterationE)
  fix r som1 i som2 c som3
  assume s: "som_read_rc A som = (r, som1)" "som_read_imu A som1 = (i, som2)"
    "som_control som2 r i = Inr (c, som3)" "som' = som_write A som3 c i"
  let ?r = "unat (c_readTimeoutMs (m_serialController som))"
  have 1: "waited clk (m_serialController som) ?r (m_serialController som1)"
    using s(1) readPacket_waited[OF A] by (fastforce simp: som_read_rc_def split: prod.splits)
  have 2: "waited clk (m_serialController som1) (unat (c_readTimeoutMs (m_serialController som1))) (m_serialController som2)"
    using s(2) readPacket_waited[OF A] by (fastforce simp: som_read_imu_def split: prod.splits)
  have "m_serialController som3 = m_serialController som2" using s(3) by (auto simp: som_control_def res_simps)
  then have 3: "waited clk (m_serialController som2) (unat (c_writeTimeoutMs (m_serialController som2))) (m_serialController som')"
    using s(4) writePacket_waited[OF A] by (fastforce simp: som_write_def split: prod.splits)
  show ?thesis using 1 2 3 by (auto simp: waited_def)
qed

lemma som_iterations_waited:
  assumes A: "asio_timed A clk" and "repeat_res n (som_iteration A M pad) (som, w) = Inr (som', w')"
  shows "waited clk (m_serialController som) (n * (2 * unat (c_readTimeoutMs (m_serialController som))
    + unat (c_writeTimeoutMs (m_serialController som)))) (m_serialController som')"
  using assms(2)
proof (induction n arbitrary: som w)
  case 0
  then show ?case by (simp add: waited_refl)
next
  case (Suc n)
  then obtain som1 w1 where 1: "som_iteration A M pad (som, w) = Inr (som1, w1)"
    "repeat_res n (som_iteration A M pad) (som1, w1) = Inr (som', w')" by (auto simp: res_simps)
  from waited_trans[OF som_iteration_waited[OF A 1(1)] Suc.IH[OF 1(2)]] som_iteration_waited[OF A 1(1)]
  show ?case by (simp add: waited_def)
qed

lemma handshake_attempts_waited:
  assumes A: "asio_timed A clk" and h: "handshake_attempts A n som = (ok, som')"
  shows "waited clk (m_serialController som) (n * unat (c_readTimeoutMs (m_serialController som))) (m_serialController som')"
  using h
proof (induction n arbitrary: som)
  case 0
  then show ?case by (simp add: waited_refl)
next
  case (Suc n)
  obtain res sc where r: "readPacket A 1 dec_HandshakePacket default_HandshakePacket (m_serialController som) = (res, sc)"
    by force
  note w = readPacket_waited[OF A r]
  have step: ?case if "handshake_attempts A n s = (ok, som')" "m_serialController s = sc" for s
    using waited_trans[OF w] Suc.IH[OF that(1)] w that(2) by (auto simp: waited_def)
  show ?case
  proof (cases "\<not> didTimeout res \<and> eq_HandshakePacket kHandshakePacket (packet res)")
    case True
    then show ?thesis using Suc.prems r w by (auto intro: waited_mono)
  next
    case False
    then show ?thesis using Suc.prems r step by (auto split: if_splits)
  qed
qed

lemma handshakeMCU_waited:
  assumes A: "asio_timed A clk" and h: "handshakeMCU A som = Inr (ok, som')"
  shows "waited clk (m_serialController som)
    ((2 + unat (c_handshakeAttempts som)) * unat (c_readTimeoutMs (m_serialController som))
      + unat (c_writeTimeoutMs (m_serialController som))) (m_serialController som')"
proof -
  obtain fl sc where f: "flush A (m_serialController som) = (fl, sc)" by force
  obtain wr sc' where w: "writePacket A enc_HandshakePacket sc kHandshakePacket = (wr, sc')" by force
  have fl using h f by (cases fl) (auto simp: handshakeMCU_def rcplane_assert_def)
  note 12 = waited_trans[OF flush_waited[OF A f] writePacket_waited[OF A w]]
  show ?thesis
  proof (cases wr)
    case False
    then have "m_serialController som' = sc'" using h f w \<open>fl\<close>
      by (auto simp: handshakeMCU_def rcplane_assert_def)
    then show ?thesis using 12 flush_waited[OF A f] by (auto simp: waited_def)
  next
    case True
    let ?s = "som\<lparr>m_serialController := sc', m_debugMessage := count_write True (m_debugMessage som)\<rparr>"
    have "handshake_attempts A (unat (c_handshakeAttempts som)) ?s = (ok, som')" using h f w \<open>fl\<close> True
      by (simp add: handshakeMCU_def rcplane_assert_def)
    from handshake_attempts_waited[OF A this] show ?thesis using 12 flush_waited[OF A f]
      by (auto simp: waited_def algebra_simps)
  qed
qed

end
