(* ===== verification/LateCommands.thy ===== *)
theory LateCommands
  imports Flight
begin

section \<open>Commands that come late\<close>

text \<open>
  A flight on a line that brings the commands to the firmware late: how many of the bytes that are on their way arrive
  before the read of a call of \<^verbatim>\<open>loop\<close> ends is given round by round. The firmware reads one command per call, so commands
  that came late are worked off one by one while new ones come: the delay of the servo is the largest delay so far.
\<close>

subsection \<open>The flight\<close>

fun late_flight ::
  "'d asio \<Rightarrow> ('h, 'w) mq \<Rightarrow> byte \<Rightarrow> (byte list \<Rightarrow> 'd \<Rightarrow> 'd) \<Rightarrow> ('d \<Rightarrow> byte list) \<Rightarrow> (mcu_in \<times> nat) list
   \<Rightarrow> Mcu \<times> ('d, 'h) SomController \<times> 'w \<Rightarrow> byte list \<Rightarrow> byte list
   \<Rightarrow> ((Mcu \<times> ('d, 'h) SomController \<times> 'w) \<times> (u8 \<times> int) list) res" where
  \<comment> \<open>with the bytes that came but were not read yet, and those on their way\<close>
  "late_flight A M pad arrive tx [] s rest line = Inr (s, [])"
| "late_flight A M pad arrive tx ((inp, n) # inps) (m, som, w) rest line =
     res_bind (mcu_loop (inp\<lparr>in_serial := []\<rparr>) m) (\<lambda>(_, out).
     res_bind (som_iteration A M pad (som_receives arrive (out_serial out) som, w)) (\<lambda>(som', w').
       let sent = line @ som_sent tx som som'; heard = rest @ take n sent
       in res_bind (mcu_loop (inp\<lparr>in_serial := heard\<rparr>) m) (\<lambda>(m', out').
          res_bind (late_flight A M pad arrive tx inps (m', som', w') (drop 4 heard) (drop n sent)) (\<lambda>(s2, servos).
            Inr (s2, out_analog out' @ servos)))))"

subsection \<open>The same over whole commands\<close>

fun late_run :: "'c \<Rightarrow> 'c list \<Rightarrow> 'c list \<Rightarrow> ('c \<times> nat) list \<Rightarrow> 'c list" where
  \<comment> \<open>the command the servo follows in each round: \<open>cur\<close> until a command has come\<close>
  "late_run cur got wire [] = []"
| "late_run cur got wire ((c, k) # cks) =
     (case got @ take k (wire @ [c]) of
        [] \<Rightarrow> cur # late_run cur [] (drop k (wire @ [c])) cks
      | x # got' \<Rightarrow> x # late_run x got' (drop k (wire @ [c])) cks)"

lemma length_late_run [simp]: "length (late_run cur got wire cks) = length cks"
  by (induction cur got wire cks rule: late_run.induct) (simp_all split: list.split)

lemma late_round:
  \<comment> \<open>the first round, and what it leaves to the others\<close>
  assumes A: "asio_ok A rx tx" "asio_prompt A rx P" "arrive_ok rx tx P arrive"
    and s: "in_step rx P (m_serialController som) [] []" "som_ready som"
    and i: "pulses_ok inp" "imu_sane (in_mpu inp)"
  obtains m' som' w' c heard h where "heard = got @ take k (wire @ [c])"
    and "h = (case heard of [] \<Rightarrow> mcu_csPacket m | c # _ \<Rightarrow> c)" "mcu_csPacket m' = h"
    and "som_ready som'" "in_step rx P (m_serialController som') [] []" "m_autopilotUtility som' = m_autopilotUtility som"
    and "AutopilotManager_trigger (m_autopilotUtility som) (m_autopilotManager som) (sticks_of inp) (in_mpu inp)
      = Inr (m_autopilotManager som', c)"
    and "\<And>iks s2 servos. late_flight A M pad arrive tx iks (m', som', w') (enc_commands (drop 1 heard))
          (enc_commands (drop k (wire @ [c]))) = Inr (s2, servos)
      \<Longrightarrow> late_flight A M pad arrive tx ((inp, 4 * k) # iks) (m, som, w) (enc_commands got) (enc_commands wire)
        = Inr (s2, servo_of h # servos)"
proof -
  obtain m1 out som1 w1 c where x: "mcu_loop (inp\<lparr>in_serial := []\<rparr>) m = Inr (m1, out)"
    "som_iteration A M pad (som_receives arrive (out_serial out) som, w) = Inr (som1, w1)"
    "som_sent tx som som1 = enc_ControlSurfacePacket c"
    "som_ready som1" "in_step rx P (m_serialController som1) [] []" "m_autopilotUtility som1 = m_autopilotUtility som"
    "AutopilotManager_trigger (m_autopilotUtility som) (m_autopilotManager som) (sticks_of inp) (in_mpu inp)
      = Inr (m_autopilotManager som1, c)"
    by (rule round_exchange[OF A s i, where M = M and pad = pad and m = m and w = w])
  define heard where "heard = got @ take k (wire @ [c])"
  obtain m2 out2 where 2: "mcu_loop (inp\<lparr>in_serial := enc_commands heard\<rparr>) m = Inr (m2, out2)"
    "mcu_csPacket m2 = (case heard of [] \<Rightarrow> mcu_csPacket m | c # _ \<Rightarrow> c)"
    "out_analog out2 = [servo_of (case heard of [] \<Rightarrow> mcu_csPacket m | c # _ \<Rightarrow> c)]"
    by (rule firmware_hears[OF i(1)])
  have b: "enc_commands wire @ som_sent tx som som1 = enc_commands (wire @ [c])" by (simp add: x(3))
  have h: "enc_commands got @ take (4 * k) (enc_commands (wire @ [c])) = enc_commands heard"
    "drop 4 (enc_commands heard) = enc_commands (drop 1 heard)"
    "drop (4 * k) (enc_commands (wire @ [c])) = enc_commands (drop k (wire @ [c]))"
    using enc_commands_take_drop[of k "wire @ [c]"] enc_commands_take_drop(2)[of 1 heard] by (simp_all add: heard_def)
  show ?thesis
    by (rule that[where w' = w1, OF heard_def refl 2(2) x(4,5,6,7)])
      (unfold late_flight.simps x(1,2) sum.case prod.case b Let_def h 2 append_Cons append_Nil, simp)
qed

lemma late_flight_run:
  assumes A: "asio_ok A rx tx" "asio_prompt A rx P" "arrive_ok rx tx P arrive"
    and "in_step rx P (m_serialController som) [] []" "som_ready som"
    and "\<forall>(inp, k) \<in> set iks. pulses_ok inp \<and> imu_sane (in_mpu inp)"
  shows "\<exists>m' som' w' cs. late_flight A M pad arrive tx (map (\<lambda>(inp, k). (inp, 4 * k)) iks) (m, som, w)
        (enc_commands got) (enc_commands wire)
      = Inr ((m', som', w'), map servo_of (late_run (mcu_csPacket m) got wire (zip cs (map snd iks))))
    \<and> som_ready som' \<and> in_step rx P (m_serialController som') [] [] \<and> length cs = length iks
    \<and> run_triggers (\<lambda>m c r i. AutopilotManager_trigger (m_autopilotUtility som) m r i)
        (m_autopilotManager som) (map (\<lambda>(inp, k). (sticks_of inp, in_mpu inp)) iks)
      = Inr (m_autopilotManager som', cs)"
  using assms(4-6)
proof (induction iks arbitrary: m som w got wire)
  case (Cons ik iks)
  obtain inp k where ik: "ik = (inp, k)" by force
  then have i: "pulses_ok inp" "imu_sane (in_mpu inp)" using Cons.prems(3) by auto
  show ?case
  proof (rule late_round[OF A Cons.prems(1,2) i, where M = M and pad = pad and m = m and w = w and got = got and k = k and wire = wire])
    fix m2 som1 w1 c heard h assume x: "heard = got @ take k (wire @ [c])"
      "h = (case heard of [] \<Rightarrow> mcu_csPacket m | c # _ \<Rightarrow> c)" "mcu_csPacket m2 = h"
      "som_ready som1" "in_step rx P (m_serialController som1) [] []" "m_autopilotUtility som1 = m_autopilotUtility som"
      "AutopilotManager_trigger (m_autopilotUtility som) (m_autopilotManager som) (sticks_of inp) (in_mpu inp)
        = Inr (m_autopilotManager som1, c)"
      and l: "\<And>iks s2 servos. late_flight A M pad arrive tx iks (m2, som1, w1) (enc_commands (drop 1 heard))
            (enc_commands (drop k (wire @ [c]))) = Inr (s2, servos)
        \<Longrightarrow> late_flight A M pad arrive tx ((inp, 4 * k) # iks) (m, som, w) (enc_commands got) (enc_commands wire)
          = Inr (s2, servo_of h # servos)"
    obtain m' som' w' cs where r: "late_flight A M pad arrive tx (map (\<lambda>(inp, k). (inp, 4 * k)) iks) (m2, som1, w1)
          (enc_commands (drop 1 heard)) (enc_commands (drop k (wire @ [c])))
        = Inr ((m', som', w'), map servo_of (late_run h (drop 1 heard) (drop k (wire @ [c])) (zip cs (map snd iks))))"
      "som_ready som'" "in_step rx P (m_serialController som') [] []" "length cs = length iks"
      "run_triggers (\<lambda>m c r i. AutopilotManager_trigger (m_autopilotUtility som) m r i)
          (m_autopilotManager som1) (map (\<lambda>(inp, k). (sticks_of inp, in_mpu inp)) iks)
        = Inr (m_autopilotManager som', cs)"
      using Cons.IH[OF x(5,4), of m2 w1 "drop 1 heard" "drop k (wire @ [c])"] Cons.prems(3) x(3,6) by auto
    have "h # late_run h (drop 1 heard) (drop k (wire @ [c])) (zip cs (map snd iks))
        = late_run (mcu_csPacket m) got wire (zip (c # cs) (map snd (ik # iks)))"
      unfolding ik x(2) list.map prod.sel zip_Cons_Cons late_run.simps x(1)[symmetric]
      by (cases heard) (simp_all only: list.case drop_Nil drop_Suc_Cons drop_0 One_nat_def)
    then have "late_flight A M pad arrive tx (map (\<lambda>(inp, k). (inp, 4 * k)) (ik # iks)) (m, som, w)
          (enc_commands got) (enc_commands wire)
        = Inr ((m', som', w'), map servo_of (late_run (mcu_csPacket m) got wire (zip (c # cs) (map snd (ik # iks)))))"
      unfolding ik list.map prod.case l[OF r(1)] by (metis list.map(2))
    moreover have "run_triggers (\<lambda>m c r i. AutopilotManager_trigger (m_autopilotUtility som) m r i)
          (m_autopilotManager som) (map (\<lambda>(inp, k). (sticks_of inp, in_mpu inp)) (ik # iks))
        = Inr (m_autopilotManager som', c # cs)" using r(5) x(7) by (simp add: ik)
    ultimately show ?thesis using r(2-4)
      by (intro exI[of _ m'] exI[of _ som'] exI[of _ w'] exI[of _ "c # cs"]) (simp del: late_flight.simps late_run.simps)
  qed
qed simp

subsection \<open>The delay\<close>

fun lags :: "nat \<Rightarrow> nat \<Rightarrow> nat list \<Rightarrow> nat list" where
  \<comment> \<open>commands sent but not followed, with \<open>l\<close> of them before, \<open>w\<close> of those on their way\<close>
  "lags l w [] = []"
| "lags l w (k # ks) = (let l' = max l (Suc w - k) in l' # lags l' (Suc w - k) ks)"

lemma lags_bound: "w \<le> l \<Longrightarrow> i < length ks \<Longrightarrow> lags l w ks ! i \<le> l + Suc i"
proof (induction ks arbitrary: l w i)
  case (Cons k ks)
  let ?l = "max l (Suc w - k)"
  have "?l \<le> Suc l" using Cons.prems(1) by simp
  moreover have "lags ?l (Suc w - k) ks ! (i - 1) \<le> ?l + Suc (i - 1)" if "0 < i"
    using Cons.IH[of "Suc w - k" ?l "i - 1"] Cons.prems(2) that by simp
  ultimately show ?case by (cases i) (auto simp: Let_def)
qed simp

lemma delivered_later:
  \<comment> \<open>not more comes than was sent\<close>
  assumes "\<forall>j < length (k # ks). sum_list (take (Suc j) (k # ks)) \<le> w + Suc j"
  shows "k \<le> Suc w" "\<forall>j < length ks. sum_list (take (Suc j) ks) \<le> Suc w - k + Suc j"
proof -
  show k: "k \<le> Suc w" using assms[rule_format, of 0] by simp
  show "\<forall>j < length ks. sum_list (take (Suc j) ks) \<le> Suc w - k + Suc j"
  proof (intro allI impI)
    fix j assume "j < length ks"
    then show "sum_list (take (Suc j) ks) \<le> Suc w - k + Suc j" using assms[rule_format, of "Suc j"] k by simp
  qed
qed

lemma late_run_lags:
  assumes "length cs = length ks" "i < length ks"
    and "\<forall>j < length ks. sum_list (take (Suc j) ks) \<le> length wire + Suc j"
  shows "late_run cur got wire (zip cs ks) ! i
    = (let l = length got + length wire + i; d = lags (length got + length wire) (length wire) ks ! i
       in if d \<le> l then (got @ wire @ cs) ! (l - d) else cur)"
  using assms
proof (induction ks arbitrary: cs i cur got wire)
  case (Cons k ks)
  obtain c cs' where cs: "cs = c # cs'" using Cons.prems(1) by (cases cs) auto
  let ?heard = "got @ take k (wire @ [c])" and ?wire = "drop k (wire @ [c])"
  note k = delivered_later(1)[OF Cons.prems(3)]
  have w: "length ?wire = Suc (length wire) - k" by simp
  have "\<forall>j < length ks. sum_list (take (Suc j) ks) \<le> length ?wire + Suc j"
    unfolding w by (rule delivered_later(2)[OF Cons.prems(3)])
  note IH = Cons.IH[OF _ _ this, of cs']
  show ?case
  proof (cases ?heard)
    case Nil
    then have n: "got = []" "k = 0" by auto
    show ?thesis using IH[where i = "i - 1" and got = "[]" and cur = cur] Cons.prems(1,2) by (cases i) (simp_all add: cs n Let_def)
  next
    case (Cons x got')
    have l: "length got' + length ?wire = length got + length wire" "max (length got + length wire) (Suc (length wire) - k)
        = length got + length wire"
      using arg_cong[OF Cons, of length] k by auto
    have e: "got @ wire @ cs = x # got' @ ?wire @ cs'"
      using Cons cs by (metis append.assoc append_Cons append_Nil append_take_drop_id)
    show ?thesis
    proof (cases i)
      case 0
      show ?thesis unfolding e using Cons by (simp add: 0 cs Let_def l(2))
    next
      case (Suc j)
      let ?d = "lags (length got + length wire) (length ?wire) ks ! j"
      have j: "j < length ks" using Cons.prems(2) Suc by simp
      have "length ?wire \<le> length got + length wire" using l(1) by linarith
      note lags_bound[OF this j]
      moreover have "lags (length got + length wire) (length wire) (k # ks) ! i = ?d"
        by (simp only: Suc lags.simps Let_def nth_Cons_Suc l(2) w)
      moreover have "late_run cur got wire (zip cs (k # ks)) ! i = late_run x got' ?wire (zip cs' ks) ! j"
        by (simp only: Suc cs zip_Cons_Cons late_run.simps Cons list.case nth_Cons_Suc)
      moreover have "length cs' = length ks" using Cons.prems(1) cs by simp
      note IH[OF this j, of x got', unfolded l(1)]
      moreover have "(x # ys) ! (Suc a - d) = (if d \<le> a then ys ! (a - d) else x)" if "d \<le> Suc a" for ys a d
        using that by (simp add: Suc_diff_le)
      ultimately show ?thesis unfolding e Let_def by (simp only: Suc add_Suc_right) (simp split: if_splits)
    qed
  qed
qed simp

lemma lags_worst:
  assumes "i < length ks" "\<forall>j < length ks. sum_list (take (Suc j) ks) \<le> w + Suc j"
  shows "lags l w ks ! i = max l (Max ((\<lambda>j. w + Suc j - sum_list (take (Suc j) ks)) ` {..i}))"
  using assms
proof (induction ks arbitrary: l w i)
  case (Cons k ks)
  note d = delivered_later[OF Cons.prems(2)]
  show ?case
  proof (cases i)
    case (Suc j)
    let ?f = "\<lambda>w ks j. w + Suc j - sum_list (take (Suc j) ks)"
    have "?f w (k # ks) ` {..Suc j} = insert (Suc w - k) ((\<lambda>i. ?f w (k # ks) (Suc i)) ` {..j})"
      by (simp add: atMost_Suc_eq_insert_0 image_image)
    also have "(\<lambda>i. ?f w (k # ks) (Suc i)) ` {..j} = ?f (Suc w - k) ks ` {..j}"
      using d Cons.prems(1) Suc by (intro image_cong) auto
    finally have "Max (?f w (k # ks) ` {..Suc j}) = Max (insert (Suc w - k) (?f (Suc w - k) ks ` {..j}))" by (rule arg_cong)
    also have "\<dots> = max (Suc w - k) (Max (?f (Suc w - k) ks ` {..j}))" by (rule Max_insert) auto
    finally show ?thesis using Cons.IH[OF _ d(2), of j "max l (Suc w - k)"] Cons.prems(1)
      unfolding Suc lags.simps Let_def nth_Cons_Suc by (simp only: max.assoc length_Cons Suc_less_eq)
  qed (simp add: Let_def)
qed simp

end
