(* ===== verification/SomProcess.thy ===== *)
theory SomProcess
  imports SomLoop IoService
begin

section \<open>The process of the SoM: main thread and io thread\<close>

text \<open>
  \<^verbatim>\<open>som/main.cpp\<close> from the constructed controller to the end of the process, with the main thread as a program counter over
  the calls of \<open>SomController\<close> and the io thread as the events of \<open>IoService\<close>, in every interleaving. It connects the two views of
  \<^verbatim>\<open>m_ioService.stopped()\<close>: a sequence of answers in \<open>runMainLoop\<close>, the state of the service here.
\<close>

subsection \<open>The main thread\<close>

datatype main_pc =
  AtStart | AtHandshake | AtRun | AtAssert | AtTest | AtBody
| AtStop int | AtJoin int  \<comment> \<open>in the destructor, with the status to return\<close>
| Ended "int res"

record ('d, 'h, 'w) som_process =
  som_pc :: main_pc
  som_object :: "('d, 'h) SomController"
  som_queues :: 'w
  som_io :: io_state

definition process_start :: "('d, 'h) SomController \<Rightarrow> 'w \<Rightarrow> ('d, 'h, 'w) som_process" where
  \<comment> \<open>behind the constructor\<close>
  "process_start som w = \<lparr>som_pc = AtStart, som_object = som, som_queues = w, som_io = io_constructed\<rparr>"

definition startIoThread :: "io_state \<Rightarrow> io_state" where
  "startIoThread s = s\<lparr>thread := Running\<rparr>"

definition reset_worker :: "io_state \<Rightarrow> io_state" where
  \<comment> \<open>\<^verbatim>\<open>stopIoThread\<close> up to the \<^verbatim>\<open>join\<close>\<close>
  "reset_worker s = s\<lparr>work_guard := False\<rparr>"

definition delete_SomController :: "int \<Rightarrow> ('d, 'h, 'w) som_process \<Rightarrow> ('d, 'h, 'w) som_process" where
  \<comment> \<open>the destructor, up to the \<^verbatim>\<open>join\<close> in which it waits\<close>
  "delete_SomController st p = p\<lparr>som_pc := AtJoin st, som_io := reset_worker (som_io p)\<rparr>"

definition main_step ::
  "'d asio \<Rightarrow> ('h, 'w) mq \<Rightarrow> byte \<Rightarrow> ('d, 'h, 'w) som_process \<Rightarrow> ('d, 'h, 'w) som_process" where
  "main_step A M pad p = (case som_pc p of
     AtStart \<Rightarrow> p\<lparr>som_pc := AtHandshake, som_io := startIoThread (som_io p)\<rparr>
   | AtHandshake \<Rightarrow> (case handshakeMCU A (som_object p) of
         Inl e \<Rightarrow> p\<lparr>som_pc := Ended (Inl e)\<rparr>
       | Inr (ok, som) \<Rightarrow> p\<lparr>som_pc := if ok then AtRun else AtStop 1, som_object := som\<rparr>)
   | AtRun \<Rightarrow> (case sendTelemetry M pad (som_object p) (som_queues p) of
         Inl e \<Rightarrow> p\<lparr>som_pc := Ended (Inl e)\<rparr>
       | Inr w \<Rightarrow> p\<lparr>som_pc := AtAssert, som_queues := w\<rparr>)
   | AtAssert \<Rightarrow> p\<lparr>som_pc := if is_stopped (som_io p) then Ended (Inl Exited) else AtTest\<rparr>
   | AtTest \<Rightarrow> p\<lparr>som_pc := if is_stopped (som_io p) then AtStop 0 else AtBody\<rparr>
   | AtBody \<Rightarrow> (case som_iteration A M pad (som_object p, som_queues p) of
         Inl e \<Rightarrow> p\<lparr>som_pc := Ended (Inl e)\<rparr>
       | Inr (som, w) \<Rightarrow> p\<lparr>som_pc := AtTest, som_object := som, som_queues := w\<rparr>)
   | AtStop st \<Rightarrow> delete_SomController st p
   | AtJoin st \<Rightarrow> p\<lparr>som_pc := Ended (Inr st)\<rparr>
   | Ended r \<Rightarrow> p)"

lemma main_step_simps:
  "som_pc p = AtStart \<Longrightarrow> main_step A M pad p = p\<lparr>som_pc := AtHandshake, som_io := startIoThread (som_io p)\<rparr>"
  "som_pc p = AtHandshake \<Longrightarrow> handshakeMCU A (som_object p) = Inl e \<Longrightarrow> main_step A M pad p = p\<lparr>som_pc := Ended (Inl e)\<rparr>"
  "som_pc p = AtHandshake \<Longrightarrow> handshakeMCU A (som_object p) = Inr (ok, som)
     \<Longrightarrow> main_step A M pad p = p\<lparr>som_pc := if ok then AtRun else AtStop 1, som_object := som\<rparr>"
  "som_pc p = AtRun \<Longrightarrow> sendTelemetry M pad (som_object p) (som_queues p) = Inl e
     \<Longrightarrow> main_step A M pad p = p\<lparr>som_pc := Ended (Inl e)\<rparr>"
  "som_pc p = AtRun \<Longrightarrow> sendTelemetry M pad (som_object p) (som_queues p) = Inr w
     \<Longrightarrow> main_step A M pad p = p\<lparr>som_pc := AtAssert, som_queues := w\<rparr>"
  "som_pc p = AtAssert \<Longrightarrow> main_step A M pad p = p\<lparr>som_pc := if is_stopped (som_io p) then Ended (Inl Exited) else AtTest\<rparr>"
  "som_pc p = AtTest \<Longrightarrow> main_step A M pad p = p\<lparr>som_pc := if is_stopped (som_io p) then AtStop 0 else AtBody\<rparr>"
  "som_pc p = AtBody \<Longrightarrow> som_iteration A M pad (som_object p, som_queues p) = Inl e
     \<Longrightarrow> main_step A M pad p = p\<lparr>som_pc := Ended (Inl e)\<rparr>"
  "som_pc p = AtBody \<Longrightarrow> som_iteration A M pad (som_object p, som_queues p) = Inr (som, w)
     \<Longrightarrow> main_step A M pad p = p\<lparr>som_pc := AtTest, som_object := som, som_queues := w\<rparr>"
  "som_pc p = AtStop st \<Longrightarrow> main_step A M pad p = p\<lparr>som_pc := AtJoin st, som_io := reset_worker (som_io p)\<rparr>"
  "som_pc p = AtJoin st \<Longrightarrow> main_step A M pad p = p\<lparr>som_pc := Ended (Inr st)\<rparr>"
  "som_pc p = Ended x \<Longrightarrow> main_step A M pad p = p"
  by (simp_all add: main_step_def delete_SomController_def)

definition main_enabled :: "('d, 'h, 'w) som_process \<Rightarrow> bool" where
  "main_enabled p = (case som_pc p of AtJoin _ \<Rightarrow> join_returns (som_io p) | Ended _ \<Rightarrow> False | _ \<Rightarrow> True)"

subsection \<open>Both threads\<close>

datatype process_event = Main main_pc | Io io_event

inductive process_step ::
  "'d asio \<Rightarrow> ('h, 'w) mq \<Rightarrow> byte \<Rightarrow> ('d, 'h, 'w) som_process \<Rightarrow> process_event \<Rightarrow> ('d, 'h, 'w) som_process \<Rightarrow> bool"
  for A M pad where
  Main: "main_enabled p \<Longrightarrow> process_step A M pad p (Main (som_pc p)) (main_step A M pad p)"
| IoThread: "e \<in> {Signal, EndOp, RunReturns} \<Longrightarrow> io_step (som_io p) e s \<Longrightarrow> \<forall>r. som_pc p \<noteq> Ended r
    \<Longrightarrow> process_step A M pad p (Io e) (p\<lparr>som_io := s\<rparr>)"
| Operation: "som_pc p \<in> {AtHandshake, AtBody} \<Longrightarrow> io_step (som_io p) BeginOp s
    \<Longrightarrow> process_step A M pad p (Io BeginOp) (p\<lparr>som_io := s\<rparr>)"
    \<comment> \<open>the reads and writes of the call in progress, as many as there are\<close>

lemma process_stepE:
  assumes "process_step A M pad p e q"
  obtains (Main) "e = Main (som_pc p)" "q = main_step A M pad p" "main_enabled p"
  | (IoThread) i s where "e = Io i" "q = p\<lparr>som_io := s\<rparr>" "io_step (som_io p) i s" "i \<in> {Signal, EndOp, RunReturns}"
      "\<forall>r. som_pc p \<noteq> Ended r"
  | (Operation) s where "e = Io BeginOp" "q = p\<lparr>som_io := s\<rparr>" "io_step (som_io p) BeginOp s" "som_pc p \<in> {AtHandshake, AtBody}"
  using assms by (cases rule: process_step.cases) auto

inductive process_run ::
  "'d asio \<Rightarrow> ('h, 'w) mq \<Rightarrow> byte \<Rightarrow> ('d, 'h, 'w) som_process \<Rightarrow> process_event list \<Rightarrow> ('d, 'h, 'w) som_process \<Rightarrow> bool"
  for A M pad where
  Nil: "process_run A M pad p [] p"
| Cons: "process_step A M pad p e p1 \<Longrightarrow> process_run A M pad p1 es p2 \<Longrightarrow> process_run A M pad p (e # es) p2"

inductive_simps process_run_simps: "process_run A M pad p [] p'" "process_run A M pad p (e # es) p'"

lemma process_run_append:
  "process_run A M pad p es p1 \<Longrightarrow> process_run A M pad p1 fs p2 \<Longrightarrow> process_run A M pad p (es @ fs) p2"
  by (induction rule: process_run.induct) (auto intro: process_run.Cons)

lemma process_run_main:
  "main_enabled p \<Longrightarrow> process_run A M pad (main_step A M pad p) es q \<Longrightarrow> process_run A M pad p (Main (som_pc p) # es) q"
  by (rule process_run.Cons[OF process_step.Main])

lemma process_run_io:
  "io_run (som_io p) es s \<Longrightarrow> set es \<subseteq> {Signal, EndOp, RunReturns} \<Longrightarrow> \<forall>r. som_pc p \<noteq> Ended r
   \<Longrightarrow> process_run A M pad p (map Io es) (p\<lparr>som_io := s\<rparr>)"
proof (induction "som_io p" es s arbitrary: p rule: io_run.induct)
  case Nil
  then show ?case using process_run.Nil[of A M pad p] by simp
next
  case (Cons e s1 es s2)
  then have "process_step A M pad p (Io e) (p\<lparr>som_io := s1\<rparr>)" by (intro process_step.IoThread) auto
  moreover have "process_run A M pad (p\<lparr>som_io := s1\<rparr>) (map Io es) (p\<lparr>som_io := s2\<rparr>)"
    using Cons.hyps(3)[of "p\<lparr>som_io := s1\<rparr>"] Cons.prems by simp
  ultimately show ?case by (simp add: process_run.Cons)
qed

subsection \<open>The outcome is that of the functional model\<close>

definition exit_status :: "'a res option \<Rightarrow> int res option" where
  "exit_status = map_option (\<lambda>r. res_bind r (\<lambda>_. Inr 0))"

lemma exit_status_simps [simp]:
  "exit_status (Some (Inl e)) = Some (Inl e)" "exit_status (Some (Inr s)) = Some (Inr 0)"
  by (simp_all add: exit_status_def)

definition outcome ::
  "'d asio \<Rightarrow> ('h, 'w) mq \<Rightarrow> byte \<Rightarrow> (nat \<Rightarrow> bool) \<Rightarrow> nat \<Rightarrow> ('d, 'h, 'w) som_process \<Rightarrow> int res option" where
  \<comment> \<open>what the main thread still has to return when the next answer of \<^verbatim>\<open>stopped()\<close> is the \<open>n\<close>-th\<close>
  "outcome A M pad stopped n p =
    (let loop = (\<lambda>n s. exit_status (main_loop stopped (som_iteration A M pad) n s)) in
     case som_pc p of
       AtStart \<Rightarrow> som_session A M pad stopped (som_object p) (som_queues p)
     | AtHandshake \<Rightarrow> som_session A M pad stopped (som_object p) (som_queues p)
     | AtRun \<Rightarrow> exit_status (runMainLoop A M pad stopped (som_object p) (som_queues p))
     | AtAssert \<Rightarrow> if stopped n then Some (Inl Exited) else loop (Suc n) (som_object p, som_queues p)
     | AtTest \<Rightarrow> loop n (som_object p, som_queues p)
     | AtBody \<Rightarrow> (case som_iteration A M pad (som_object p, som_queues p) of
           Inl e \<Rightarrow> Some (Inl e) | Inr s \<Rightarrow> loop n s)
     | AtStop st \<Rightarrow> Some (Inr st) | AtJoin st \<Rightarrow> Some (Inr st) | Ended r \<Rightarrow> Some r)"

lemma outcome_simps:
  "som_pc p = AtStart \<Longrightarrow> outcome A M pad f n p = som_session A M pad f (som_object p) (som_queues p)"
  "som_pc p = AtHandshake \<Longrightarrow> outcome A M pad f n p = som_session A M pad f (som_object p) (som_queues p)"
  "som_pc p = AtRun \<Longrightarrow> outcome A M pad f n p = exit_status (runMainLoop A M pad f (som_object p) (som_queues p))"
  "som_pc p = AtAssert \<Longrightarrow> outcome A M pad f n p = (if f n then Some (Inl Exited)
     else exit_status (main_loop f (som_iteration A M pad) (Suc n) (som_object p, som_queues p)))"
  "som_pc p = AtTest \<Longrightarrow> outcome A M pad f n p
     = exit_status (main_loop f (som_iteration A M pad) n (som_object p, som_queues p))"
  "som_pc p = AtBody \<Longrightarrow> outcome A M pad f n p = (case som_iteration A M pad (som_object p, som_queues p) of
     Inl e \<Rightarrow> Some (Inl e) | Inr s \<Rightarrow> exit_status (main_loop f (som_iteration A M pad) n s))"
  "som_pc p = AtStop st \<Longrightarrow> outcome A M pad f n p = Some (Inr st)"
  "som_pc p = AtJoin st \<Longrightarrow> outcome A M pad f n p = Some (Inr st)"
  "som_pc p = Ended x \<Longrightarrow> outcome A M pad f n p = Some x"
  by (simp_all add: outcome_def)

lemma runMainLoop_cases:
  "sendTelemetry M pad som w = Inl e \<Longrightarrow> runMainLoop A M pad f som w = Some (Inl e)"
  "sendTelemetry M pad som w = Inr w' \<Longrightarrow> runMainLoop A M pad f som w
     = (if f 0 then Some (Inl Exited) else main_loop f (som_iteration A M pad) 1 (som, w'))"
  by (simp_all add: runMainLoop_def)

lemma som_session_cases:
  "handshakeMCU A som = Inl e \<Longrightarrow> som_session A M pad f som w = Some (Inl e)"
  "handshakeMCU A som = Inr (ok, som') \<Longrightarrow> som_session A M pad f som w
     = (if ok then exit_status (runMainLoop A M pad f som' w) else Some (Inr 1))"
  by (simp_all add: som_session_def exit_status_def)

definition starting :: "main_pc \<Rightarrow> bool" where
  "starting l \<longleftrightarrow> l \<in> {AtStart, AtHandshake, AtRun}"

lemma outcome_io [simp]: "outcome A M pad stopped n (p\<lparr>som_io := s\<rparr>) = outcome A M pad stopped n p"
  by (simp add: outcome_def split: main_pc.split)

lemma main_step_outcome_AtAssert:
  assumes "\<And>n. (starting (som_pc (main_step A M pad p)) \<longrightarrow> n = 0)
      \<Longrightarrow> \<exists>k. outcome A M pad (\<lambda>i. n + k \<le> i) n (main_step A M pad p) = Some r"
    and AtAssert: "som_pc p = AtAssert"
  shows "\<exists>k. outcome A M pad (\<lambda>i. n + k \<le> i) n p = Some r"
proof (cases "is_stopped (som_io p)")
  case True
  then show ?thesis using assms(1)[of 0] AtAssert
    by (intro exI[of _ 0]) (simp add: outcome_simps main_step_simps starting_def)
next
  case False
  then obtain k where "outcome A M pad (\<lambda>i. Suc n + k \<le> i) (Suc n) (main_step A M pad p) = Some r"
    using assms(1)[of "Suc n"] AtAssert by (auto simp: main_step_simps starting_def)
  then show ?thesis using AtAssert False
    by (intro exI[of _ "Suc k"]) (simp add: outcome_simps main_step_simps)
qed

lemma main_step_outcome_AtTest:
  assumes "\<And>n. (starting (som_pc (main_step A M pad p)) \<longrightarrow> n = 0)
      \<Longrightarrow> \<exists>k. outcome A M pad (\<lambda>i. n + k \<le> i) n (main_step A M pad p) = Some r"
    and AtTest: "som_pc p = AtTest"
  shows "\<exists>k. outcome A M pad (\<lambda>i. n + k \<le> i) n p = Some r"
proof (cases "is_stopped (som_io p)")
  case True
  then show ?thesis using assms(1)[of 0] AtTest
    by (intro exI[of _ 0]) (simp add: outcome_simps main_step_simps starting_def main_loop.simps)
next
  case False
  then obtain k where "outcome A M pad (\<lambda>i. Suc n + k \<le> i) (Suc n) (main_step A M pad p) = Some r"
    using assms(1)[of "Suc n"] AtTest by (auto simp: main_step_simps starting_def)
  then show ?thesis using AtTest False
    by (intro exI[of _ "Suc k"])
      (auto simp: outcome_simps main_step_simps main_loop.simps[of _ _ n] split: sum.splits)
qed

lemma main_step_outcome_AtBody:
  assumes "\<And>n. (starting (som_pc (main_step A M pad p)) \<longrightarrow> n = 0)
      \<Longrightarrow> \<exists>k. outcome A M pad (\<lambda>i. n + k \<le> i) n (main_step A M pad p) = Some r"
    and AtBody: "som_pc p = AtBody"
  shows "\<exists>k. outcome A M pad (\<lambda>i. n + k \<le> i) n p = Some r"
proof (cases "som_iteration A M pad (som_object p, som_queues p)")
  case (Inl e)
  then show ?thesis using assms(1)[of n] AtBody by (simp add: outcome_simps main_step_simps starting_def)
next
  case (Inr s)
  then show ?thesis using assms(1)[of n] AtBody
    by (cases s) (simp add: outcome_simps main_step_simps starting_def)
qed

lemma main_step_outcome:
  assumes "\<And>n. (starting (som_pc (main_step A M pad p)) \<longrightarrow> n = 0)
      \<Longrightarrow> \<exists>k. outcome A M pad (\<lambda>i. n + k \<le> i) n (main_step A M pad p) = Some r"
    and "starting (som_pc p) \<longrightarrow> n = 0"
  shows "\<exists>k. outcome A M pad (\<lambda>i. n + k \<le> i) n p = Some r"
proof (cases "som_pc p")
  case AtStart
  then show ?thesis using assms(1)[of 0] assms(2) by (simp add: outcome_simps main_step_simps starting_def)
next
  case AtHandshake
  show ?thesis
  proof (cases "handshakeMCU A (som_object p)")
    case (Inl e)
    then show ?thesis using assms(1)[of 0] AtHandshake
      by (simp add: outcome_simps main_step_simps starting_def som_session_cases)
  next
    case (Inr x)
    then obtain ok som where x: "handshakeMCU A (som_object p) = Inr (ok, som)" by (cases x) simp
    show ?thesis using assms(1)[of 0] assms(2) AtHandshake
      by (cases ok) (simp_all add: outcome_simps main_step_simps starting_def som_session_cases x)
  qed
next
  case AtRun
  show ?thesis
  proof (cases "sendTelemetry M pad (som_object p) (som_queues p)")
    case (Inl e)
    then show ?thesis using assms(1)[of 0] AtRun
      by (simp add: outcome_simps main_step_simps starting_def runMainLoop_cases)
  next
    case (Inr w)
    note m = main_step_simps(5)[OF AtRun Inr, of A]
    obtain k where k: "outcome A M pad (\<lambda>i. 0 + k \<le> i) 0 (main_step A M pad p) = Some r"
      using assms(1)[of 0] by auto
    then have "outcome A M pad (\<lambda>i. 0 + k \<le> i) 0 p = Some r"
      unfolding m outcome_simps(3)[OF AtRun] runMainLoop_cases(2)[OF Inr] by (cases k) (simp_all add: outcome_simps)
    then show ?thesis using assms(2) AtRun by (auto simp: starting_def)
  qed
next
  case AtAssert
  from main_step_outcome_AtAssert[OF assms(1) this] show ?thesis .
next
  case AtTest
  from main_step_outcome_AtTest[OF assms(1) this] show ?thesis .
next
  case AtBody
  from main_step_outcome_AtBody[OF assms(1) this] show ?thesis .
qed (use assms(1)[of 0] in \<open>simp_all add: outcome_simps main_step_simps starting_def\<close>)

lemma process_run_outcome:
  "process_run A M pad p es q \<Longrightarrow> som_pc q = Ended r \<Longrightarrow> starting (som_pc p) \<longrightarrow> n = 0
   \<Longrightarrow> \<exists>k. outcome A M pad (\<lambda>i. n + k \<le> i) n p = Some r"
proof (induction arbitrary: n rule: process_run.induct)
  case (Nil p)
  then show ?case by (simp add: outcome_def)
next
  case (Cons p e p1 es q)
  from Cons.hyps(1) consider "p1 = main_step A M pad p" | s where "p1 = p\<lparr>som_io := s\<rparr>"
    by (rule process_stepE)
  then show ?case
  proof cases
    case 1
    show ?thesis by (rule main_step_outcome) (use Cons.IH[OF Cons.prems(1)] Cons.prems(2) in \<open>simp_all add: 1\<close>)
  next
    case 2
    then show ?thesis using Cons.IH[OF Cons.prems(1), of n] Cons.prems(2) by simp
  qed
qed

subsection \<open>Every outcome occurs\<close>

definition io_idle :: io_state where
  \<comment> \<open>the thread started, no operation pending, no signal yet\<close>
  "io_idle = startIoThread io_constructed"

lemma io_idle_stops: "\<exists>s. io_run io_idle [Signal, RunReturns] s \<and> is_stopped s \<and> thread s = Finished"
  by (auto simp: io_step_simps io_idle_def startIoThread_def io_constructed_def)

definition ends :: "'d asio \<Rightarrow> ('h, 'w) mq \<Rightarrow> byte \<Rightarrow> ('d, 'h, 'w) som_process \<Rightarrow> int res \<Rightarrow> bool" where
  "ends A M pad p r \<longleftrightarrow> (\<exists>es q. process_run A M pad p es q \<and> som_pc q = Ended r)"

lemma ends_here: "som_pc p = Ended r \<Longrightarrow> ends A M pad p r"
  unfolding ends_def by (blast intro: process_run.Nil)

lemma ends_main: "main_step A M pad p = q \<Longrightarrow> main_enabled p \<Longrightarrow> ends A M pad q r \<Longrightarrow> ends A M pad p r"
  unfolding ends_def by (blast intro: process_run_main)

lemma ends_starting:
  "som_pc p = AtStart \<Longrightarrow> ends A M pad (p\<lparr>som_pc := AtHandshake, som_io := startIoThread (som_io p)\<rparr>) r \<Longrightarrow> ends A M pad p r"
  "som_pc p = AtHandshake \<Longrightarrow> handshakeMCU A (som_object p) = Inl e \<Longrightarrow> ends A M pad p (Inl e)"
  "som_pc p = AtHandshake \<Longrightarrow> handshakeMCU A (som_object p) = Inr (ok, som)
     \<Longrightarrow> ends A M pad (p\<lparr>som_pc := if ok then AtRun else AtStop 1, som_object := som\<rparr>) r \<Longrightarrow> ends A M pad p r"
  "som_pc p = AtRun \<Longrightarrow> sendTelemetry M pad (som_object p) (som_queues p) = Inl e \<Longrightarrow> ends A M pad p (Inl e)"
  "som_pc p = AtRun \<Longrightarrow> sendTelemetry M pad (som_object p) (som_queues p) = Inr w
     \<Longrightarrow> ends A M pad (p\<lparr>som_pc := AtAssert, som_queues := w\<rparr>) r \<Longrightarrow> ends A M pad p r"
  subgoal by (rule ends_main[OF main_step_simps(1)]) (simp_all add: main_enabled_def ends_here)
  subgoal by (rule ends_main[OF main_step_simps(2)[where e = e]]) (simp_all add: main_enabled_def ends_here)
  subgoal by (rule ends_main[OF main_step_simps(3)[where ok = ok and som = som]]) (simp_all add: main_enabled_def ends_here)
  subgoal by (rule ends_main[OF main_step_simps(4)[where e = e]]) (simp_all add: main_enabled_def ends_here)
  subgoal by (rule ends_main[OF main_step_simps(5)[where w = w]]) (simp_all add: main_enabled_def ends_here)
  done

lemma ends_looping:
  "som_pc p = AtAssert \<Longrightarrow> is_stopped (som_io p) \<Longrightarrow> ends A M pad p (Inl Exited)"
  "som_pc p = AtAssert \<Longrightarrow> \<not> is_stopped (som_io p) \<Longrightarrow> ends A M pad (p\<lparr>som_pc := AtTest\<rparr>) r \<Longrightarrow> ends A M pad p r"
  "som_pc p = AtTest \<Longrightarrow> is_stopped (som_io p) \<Longrightarrow> ends A M pad (p\<lparr>som_pc := AtStop 0\<rparr>) r \<Longrightarrow> ends A M pad p r"
  "som_pc p = AtTest \<Longrightarrow> \<not> is_stopped (som_io p) \<Longrightarrow> ends A M pad (p\<lparr>som_pc := AtBody\<rparr>) r \<Longrightarrow> ends A M pad p r"
  "som_pc p = AtBody \<Longrightarrow> som_iteration A M pad (som_object p, som_queues p) = Inl e \<Longrightarrow> ends A M pad p (Inl e)"
  "som_pc p = AtBody \<Longrightarrow> som_iteration A M pad (som_object p, som_queues p) = Inr (som, w)
     \<Longrightarrow> ends A M pad (p\<lparr>som_pc := AtTest, som_object := som, som_queues := w\<rparr>) r \<Longrightarrow> ends A M pad p r"
  subgoal by (rule ends_main[OF main_step_simps(6)]) (simp_all add: main_enabled_def ends_here)
  subgoal by (rule ends_main[OF main_step_simps(6)]) (simp_all add: main_enabled_def ends_here)
  subgoal by (rule ends_main[OF main_step_simps(7)]) (simp_all add: main_enabled_def ends_here)
  subgoal by (rule ends_main[OF main_step_simps(7)]) (simp_all add: main_enabled_def ends_here)
  subgoal by (rule ends_main[OF main_step_simps(8)[where e = e]]) (simp_all add: main_enabled_def ends_here)
  subgoal by (rule ends_main[OF main_step_simps(9)[where som = som and w = w]]) (simp_all add: main_enabled_def ends_here)
  done

lemma ends_finishing:
  assumes "thread (som_io p) = Finished"
  shows "som_pc p = AtJoin st \<Longrightarrow> ends A M pad p (Inr st)" "som_pc p = AtStop st \<Longrightarrow> ends A M pad p (Inr st)"
proof -
  have j: "ends A M pad q (Inr st)" if "som_pc q = AtJoin st" "thread (som_io q) = Finished" for q
    by (rule ends_main[OF main_step_simps(11)[OF that(1)]]) (simp_all add: main_enabled_def join_returns_def that ends_here)
  then show "som_pc p = AtJoin st \<Longrightarrow> ends A M pad p (Inr st)" using assms by blast
  show "som_pc p = AtStop st \<Longrightarrow> ends A M pad p (Inr st)"
    by (rule ends_main[OF main_step_simps(10)], assumption, simp add: main_enabled_def, rule j)
      (use assms in \<open>simp_all add: reset_worker_def\<close>)
qed

lemma ends_stop:
  \<comment> \<open>the service can stop whenever it is idle\<close>
  assumes "som_io p = io_idle" "\<forall>r. som_pc p \<noteq> Ended r"
    and "\<And>s. is_stopped s \<Longrightarrow> thread s = Finished \<Longrightarrow> ends A M pad (p\<lparr>som_io := s\<rparr>) r"
  shows "ends A M pad p r"
proof -
  obtain s where s: "io_run (som_io p) [Signal, RunReturns] s" "is_stopped s" "thread s = Finished"
    using io_idle_stops assms(1) by metis
  from process_run_io[OF s(1) _ assms(2), of A M pad] have "process_run A M pad p (map Io [Signal, RunReturns]) (p\<lparr>som_io := s\<rparr>)"
    by simp
  then show ?thesis using assms(3)[OF s(2,3)] unfolding ends_def by (blast intro: process_run_append)
qed

lemma io_idle_runs [simp]: "\<not> is_stopped io_idle"
  by (simp add: io_idle_def startIoThread_def io_constructed_def)

lemma outcome_ends_loop:
  "som_pc p = AtTest \<Longrightarrow> som_io p = io_idle
   \<Longrightarrow> exit_status (main_loop (\<lambda>i. n + k \<le> i) (som_iteration A M pad) n (som_object p, som_queues p)) = Some r
   \<Longrightarrow> ends A M pad p r"
proof (induction k arbitrary: n p)
  case 0
  then have r: "r = Inr 0" by (simp add: main_loop.simps)
  show ?case
  proof (rule ends_stop)
    fix s :: io_state assume s: "is_stopped s" "thread s = Finished"
    show "ends A M pad (p\<lparr>som_io := s\<rparr>) r"
      unfolding r by (rule ends_looping(3), simp add: 0, simp add: s, rule ends_finishing(2)) (simp_all add: s)
  qed (simp_all add: 0)
next
  case (Suc k)
  note l = Suc.prems(3)[unfolded main_loop.simps[of _ _ n]]
  have "ends A M pad (p\<lparr>som_pc := AtBody\<rparr>) r"
  proof (cases "som_iteration A M pad (som_object p, som_queues p)")
    case (Inl e)
    then have "r = Inl e" using l by simp
    then show ?thesis using Inl by (simp add: ends_looping(5))
  next
    case (Inr s)
    obtain som w where s: "s = (som, w)" by force
    have "ends A M pad (p\<lparr>som_pc := AtTest, som_object := som, som_queues := w\<rparr>) r"
      by (rule Suc.IH[of _ "Suc n"]) (use l Inr s Suc.prems(2) in simp_all)
    then show ?thesis using ends_looping(6)[of "p\<lparr>som_pc := AtBody\<rparr>" A M pad som w r] Inr s by simp
  qed
  then show ?case using ends_looping(4)[OF Suc.prems(1)] Suc.prems(2) by simp
qed

lemma outcome_ends_run:
  assumes p: "som_pc p = AtRun" "som_io p = io_idle"
    and o: "exit_status (runMainLoop A M pad (\<lambda>i. k \<le> i) (som_object p) (som_queues p)) = Some r"
  shows "ends A M pad p r"
proof (cases "sendTelemetry M pad (som_object p) (som_queues p)")
  case (Inl e)
  then have "r = Inl e" using o by (simp add: runMainLoop_cases)
  then show ?thesis using ends_starting(4)[OF p(1) Inl] by simp
next
  case (Inr w)
  let ?a = "p\<lparr>som_pc := AtAssert, som_queues := w\<rparr>"
  note l = o[unfolded runMainLoop_cases(2)[OF Inr]]
  have "ends A M pad ?a r"
  proof (cases k)
    case 0
    then have r: "r = Inl Exited" using l by simp
    show ?thesis unfolding r by (rule ends_stop) (simp_all add: p ends_looping(1))
  next
    case (Suc j)
    show ?thesis
    proof (rule ends_looping(2))
      show "ends A M pad (?a\<lparr>som_pc := AtTest\<rparr>) r"
        by (rule outcome_ends_loop[where n = 1 and k = j]) (use l Suc p in simp_all)
    qed (use p in simp_all)
  qed
  then show ?thesis by (rule ends_starting(5)[OF p(1) Inr])
qed

lemma outcome_ends:
  assumes "som_session A M pad (\<lambda>i. k \<le> i) som w = Some r"
  shows "ends A M pad (process_start som w) r"
proof (rule ends_starting(1))
  show "som_pc (process_start som w) = AtStart" by (simp add: process_start_def)
  let ?h = "process_start som w\<lparr>som_pc := AtHandshake, som_io := startIoThread (som_io (process_start som w))\<rparr>"
  have h: "som_pc ?h = AtHandshake" "som_object ?h = som" "som_queues ?h = w" "som_io ?h = io_idle"
    by (simp_all add: process_start_def io_idle_def)
  show "ends A M pad ?h r"
  proof (cases "handshakeMCU A som")
    case (Inl e)
    then have "r = Inl e" using assms by (simp add: som_session_cases)
    then show ?thesis using ends_starting(2)[OF h(1), of A e] Inl h(2) by simp
  next
    case (Inr x)
    obtain ok som' where x: "handshakeMCU A (som_object ?h) = Inr (ok, som')" using Inr h(2) by (cases x) simp
    note s = assms[unfolded som_session_cases(2)[OF x[unfolded h(2)]]]
    show ?thesis
    proof (rule ends_starting(3)[OF h(1) x], cases ok)
      case True
      with s h show "ends A M pad (?h\<lparr>som_pc := if ok then AtRun else AtStop 1, som_object := som'\<rparr>) r"
        by (intro outcome_ends_run[where k = k]) simp_all
    next
      case False
      with s have r: "r = Inr 1" by simp
      show "ends A M pad (?h\<lparr>som_pc := if ok then AtRun else AtStop 1, som_object := som'\<rparr>) r"
        unfolding r by (rule ends_stop) (use False h in \<open>simp_all add: ends_finishing(2)\<close>)
    qed
  qed
qed

subsection \<open>How the process ends\<close>

lemma main_step_io:
  "som_io (main_step A M pad p) = (case som_pc p of AtStart \<Rightarrow> startIoThread (som_io p)
     | AtStop st \<Rightarrow> reset_worker (som_io p) | _ \<Rightarrow> som_io p)"
  by (simp add: main_step_def delete_SomController_def split: main_pc.split sum.split prod.split)

lemma main_step_pc:
  "som_pc (main_step A M pad p) \<noteq> AtStart"
  "som_pc (main_step A M pad p) = Ended (Inr st) \<longleftrightarrow> som_pc p = AtJoin st \<or> som_pc p = Ended (Inr st)"
  "som_pc (main_step A M pad p) = AtBody \<longleftrightarrow> som_pc p = AtTest \<and> \<not> is_stopped (som_io p)"
  by (cases "som_pc p"; auto simp: main_step_def delete_SomController_def split: sum.split)+

definition process_inv :: "('d, 'h, 'w) som_process \<Rightarrow> bool" where
  "process_inv p \<longleftrightarrow> io_inv (som_io p) \<and> (som_pc p = AtStart \<longleftrightarrow> thread (som_io p) = NotStarted)
     \<and> (\<not> signal_wait (som_io p) \<longrightarrow> \<not> work_guard (som_io p) \<and> som_pc p \<noteq> AtStart)
     \<and> (\<forall>st. som_pc p = Ended (Inr st) \<longrightarrow> is_stopped (som_io p))"

lemma process_inv_start: "process_inv (process_start som w)"
  using io_inv_constructed by (simp add: process_inv_def process_start_def io_constructed_def)

lemma process_inv_step:
  assumes "process_step A M pad p e q" "process_inv p"
  shows "process_inv q"
  using assms(1)
proof (cases rule: process_stepE)
  case Main
  have "io_inv (som_io q)"
    using assms(2) unfolding Main main_step_io
    by (auto simp: process_inv_def io_inv_def startIoThread_def reset_worker_def split: main_pc.split)
  then show ?thesis using assms(2) Main(3) unfolding process_inv_def Main(2) main_step_pc(2)
    by (auto simp: main_step_io main_step_pc(1) main_enabled_def join_returns_def io_inv_def startIoThread_def reset_worker_def
        split: main_pc.split)
next
  case (IoThread i s)
  then show ?thesis using assms(2) io_inv_step[OF IoThread(3)] by (auto simp: process_inv_def io_inv_def elim!: io_stepE)
next
  case (Operation s)
  then show ?thesis using assms(2) io_inv_step[OF Operation(3)] by (auto simp: process_inv_def elim!: io_stepE)
qed

lemma process_inv_run: "process_run A M pad p es q \<Longrightarrow> process_inv p \<Longrightarrow> process_inv q"
  by (induction rule: process_run.induct) (blast intro: process_inv_step)+

lemma process_signals:
  "process_run A M pad p es q \<Longrightarrow> signals (som_io q) = signals (som_io p) + count_list es (Io Signal)"
proof (induction rule: process_run.induct)
  case (Cons p e p1 es q)
  from Cons.hyps(1) have "signals (som_io p1) = signals (som_io p) + (if e = Io Signal then 1 else 0)"
    by (cases rule: process_stepE)
      (auto simp: main_step_io startIoThread_def reset_worker_def elim!: io_stepE split: main_pc.split)
  then show ?case using Cons.IH by simp
qed simp

lemma process_bodies:
  \<comment> \<open>once the service has stopped, only the iteration in progress is carried out\<close>
  "process_run A M pad p fs q \<Longrightarrow> process_inv p \<Longrightarrow> is_stopped (som_io p)
   \<Longrightarrow> count_list fs (Main AtBody) \<le> (if som_pc p = AtBody then 1 else 0)"
proof (induction rule: process_run.induct)
  case (Cons p e p1 fs q)
  from Cons.hyps(1) have "is_stopped (som_io p1) \<and> (if e = Main AtBody then som_pc p = AtBody \<and> som_pc p1 \<noteq> AtBody else som_pc p1 = AtBody \<longrightarrow> som_pc p = AtBody)"
  proof (cases rule: process_stepE)
    case Main
    then show ?thesis using Cons.prems(2)
      by (auto simp: main_step_io main_step_pc(3) startIoThread_def reset_worker_def split: main_pc.split)
  next
    case (IoThread i s)
    then show ?thesis using io_stopped_step[OF IoThread(3)] Cons.prems by (simp add: process_inv_def)
  next
    case (Operation s)
    then show ?thesis using io_stopped_step[OF Operation(3)] Cons.prems by (simp add: process_inv_def)
  qed
  then show ?case using Cons.IH process_inv_step[OF Cons.hyps(1) Cons.prems(1)] by (auto split: if_splits)
qed simp

lemma stopped_ends:
  assumes s: "is_stopped (som_io q)" "thread (som_io q) = Finished"
  shows "som_pc q = AtTest \<Longrightarrow> \<exists>r. ends A M pad q r" "som_pc q = AtRun \<Longrightarrow> \<exists>r. ends A M pad q r"
proof -
  have "ends A M pad (q\<lparr>som_pc := AtStop 0\<rparr>) (Inr 0)" by (rule ends_finishing(2)) (simp_all add: s)
  then show "som_pc q = AtTest \<Longrightarrow> \<exists>r. ends A M pad q r" using ends_looping(3)[OF _ s(1)] by blast
  show "\<exists>r. ends A M pad q r" if q: "som_pc q = AtRun"
  proof (cases "sendTelemetry M pad (som_object q) (som_queues q)")
    case (Inr w)
    have "ends A M pad (q\<lparr>som_pc := AtAssert, som_queues := w\<rparr>) (Inl Exited)"
      by (rule ends_looping(1)) (simp_all add: s)
    then show ?thesis using ends_starting(5)[OF q Inr] by blast
  qed (use ends_starting(4)[OF q] in blast)
qed

lemma main_thread_ends:
  \<comment> \<open>behind a stopped service the main thread runs to its end\<close>
  assumes s: "is_stopped (som_io p)" "thread (som_io p) = Finished" and "som_pc p \<noteq> AtStart"
  shows "\<exists>r. ends A M pad p r"
proof (cases "som_pc p")
  case AtHandshake
  show ?thesis
  proof (cases "handshakeMCU A (som_object p)")
    case (Inr x)
    then obtain ok som where x: "handshakeMCU A (som_object p) = Inr (ok, som)" by (cases x) simp
    let ?q = "p\<lparr>som_pc := if ok then AtRun else AtStop 1, som_object := som\<rparr>"
    have "\<not> ok \<Longrightarrow> ends A M pad ?q (Inr 1)" by (rule ends_finishing(2)) (simp_all add: s)
    moreover have "ok \<Longrightarrow> \<exists>r. ends A M pad ?q r" by (rule stopped_ends(2)) (simp_all add: s)
    ultimately have "\<exists>r. ends A M pad ?q r" by blast
    then show ?thesis using ends_starting(3)[OF AtHandshake x] by blast
  qed (use ends_starting(2)[OF AtHandshake] in blast)
next
  case AtBody
  show ?thesis
  proof (cases "som_iteration A M pad (som_object p, som_queues p)")
    case (Inr x)
    then obtain som w where x: "som_iteration A M pad (som_object p, som_queues p) = Inr (som, w)" by (cases x) simp
    have "\<exists>r. ends A M pad (p\<lparr>som_pc := AtTest, som_object := som, som_queues := w\<rparr>) r" by (rule stopped_ends(1)) (simp_all add: s)
    then show ?thesis using ends_looping(6)[OF AtBody x] by blast
  qed (use ends_looping(5)[OF AtBody] in blast)
next
  case AtRun
  from stopped_ends(2)[OF s this] show ?thesis .
next
  case AtTest
  from stopped_ends(1)[OF s this] show ?thesis .
next
  case AtAssert
  from ends_looping(1)[OF this s(1)] show ?thesis by blast
next
  case AtStop
  from ends_finishing(2)[OF s(2) this] show ?thesis by blast
next
  case AtJoin
  from ends_finishing(1)[OF s(2) this] show ?thesis by blast
next
  case Ended
  from ends_here[OF this] show ?thesis by blast
qed (use assms(3) in blast)

lemma signal_ends:
  assumes "process_inv p" "signals (som_io p) \<noteq> 0"
  shows "\<exists>r. ends A M pad p r"
proof (cases "\<exists>r. som_pc p = Ended r")
  case False
  have w: "\<not> signal_wait (som_io p)" "\<not> work_guard (som_io p)" "io_inv (som_io p)"
    using assms by (auto simp: process_inv_def io_inv_def)
  have n: "som_pc p \<noteq> AtStart"
    using assms by (auto simp: process_inv_def io_inv_def)
  show ?thesis
  proof (cases "thread (som_io p) = Finished")
    case True
    then show ?thesis using main_thread_ends[of p A M pad] n w(3) by (simp add: io_inv_def)
  next
    case False
    then have r: "thread (som_io p) = Running" using n assms(1) by (cases "thread (som_io p)") (auto simp: process_inv_def)
    let ?s = "som_io p\<lparr>pending_ops := 0\<rparr>"
    have "io_run ?s [RunReturns] (?s\<lparr>thread := Finished, is_stopped := True\<rparr>)"
      using r w by (simp add: io_step_simps)
    from io_run_append[OF io_drain[OF r] this]
    have "process_run A M pad p (map Io (replicate (pending_ops (som_io p)) EndOp @ [RunReturns]))
        (p\<lparr>som_io := ?s\<lparr>thread := Finished, is_stopped := True\<rparr>\<rparr>)"
      by (rule process_run_io) (use \<open>\<not> (\<exists>r. som_pc p = Ended r)\<close> in auto)
    moreover obtain x where "ends A M pad (p\<lparr>som_io := ?s\<lparr>thread := Finished, is_stopped := True\<rparr>\<rparr>) x"
      using main_thread_ends[of "p\<lparr>som_io := ?s\<lparr>thread := Finished, is_stopped := True\<rparr>\<rparr>" A M pad] n by auto
    ultimately show ?thesis unfolding ends_def by (blast intro: process_run_append)
  qed
qed (blast intro: ends_here)

end
