(* ===== verification/FlightSchedule.thy ===== *)
theory FlightSchedule
  imports Flight
begin

section \<open>Flights in any schedule\<close>

text \<open>
  Firmware and SoM run on their own: between two calls of \<^verbatim>\<open>loop\<close>, and while such a call waits for a command, the SoM may
  carry out any number of iterations of its main loop, none (while it sleeps in front of the loop) or several, and the line may
  bring the firmware any number of the commands that are on their way. A flight is a list of rounds, each with what happens
  before a call of \<^verbatim>\<open>loop\<close> and what happens between its sending and its reading (\<open>flight\<close>). The
  specification (\<open>spec_flight\<close>) is the same over whole packets: pairs of packets and commands in queues, the autopilot
  manager, and no bytes, buffers, ports or timeouts. The lemmas show that the one implements the other.
\<close>

subsection \<open>The flight\<close>

datatype line_event =
    Iteration      \<comment> \<open>of the SoM's main loop\<close>
  | Brings nat     \<comment> \<open>this many bytes, or commands, reach the firmware\<close>

fun line_events ::
  "'d asio \<Rightarrow> ('h, 'w) mq \<Rightarrow> byte \<Rightarrow> ('d \<Rightarrow> byte list) \<Rightarrow> line_event list
   \<Rightarrow> ('d, 'h) SomController \<times> 'w \<times> byte list \<times> byte list \<Rightarrow> (('d, 'h) SomController \<times> 'w \<times> byte list \<times> byte list) res" where
  \<comment> \<open>with the bytes that the firmware got but has not read yet, and those on their way to it\<close>
  "line_events A M pad tx [] s = Inr s"
| "line_events A M pad tx (Iteration # es) (som, w, got, wire) =
     res_bind (som_iteration A M pad (som, w)) (\<lambda>(som', w').
       line_events A M pad tx es (som', w', got, wire @ som_sent tx som som'))"
| "line_events A M pad tx (Brings n # es) (som, w, got, wire) =
     line_events A M pad tx es (som, w, got @ take n wire, drop n wire)"

fun flight ::
  "'d asio \<Rightarrow> ('h, 'w) mq \<Rightarrow> byte \<Rightarrow> (byte list \<Rightarrow> 'd \<Rightarrow> 'd) \<Rightarrow> ('d \<Rightarrow> byte list) \<Rightarrow> (line_event list \<times> mcu_in \<times> line_event list) list
   \<Rightarrow> Mcu \<times> ('d, 'h) SomController \<times> 'w \<times> byte list \<times> byte list
   \<Rightarrow> ((Mcu \<times> ('d, 'h) SomController \<times> 'w \<times> byte list \<times> byte list) \<times> (u8 \<times> int) list) res" where
  \<comment> \<open>what \<^verbatim>\<open>loop\<close> sends does not depend on what it reads later; it reads up to the four bytes of a command\<close>
  "flight A M pad arrive tx [] s = Inr (s, [])"
| "flight A M pad arrive tx ((before, inp, during) # rounds) (m, s) =
     res_bind (line_events A M pad tx before s) (\<lambda>(som1, w1, got1, wire1).
     res_bind (mcu_loop (inp\<lparr>in_serial := []\<rparr>) m) (\<lambda>(_, out).
     res_bind (line_events A M pad tx during (som_receives arrive (out_serial out) som1, w1, got1, wire1)) (\<lambda>(som2, w2, got2, wire2).
     res_bind (mcu_loop (inp\<lparr>in_serial := got2\<rparr>) m) (\<lambda>(m', out').
     res_bind (flight A M pad arrive tx rounds (m', som2, w2, drop 4 got2, wire2)) (\<lambda>(s', servos).
       Inr (s', out_analog out' @ servos))))))"

subsection \<open>The specification\<close>

type_synonym packet_flow =
  "AutopilotManager \<times> (RcRxPacket \<times> ImuPacket) list \<times> ControlSurfacePacket list \<times> ControlSurfacePacket list"

fun next_pair :: "(RcRxPacket \<times> ImuPacket) list \<Rightarrow> RcRxPacket \<times> ImuPacket" where
  \<comment> \<open>what an iteration works on: the oldest pair sent, or the default packets\<close>
  "next_pair [] = (default_RcRxPacket, default_ImuPacket)"
| "next_pair (p # ps) = p"

fun spec_events :: "AutopilotUtility \<Rightarrow> line_event list \<Rightarrow> packet_flow \<Rightarrow> packet_flow res" where
  "spec_events u [] s = Inr s"
| "spec_events u (Iteration # es) (am, ps, got, wire) =
     res_bind (AutopilotManager_trigger u am (fst (next_pair ps)) (snd (next_pair ps))) (\<lambda>(am', c).
       spec_events u es (am', tl ps, got, wire @ [c]))"
| "spec_events u (Brings k # es) (am, ps, got, wire) = spec_events u es (am, ps, got @ take k wire, drop k wire)"

fun followed :: "ControlSurfacePacket \<Rightarrow> ControlSurfacePacket list \<Rightarrow> ControlSurfacePacket" where
  \<comment> \<open>the oldest command that came, or the one followed so far\<close>
  "followed cur [] = cur"
| "followed cur (c # got) = c"

fun spec_flight ::
  "AutopilotUtility \<Rightarrow> (line_event list \<times> mcu_in \<times> line_event list) list \<Rightarrow> packet_flow \<Rightarrow> ControlSurfacePacket
   \<Rightarrow> (packet_flow \<times> ControlSurfacePacket list) res" where
  "spec_flight u [] s cur = Inr (s, [])"
| "spec_flight u ((before, inp, during) # rounds) s cur =
     res_bind (spec_events u before s) (\<lambda>(am1, ps1, got1, wire1).
     res_bind (spec_events u during (am1, ps1 @ [(sticks_of inp, in_mpu inp)], got1, wire1)) (\<lambda>(am2, ps2, got2, wire2).
     res_bind (spec_flight u rounds (am2, ps2, tl got2, wire2) (followed cur got2)) (\<lambda>(s', cs).
       Inr (s', followed cur got2 # cs))))"

subsection \<open>An iteration that finds nothing\<close>

definition asio_idle :: "'d asio \<Rightarrow> ('d \<Rightarrow> byte list) \<Rightarrow> ('d \<Rightarrow> bool) \<Rightarrow> bool" where
  \<comment> \<open>a port of \<open>P\<close> on which a read times out, as nothing is to come, is a port of \<open>P\<close> after the read was cancelled\<close>
  "asio_idle A rx P \<longleftrightarrow> (\<forall>n t d c bs d'. P d \<longrightarrow> rx d = [] \<longrightarrow> 0 < n \<longrightarrow> asio_read A n t d = (c, bs, d') \<longrightarrow> P (asio_cancel A d'))"

lemma readPacket_idle:
  assumes A: "asio_ok A rx tx" "asio_idle A rx P" and s: "in_step rx P sc [] []" and n: "0 < sz"
  shows "\<exists>r sc'. readPacket A sz dec dflt sc = (r, sc') \<and> didTimeout r \<and> in_step rx P sc' [] []
    \<and> tx (m_serialPort sc') = tx (m_serialPort sc)"
proof -
  obtain c bs d where r: "asio_read A sz (unat (c_readTimeoutMs sc)) (m_serialPort sc) = (c, bs, d)"
    using prod_cases3 by blast
  have b: "m_streamBuffer sc = []" "rx (m_serialPort sc) = []" "P (m_serialPort sc)"
    using s by (auto simp: in_step_def stream_def)
  note f = asio_readD[OF A(1) r]
  then have "bs = []" "rx d = []" "\<forall>k. c \<noteq> Done k" using b(2) n by auto
  moreover have "P (asio_cancel A d)" using A(2) b(2,3) n r unfolding asio_idle_def by blast
  ultimately show ?thesis using r b f asio_cancelD[OF A(1), of d]
    by (cases c) (simp_all add: readPacket_def default_ReadResult_def in_step_def stream_def)
qed

lemma som_iteration_idle:
  assumes A: "asio_ok A rx tx" "asio_prompt A rx P" "asio_idle A rx P"
    and s: "in_step rx P (m_serialController som) [] []" and ready: "som_ready som"
  shows "\<exists>som' w' c. som_iteration A M pad (som, w) = Inr (som', w') \<and> som_ready som'
    \<and> AutopilotManager_trigger (m_autopilotUtility som) (m_autopilotManager som) default_RcRxPacket default_ImuPacket
        = Inr (m_autopilotManager som', c)
    \<and> m_autopilotUtility som' = m_autopilotUtility som \<and> in_step rx P (m_serialController som') [] []
    \<and> tx (m_serialPort (m_serialController som')) = tx (m_serialPort (m_serialController som)) @ enc_ControlSurfacePacket c"
proof -
  obtain r1 sc1 where 1: "readPacket A 9 dec_RcRxPacket default_RcRxPacket (m_serialController som) = (r1, sc1)"
    "didTimeout r1" "in_step rx P sc1 [] []" "tx (m_serialPort sc1) = tx (m_serialPort (m_serialController som))"
    using readPacket_idle[OF A(1,3) s, of 9 dec_RcRxPacket default_RcRxPacket] by auto
  obtain r2 sc2 where 2: "readPacket A 28 dec_ImuPacket default_ImuPacket sc1 = (r2, sc2)"
    "didTimeout r2" "in_step rx P sc2 [] []" "tx (m_serialPort sc2) = tx (m_serialPort sc1)"
    using readPacket_idle[OF A(1,3) 1(3), of 28 dec_ImuPacket default_ImuPacket] by auto
  have p: "packet r1 = default_RcRxPacket" "packet r2 = default_ImuPacket"
    using readPacket_cases(2)[OF A(1) 1(1,2)] readPacket_cases(2)[OF A(1) 2(1,2)] by (simp_all add: default_ReadResult_def)
  obtain som1 where s1: "som_read_rc A som = (default_RcRxPacket, som1)" "m_serialController som1 = sc1"
    using 1(1) p by (simp add: som_read_rc_def)
  obtain som2 where s2: "som_read_imu A som1 = (default_ImuPacket, som2)" "m_serialController som2 = sc2"
    using 2(1) p s1(2) by (simp add: som_read_imu_def)
  have "in_step rx P (m_serialController som2) [] []" using 2(3) s2(2) by simp
  moreover have "imu_sane default_ImuPacket" by code_simp
  ultimately show ?thesis
    using som_iteration_reads[OF A(1,2) s1(1) s2(1) _ ready, of "[]" "[]" M pad w] unfolding s2(2) 2(4) 1(4) by blast
qed

subsection \<open>Bytes and packets\<close>

fun flow_holds :: "('d \<Rightarrow> byte list) \<Rightarrow> ('d \<Rightarrow> bool) \<Rightarrow> AutopilotUtility \<Rightarrow> ('d, 'h) SomController \<Rightarrow> packet_flow \<Rightarrow> bool" where
  "flow_holds rx P u som (am, ps, got, wire) \<longleftrightarrow> som_ready som \<and> m_autopilotUtility som = u \<and> m_autopilotManager som = am
     \<and> in_step rx P (m_serialController som) (packets_bytes ps) []
     \<and> (\<forall>(r, i) \<in> set ps. sticks_ok r \<and> imu_sane i) \<and> (\<forall>c \<in> set (got @ wire). in_envelope u c)"

fun in_bytes :: "line_event \<Rightarrow> line_event" where
  "in_bytes Iteration = Iteration"
| "in_bytes (Brings k) = Brings (4 * k)"

definition round_in_bytes :: "line_event list \<times> mcu_in \<times> line_event list \<Rightarrow> line_event list \<times> mcu_in \<times> line_event list" where
  "round_in_bytes = (\<lambda>(before, inp, during). (map in_bytes before, inp, map in_bytes during))"

lemma free_iteration:
  assumes A: "asio_ok A rx tx" "asio_prompt A rx P" "asio_idle A rx P"
    and h: "flow_holds rx P u som (am, ps, got, wire)"
  obtains som' w' am' c where "som_iteration A M pad (som, w) = Inr (som', w')"
    and "AutopilotManager_trigger u am (fst (next_pair ps)) (snd (next_pair ps)) = Inr (am', c)"
    and "som_sent tx som som' = enc_ControlSurfacePacket c" "flow_holds rx P u som' (am', tl ps, got, wire @ [c])"
proof -
  let ?r = "fst (next_pair ps)" and ?i = "snd (next_pair ps)"
  have s: "in_step rx P (m_serialController som) (packets_bytes ps) []" "som_ready som" using h by auto
  have ok: "sticks_ok ?r" "imu_sane ?i"
    using h by (cases ps; auto simp: sticks_ok_def stick_ok_def default_RcRxPacket_def; code_simp)+
  have "\<exists>som' w' c. som_iteration A M pad (som, w) = Inr (som', w') \<and> som_ready som'
    \<and> AutopilotManager_trigger (m_autopilotUtility som) (m_autopilotManager som) ?r ?i = Inr (m_autopilotManager som', c)
    \<and> m_autopilotUtility som' = m_autopilotUtility som \<and> in_step rx P (m_serialController som') (packets_bytes (tl ps)) []
    \<and> tx (m_serialPort (m_serialController som')) = tx (m_serialPort (m_serialController som)) @ enc_ControlSurfacePacket c"
  proof (cases ps)
    case Nil
    then show ?thesis using som_iteration_idle[OF A, of som M pad w] s by (simp add: packets_bytes_def)
  next
    case (Cons p ps')
    then have "in_step rx P (m_serialController som) (enc_RcRxPacket ?r @ enc_ImuPacket ?i @ packets_bytes ps') []"
      using s(1) by (simp add: packets_bytes_def case_prod_beta)
    from som_iteration_in_step[OF A(1,2) this s(2) ok(2), of M pad w] Cons show ?thesis by simp
  qed
  then obtain som' w' c where i: "som_iteration A M pad (som, w) = Inr (som', w')" "som_ready som'"
    "AutopilotManager_trigger u am ?r ?i = Inr (m_autopilotManager som', c)"
    "m_autopilotUtility som' = u" "in_step rx P (m_serialController som') (packets_bytes (tl ps)) []"
    "tx (m_serialPort (m_serialController som')) = tx (m_serialPort (m_serialController som)) @ enc_ControlSurfacePacket c"
    using h by auto
  have "limits_ok u" "manager_inv am" "attitude_ok ?i" using h s(2) ok(2) by (auto simp: som_ready_def imu_sane_def)
  from manager.envelope[OF this ok(1) i(3)] have "in_envelope u c" .
  moreover have "\<forall>(r, i) \<in> set (tl ps). sticks_ok r \<and> imu_sane i" using h by (cases ps) auto
  moreover have "som_sent tx som som' = enc_ControlSurfacePacket c" using i(6) by (simp add: som_sent_def som_port_def)
  ultimately show thesis using that[OF i(1,3)] i(2,4,5) h by auto
qed

lemma line_events_flow:
  assumes A: "asio_ok A rx tx" "asio_prompt A rx P" "asio_idle A rx P"
  shows "flow_holds rx P u som (am, ps, got, wire)
    \<Longrightarrow> \<exists>som' w' am' ps' got' wire'. line_events A M pad tx (map in_bytes es) (som, w, enc_commands got, enc_commands wire)
          = Inr (som', w', enc_commands got', enc_commands wire')
        \<and> spec_events u es (am, ps, got, wire) = Inr (am', ps', got', wire')
        \<and> flow_holds rx P u som' (am', ps', got', wire')"
proof (induction es arbitrary: som w am ps got wire)
  case Nil
  then show ?case by auto
next
  case (Cons e es)
  show ?case
  proof (cases e)
    case Iteration
    obtain som1 w1 am1 c where 1: "som_iteration A M pad (som, w) = Inr (som1, w1)"
      "AutopilotManager_trigger u am (fst (next_pair ps)) (snd (next_pair ps)) = Inr (am1, c)"
      "som_sent tx som som1 = enc_ControlSurfacePacket c" "flow_holds rx P u som1 (am1, tl ps, got, wire @ [c])"
      by (rule free_iteration[OF A Cons.prems])
    have "enc_commands wire @ som_sent tx som som1 = enc_commands (wire @ [c])" using 1(3) by simp
    with Cons.IH[OF 1(4), of w1] 1(1,2) show ?thesis by (simp add: Iteration del: flow_holds.simps)
  next
    case (Brings k)
    have "set (got @ take k wire) \<union> set (drop k wire) = set (got @ wire)"
      by (metis append_take_drop_id append.assoc set_append)
    then have "flow_holds rx P u som (am, ps, got @ take k wire, drop k wire)" using Cons.prems by auto
    from Cons.IH[OF this, of w] show ?thesis by (simp add: Brings enc_commands_take_drop del: flow_holds.simps)
  qed
qed

lemma flow_arrives:
  assumes "arrive_ok rx tx P arrive" "flow_holds rx P u som (am, ps, got, wire)" "sticks_ok r" "imu_sane i"
  shows "flow_holds rx P u (som_receives arrive (enc_RcRxPacket r @ enc_ImuPacket i) som) (am, ps @ [(r, i)], got, wire)"
  using assms by (auto simp: arrive_ok_def in_step_def stream_def som_receives_def som_ready_def packets_bytes_def)

subsection \<open>A round\<close>

lemma loop_sends:
  assumes "pulses_ok inp"
  obtains m1 out where "mcu_loop (inp\<lparr>in_serial := []\<rparr>) m = Inr (m1, out)"
    and "out_serial out = enc_RcRxPacket (sticks_of inp) @ enc_ImuPacket (in_mpu inp)"
  by (auto simp: mcu_loop_def sticks_of_ok[OF assms] case_prod_beta)

lemma followed_case: "followed cur got = (case got of [] \<Rightarrow> cur | c # _ \<Rightarrow> c)"
  by (cases got) simp_all

lemma flight_round:
  assumes A: "asio_ok A rx tx" "asio_prompt A rx P" "asio_idle A rx P" "arrive_ok rx tx P arrive"
    and h: "flow_holds rx P u som (am, ps, got, wire)" and i: "pulses_ok inp" "imu_sane (in_mpu inp)"
    and e: "in_envelope u (mcu_csPacket m)"
  obtains m' som' w' am' ps' got' wire' c where "mcu_csPacket m' = c" "in_envelope u c"
    and "flow_holds rx P u som' (am', ps', got', wire')"
    and "\<And>rounds s servos. flight A M pad arrive tx rounds (m', som', w', enc_commands got', enc_commands wire') = Inr (s, servos)
      \<Longrightarrow> flight A M pad arrive tx (round_in_bytes (before, inp, during) # rounds) (m, som, w, enc_commands got, enc_commands wire)
        = Inr (s, servo_of c # servos)"
    and "\<And>rounds s cs. spec_flight u rounds (am', ps', got', wire') c = Inr (s, cs)
      \<Longrightarrow> spec_flight u ((before, inp, during) # rounds) (am, ps, got, wire) (mcu_csPacket m) = Inr (s, c # cs)"
proof -
  obtain som1 w1 am1 ps1 got1 wire1 where
    1: "line_events A M pad tx (map in_bytes before) (som, w, enc_commands got, enc_commands wire)
        = Inr (som1, w1, enc_commands got1, enc_commands wire1)"
      "spec_events u before (am, ps, got, wire) = Inr (am1, ps1, got1, wire1)" "flow_holds rx P u som1 (am1, ps1, got1, wire1)"
    using line_events_flow[OF A(1-3) h, of M pad before w] by blast
  obtain m1 out where l: "mcu_loop (inp\<lparr>in_serial := []\<rparr>) m = Inr (m1, out)"
    "out_serial out = enc_RcRxPacket (sticks_of inp) @ enc_ImuPacket (in_mpu inp)" by (rule loop_sends[OF i(1)])
  obtain som2 w2 am2 ps2 got2 wire2 where
    2: "line_events A M pad tx (map in_bytes during)
          (som_receives arrive (out_serial out) som1, w1, enc_commands got1, enc_commands wire1)
        = Inr (som2, w2, enc_commands got2, enc_commands wire2)"
      "spec_events u during (am1, ps1 @ [(sticks_of inp, in_mpu inp)], got1, wire1) = Inr (am2, ps2, got2, wire2)"
      "flow_holds rx P u som2 (am2, ps2, got2, wire2)"
    using line_events_flow[OF A(1-3) flow_arrives[OF A(4) 1(3) sticks_of_ok(2)[OF i(1)] i(2)], of M pad during w1]
    unfolding l(2) by blast
  define c where "c = followed (mcu_csPacket m) got2"
  obtain m' out' where f: "mcu_loop (inp\<lparr>in_serial := enc_commands got2\<rparr>) m = Inr (m', out')" "mcu_csPacket m' = c"
    "out_analog out' = [servo_of c]"
    using firmware_hears[OF i(1), of got2 m] unfolding c_def followed_case by blast
  have "in_envelope u c" using 2(3) e by (cases got2) (auto simp: c_def)
  moreover have "flow_holds rx P u som2 (am2, ps2, tl got2, wire2)" using 2(3) by (cases got2) auto
  moreover have "drop 4 (enc_commands got2) = enc_commands (tl got2)"
    using enc_commands_take_drop(2)[of 1 got2] by (simp add: drop_Suc)
  ultimately show thesis
    using that[of m' c som2 am2 "ps2" "tl got2" wire2 w2] f(2)
      1(1,2) l(1) 2(1,2) f(1,3) by (simp add: round_in_bytes_def c_def)
qed

lemma flight_flow:
  assumes A: "asio_ok A rx tx" "asio_prompt A rx P" "asio_idle A rx P" "arrive_ok rx tx P arrive"
  shows "\<forall>(before, inp, during) \<in> set rounds. pulses_ok inp \<and> imu_sane (in_mpu inp)
    \<Longrightarrow> flow_holds rx P u som (am, ps, got, wire) \<Longrightarrow> in_envelope u (mcu_csPacket m)
    \<Longrightarrow> \<exists>m' som' w' am' ps' got' wire' cs.
        flight A M pad arrive tx (map round_in_bytes rounds) (m, som, w, enc_commands got, enc_commands wire)
          = Inr ((m', som', w', enc_commands got', enc_commands wire'), map servo_of cs)
        \<and> spec_flight u rounds (am, ps, got, wire) (mcu_csPacket m) = Inr ((am', ps', got', wire'), cs)
        \<and> flow_holds rx P u som' (am', ps', got', wire') \<and> length cs = length rounds \<and> (\<forall>c \<in> set cs. in_envelope u c)"
proof (induction rounds arbitrary: m som w am ps got wire)
  case Nil
  then show ?case by auto
next
  case (Cons x rounds)
  obtain before inp during where x: "x = (before, inp, during)" by (rule prod_cases3)
  then have i: "pulses_ok inp" "imu_sane (in_mpu inp)" using Cons.prems(1) by auto
  show ?case
  proof (rule flight_round[OF A Cons.prems(2) i Cons.prems(3), where M = M and pad = pad and w = w and before = before and during = during])
    fix m1 som1 w1 am1 ps1 got1 wire1 c
    assume 1: "mcu_csPacket m1 = c" "in_envelope u c" "flow_holds rx P u som1 (am1, ps1, got1, wire1)"
      and fl: "\<And>rounds s servos. flight A M pad arrive tx rounds (m1, som1, w1, enc_commands got1, enc_commands wire1) = Inr (s, servos)
        \<Longrightarrow> flight A M pad arrive tx (round_in_bytes (before, inp, during) # rounds) (m, som, w, enc_commands got, enc_commands wire)
          = Inr (s, servo_of c # servos)"
      and sp: "\<And>rounds s cs. spec_flight u rounds (am1, ps1, got1, wire1) c = Inr (s, cs)
        \<Longrightarrow> spec_flight u ((before, inp, during) # rounds) (am, ps, got, wire) (mcu_csPacket m) = Inr (s, c # cs)"
    obtain m' som' w' am' ps' got' wire' cs where
      2: "flight A M pad arrive tx (map round_in_bytes rounds) (m1, som1, w1, enc_commands got1, enc_commands wire1)
          = Inr ((m', som', w', enc_commands got', enc_commands wire'), map servo_of cs)"
        "spec_flight u rounds (am1, ps1, got1, wire1) c = Inr ((am', ps', got', wire'), cs)"
      and 3: "flow_holds rx P u som' (am', ps', got', wire')" "length cs = length rounds" "\<forall>c \<in> set cs. in_envelope u c"
      using Cons.IH[OF _ 1(3), of m1 w1] Cons.prems(1) 1(1,2) by (auto simp del: flow_holds.simps flight.simps spec_flight.simps)
    have "flight A M pad arrive tx (map round_in_bytes (x # rounds)) (m, som, w, enc_commands got, enc_commands wire)
        = Inr ((m', som', w', enc_commands got', enc_commands wire'), map servo_of (c # cs))"
      unfolding x list.map by (rule fl[OF 2(1)])
    moreover have "spec_flight u (x # rounds) (am, ps, got, wire) (mcu_csPacket m) = Inr ((am', ps', got', wire'), c # cs)"
      unfolding x by (rule sp[OF 2(2)])
    moreover have "length (c # cs) = length (x # rounds)" "\<forall>c \<in> set (c # cs). in_envelope u c" using 3(2,3) 1(2) by simp_all
    ultimately show ?thesis using 3(1) by blast
  qed
qed

subsection \<open>What a flight is behind\<close>

fun behind :: "packet_flow \<Rightarrow> nat" where
  \<comment> \<open>pairs of packets and commands that were sent and not read yet\<close>
  "behind (am, ps, got, wire) = length ps + length got + length wire"

lemma spec_events_behind: "spec_events u es s = Inr s' \<Longrightarrow> behind s \<le> behind s'"
proof (induction u es s rule: spec_events.induct)
  case (2 u es am ps got wire)
  from 2(2) obtain am' c where t: "AutopilotManager_trigger u am (fst (next_pair ps)) (snd (next_pair ps)) = Inr (am', c)"
    "spec_events u es (am', tl ps, got, wire @ [c]) = Inr s'" by (auto simp: res_simps)
  from 2(1)[OF t(1) refl t(2)] show ?case by (cases ps) simp_all
qed simp_all

lemma spec_flightE:
  assumes "spec_flight u ((before, inp, during) # rounds) s cur = Inr (s', cs)"
  obtains am1 ps1 got1 wire1 am2 ps2 got2 wire2 cs' where "spec_events u before s = Inr (am1, ps1, got1, wire1)"
    "spec_events u during (am1, ps1 @ [(sticks_of inp, in_mpu inp)], got1, wire1) = Inr (am2, ps2, got2, wire2)"
    "spec_flight u rounds (am2, ps2, tl got2, wire2) (followed cur got2) = Inr (s', cs')"
  using assms by (auto simp: res_simps)

lemma spec_flight_behind: "spec_flight u rounds s cur = Inr (s', cs) \<Longrightarrow> behind s \<le> behind s'"
proof (induction rounds arbitrary: s cur cs)
  case (Cons x rounds)
  obtain before inp during where x: "x = (before, inp, during)" by (rule prod_cases3)
  obtain am1 ps1 got1 wire1 am2 ps2 got2 wire2 cs' where 1: "spec_events u before s = Inr (am1, ps1, got1, wire1)"
    "spec_events u during (am1, ps1 @ [(sticks_of inp, in_mpu inp)], got1, wire1) = Inr (am2, ps2, got2, wire2)"
    "spec_flight u rounds (am2, ps2, tl got2, wire2) (followed cur got2) = Inr (s', cs')"
    using spec_flightE[OF Cons.prems[unfolded x]] by blast
  from spec_events_behind[OF 1(1)] spec_events_behind[OF 1(2)] Cons.IH[OF 1(3)] show ?case by simp
qed simp

lemma spec_events_asleep: "Iteration \<notin> set es \<Longrightarrow> spec_events u es (am, ps, [], []) = Inr (am, ps, [], [])"
proof (induction es)
  case (Cons e es)
  then show ?case by (cases e) simp_all
qed simp

lemma spec_flight_asleep:
  \<comment> \<open>as much as was sent before the SoM's first iteration is never made up for\<close>
  assumes "spec_flight u rounds (am, ps, [], []) cur = Inr (s', cs)" "j \<le> length rounds"
    and "\<forall>(before, inp, during) \<in> set (take j rounds). Iteration \<notin> set before \<union> set during"
  shows "length ps + j \<le> behind s'"
  using assms
proof (induction j arbitrary: rounds ps cur cs)
  case 0
  then show ?case using spec_flight_behind[OF 0(1)] by simp
next
  case (Suc j)
  obtain before inp during rs where x: "rounds = (before, inp, during) # rs"
    using Suc.prems(2) by (cases rounds) auto
  have "Iteration \<notin> set before" "Iteration \<notin> set during" using Suc.prems(3) by (auto simp: x)
  note sl = this[THEN spec_events_asleep]
  obtain cs' where "spec_flight u rs (am, ps @ [(sticks_of inp, in_mpu inp)], [], []) cur = Inr (s', cs')"
    using spec_flightE[OF Suc.prems(1)[unfolded x]] by (auto simp: sl)
  from Suc.IH[OF this] Suc.prems(2,3) show ?case by (simp add: x)
qed

end
