(* ===== verification/TornRounds.thy ===== *)
theory TornRounds
  imports TelemetryLink
begin

section \<open>Rounds that are torn\<close>

text \<open>
  What a reader that falls behind can get to see. A state of the link is described by the messages in the three queues, the two
  points of control, the rounds sent and the rounds read (\<open>link_at\<close>); \<open>leads\<close> says that any state of one description
  can go on to one of another. Each step of \<open>link_step\<close> is such a fact, once with room in the queue and once without, and
  the schedule that tears a round is a chain of them.
\<close>

subsection \<open>Descriptions of states\<close>

type_synonym link_view = "DebugMessage list \<times> AttitudeMessage list \<times> OnboardStateMessage list \<times> sender_pc \<times> reader_pc
  \<times> telemetry_round list \<times> telemetry_round list"

fun link_at :: "('h, 'w) telemetry \<Rightarrow> link_view \<Rightarrow> 'w link \<Rightarrow> bool" where
  "link_at c (ds, as, bs, sn, rd, sent, out) s \<longleftrightarrow>
     queues_are c (l_queues s) (map enc_DebugMessage ds) (map enc_AttitudeMessage as) (map (enc_OnboardStateMessage (t_pad c)) bs)
   \<and> l_sender s = sn \<and> l_reader s = rd \<and> l_sent s = sent \<and> l_out s = out"

definition leads :: "('h, 'w) telemetry \<Rightarrow> ('h, 'w) reader \<Rightarrow> link_view \<Rightarrow> link_view \<Rightarrow> bool" where
  "leads c step x y \<longleftrightarrow> (\<forall>s. link_at c x s \<longrightarrow> (\<exists>s'. link_runs c step s s' \<and> link_at c y s'))"

lemma leads_refl [simp]: "leads c step x x"
  by (auto simp: leads_def)

lemma leads_trans [trans]: "leads c step x y \<Longrightarrow> leads c step y z \<Longrightarrow> leads c step x z"
  unfolding leads_def by (meson rtranclp_trans)

lemma leadsI: "(\<And>s. link_at c x s \<Longrightarrow> \<exists>s'. link_step c step s s' \<and> link_at c y s') \<Longrightarrow> leads c step x y"
  unfolding leads_def by blast

definition queues_hold :: "nat \<Rightarrow> ('h, 'w) telemetry \<Rightarrow> bool" where
  \<comment> \<open>the three queues are created with the one configured number of messages\<close>
  "queues_hold n c \<longleftrightarrow> channel_capacity m_debugMessageQueue c = n \<and> channel_capacity m_attitudeMessageQueue c = n
     \<and> channel_capacity m_onboardMessageQueue c = n"

subsection \<open>The sender\<close>

lemma leads_debug:
  assumes v: "links_valid c" "queues_hold n c" and l: "loggable b"
  shows "leads c step (ds, as, bs, Idle, rd, sent, out)
    (if length ds < n then ds @ [d] else ds, as, bs, SendAttitude a b, rd, sent @ [(d, a, b)], out)"
proof (rule leadsI)
  fix s assume s: "link_at c (ds, as, bs, Idle, rd, sent, out) s"
  then have "queue_debug c (l_queues s) = map enc_DebugMessage ds" by (simp add: queues_are_def)
  then obtain w' where w: "sendDebugMessage (t_mq c) (t_tx c) d (l_queues s) = Inr (length ds < n, w')"
    using debug_channel.send_law[OF links_validD(1)[OF v(1)], of d "l_queues s"] v(2) by (auto simp: queues_hold_def)
  have "l_sender s = Idle" using s by simp
  note st = link_step.send_debug[OF this l w, of step a]
  show "\<exists>s'. link_step c step s s' \<and> link_at c
      (if length ds < n then ds @ [d] else ds, as, bs, SendAttitude a b, rd, sent @ [(d, a, b)], out) s'"
    by (rule exI, rule conjI[OF st]) (use s send_link(1)[OF v(1) w] in \<open>simp add: queues_are_def\<close>)
qed

lemma leads_attitude:
  assumes v: "links_valid c" "queues_hold n c"
  shows "leads c step (ds, as, bs, SendAttitude a b, rd, sent, out)
    (ds, if length as < n then as @ [a] else as, bs, SendOnboard b, rd, sent, out)"
proof (rule leadsI)
  fix s assume s: "link_at c (ds, as, bs, SendAttitude a b, rd, sent, out) s"
  then have "queue_attitude c (l_queues s) = map enc_AttitudeMessage as" by (simp add: queues_are_def)
  then obtain w' where w: "sendAttitudeMessage (t_mq c) (t_tx c) a (l_queues s) = Inr (length as < n, w')"
    using attitude_channel.send_law[OF links_validD(2)[OF v(1)], of a "l_queues s"] v(2) by (auto simp: queues_hold_def)
  have "l_sender s = SendAttitude a b" using s by simp
  note st = link_step.send_attitude[OF this w, of step]
  show "\<exists>s'. link_step c step s s' \<and> link_at c
      (ds, if length as < n then as @ [a] else as, bs, SendOnboard b, rd, sent, out) s'"
    by (rule exI, rule conjI[OF st]) (use s send_link(2)[OF v(1) w] in \<open>simp add: queues_are_def\<close>)
qed

lemma leads_onboard:
  assumes v: "links_valid c" "queues_hold n c"
  shows "leads c step (ds, as, bs, SendOnboard b, rd, sent, out)
    (ds, as, if length bs < n then bs @ [b] else bs, Idle, rd, sent, out)"
proof (rule leadsI)
  fix s assume s: "link_at c (ds, as, bs, SendOnboard b, rd, sent, out) s"
  then have "queue_onboard c (l_queues s) = map (enc_OnboardStateMessage (t_pad c)) bs" by (simp add: queues_are_def)
  then obtain w' where w: "sendOnboardMessage (t_mq c) (t_pad c) (t_tx c) b (l_queues s) = Inr (length bs < n, w')"
    using onboard_channel.send_law[OF links_validD(3)[OF v(1)], of b "l_queues s"] v(2) by (auto simp: queues_hold_def)
  have "l_sender s = SendOnboard b" using s by simp
  note st = link_step.send_onboard[OF this w, of step]
  show "\<exists>s'. link_step c step s s' \<and> link_at c
      (ds, as, if length bs < n then bs @ [b] else bs, Idle, rd, sent, out) s'"
    by (rule exI, rule conjI[OF st]) (use s send_link(3)[OF v(1) w] in \<open>simp add: queues_are_def\<close>)
qed

abbreviation view_of :: "telemetry_round list \<Rightarrow> sender_pc \<Rightarrow> reader_pc \<Rightarrow> telemetry_round list \<Rightarrow> telemetry_round list \<Rightarrow> link_view"
  where \<comment> \<open>whole rounds are queued\<close>
  "view_of rs sn rd sent out \<equiv> (map debug_of rs, map attitude_of rs, map onboard_of rs, sn, rd, sent, out)"

lemma leads_publish:
  assumes v: "links_valid c" "queues_hold n c"
  shows "list_all loggable (map onboard_of rs) \<Longrightarrow> length (qs @ rs) \<le> n
    \<Longrightarrow> leads c step (view_of qs Idle rd sent out) (view_of (qs @ rs) Idle rd (sent @ rs) out)"
proof (induction rs arbitrary: qs sent)
  case (Cons r rs)
  obtain d a b where r: "r = (d, a, b)" by (rule prod_cases3)
  then have l: "loggable b" "length qs < n" using Cons.prems by auto
  have "leads c step (view_of qs Idle rd sent out)
      (map debug_of (qs @ [r]), map attitude_of qs, map onboard_of qs, SendAttitude a b, rd, sent @ [r], out)"
    using leads_debug[OF v l(1), of step "map debug_of qs" "map attitude_of qs" "map onboard_of qs" rd sent out d a] l(2) r by simp
  also have "leads c step \<dots>
      (map debug_of (qs @ [r]), map attitude_of (qs @ [r]), map onboard_of qs, SendOnboard b, rd, sent @ [r], out)"
    using leads_attitude[OF v, of step _ "map attitude_of qs" _ a b] l(2) r by simp
  also have "leads c step \<dots> (view_of (qs @ [r]) Idle rd (sent @ [r]) out)"
    using leads_onboard[OF v, of step _ _ "map onboard_of qs" b] l(2) r by simp
  also have "leads c step \<dots> (view_of (qs @ r # rs) Idle rd (sent @ r # rs) out)"
    using Cons.IH[of "qs @ [r]" "sent @ [r]"] Cons.prems by simp
  finally show ?case .
qed simp

subsection \<open>The readers\<close>

context telemetry_reader
begin

lemma leads_read:
  assumes v: "links_valid c"
  shows "leads c step (d # ds, as, bs, sn, AtDebug q, sent, out) (ds, as, bs, sn, AtAttitude d default_AttitudeMessage, sent, out)"
    and "leads c step (ds, a # as, bs, sn, AtAttitude d q', sent, out) (ds, as, bs, sn, AtOnboard d a default_OnboardStateMessage, sent, out)"
    and "loggable b \<Longrightarrow> leads c step (ds, as, b # bs, sn, AtOnboard d a q'', sent, out)
      (ds, as, bs, sn, AtDebug default_DebugMessage, sent, out @ [(d, a, b)])"
proof -
  have rd: "\<exists>s'. link_step c step s s' \<and> link_at c (ds', as', bs', sn, rd', sent, out @ out') s'"
    if "step c (l_reader s) (l_queues s) = Some (Inr (rd', out', w'))" "link_at c (ds, as, bs, sn, rd, sent, out) s"
      "queues_are c w' (map enc_DebugMessage ds') (map enc_AttitudeMessage as') (map (enc_OnboardStateMessage (t_pad c)) bs')"
    for ds as bs ds' as' bs' rd rd' out' w' s
    by (rule exI, rule conjI[OF link_step.read[of step c s, OF that(1)]]) (use that in simp)
  show "leads c step (d # ds, as, bs, sn, AtDebug q, sent, out) (ds, as, bs, sn, AtAttitude d default_AttitudeMessage, sent, out)"
  proof (rule leadsI)
    fix s assume s: "link_at c (d # ds, as, bs, sn, AtDebug q, sent, out) s"
    then show "\<exists>s'. link_step c step s s' \<and> link_at c (ds, as, bs, sn, AtAttitude d default_AttitudeMessage, sent, out) s'"
      using debug_law[OF v, of "l_queues s" d "map enc_DebugMessage ds" q] rd[OF _ s, of _ "[]"] by (auto simp: queues_are_def)
  qed
  show "leads c step (ds, a # as, bs, sn, AtAttitude d q', sent, out) (ds, as, bs, sn, AtOnboard d a default_OnboardStateMessage, sent, out)"
  proof (rule leadsI)
    fix s assume s: "link_at c (ds, a # as, bs, sn, AtAttitude d q', sent, out) s"
    then show "\<exists>s'. link_step c step s s' \<and> link_at c (ds, as, bs, sn, AtOnboard d a default_OnboardStateMessage, sent, out) s'"
      using attitude_law[OF v, of "l_queues s" a "map enc_AttitudeMessage as" d q'] rd[OF _ s, of _ "[]"] by (auto simp: queues_are_def)
  qed
  show "leads c step (ds, as, b # bs, sn, AtOnboard d a q'', sent, out)
      (ds, as, bs, sn, AtDebug default_DebugMessage, sent, out @ [(d, a, b)])" if l: "loggable b"
  proof (rule leadsI)
    fix s assume s: "link_at c (ds, as, b # bs, sn, AtOnboard d a q'', sent, out) s"
    then show "\<exists>s'. link_step c step s s' \<and> link_at c (ds, as, bs, sn, AtDebug default_DebugMessage, sent, out @ [(d, a, b)]) s'"
      using onboard_law[OF v _ l, of "l_queues s" "map (enc_OnboardStateMessage (t_pad c)) bs" d a q''] rd[OF _ s, of _ "[(d, a, b)]"]
      by (auto simp: queues_are_def)
  qed
qed

lemma leads_round:
  assumes v: "links_valid c" and l: "loggable b"
  shows "leads c step (d # ds, a # as, b # bs, sn, AtDebug q, sent, out)
    (ds, as, bs, sn, AtDebug default_DebugMessage, sent, out @ [(d, a, b)])"
  by (rule leads_trans[OF leads_read(1)[OF v] leads_trans[OF leads_read(2)[OF v] leads_read(3)[OF v l]]])

lemma leads_rounds:
  assumes v: "links_valid c"
  shows "list_all loggable (map onboard_of rs) \<Longrightarrow> leads c step
      (map debug_of rs @ ds, map attitude_of rs @ as, map onboard_of rs @ bs, sn, AtDebug default_DebugMessage, sent, out)
      (ds, as, bs, sn, AtDebug default_DebugMessage, sent, out @ rs)"
proof (induction rs arbitrary: out)
  case (Cons r rs)
  have l: "loggable (onboard_of r)" "list_all loggable (map onboard_of rs)" using Cons.prems by auto
  let ?x = "(map debug_of rs @ ds, map attitude_of rs @ as, map onboard_of rs @ bs, sn, AtDebug default_DebugMessage, sent, out @ [r])"
  have "leads c step (debug_of r # map debug_of rs @ ds, attitude_of r # map attitude_of rs @ as,
      onboard_of r # map onboard_of rs @ bs, sn, AtDebug default_DebugMessage, sent, out) ?x"
    using leads_round[OF v l(1), of "debug_of r" _ "attitude_of r"] by simp
  from leads_trans[OF this Cons.IH[OF l(2)]] show ?case by simp
qed simp

subsection \<open>The schedule\<close>

lemma leads_torn:
  \<comment> \<open>one queue full, one message read, the next queue not full any more\<close>
  assumes v: "links_valid c" "queues_hold (Suc (length ms)) c"
    and l: "list_all loggable (map onboard_of (r # ms @ [(d, a, b), (d', a', b')]))"
  shows "leads c step (view_of [] Idle (AtDebug q) sent out)
    (view_of [] Idle (AtDebug default_DebugMessage) (sent @ r # ms @ [(d, a, b), (d', a', b')]) (out @ r # ms @ [(d', a, b')]))"
proof -
  have ls: "list_all loggable (map onboard_of (r # ms))" "loggable (onboard_of r)" "list_all loggable (map onboard_of ms)"
    "loggable b" "loggable b'" using l by auto
  let ?D = "map debug_of ms" and ?A = "map attitude_of ms" and ?B = "map onboard_of ms"
  let ?s = "(sent @ r # ms) @ [(d, a, b)]"
  have "leads c step (view_of [] Idle (AtDebug q) sent out) (view_of (r # ms) Idle (AtDebug q) (sent @ r # ms) out)"
    using leads_publish[OF v ls(1), of "[]" step "AtDebug q" sent out] by simp
  also have "leads c step \<dots> (view_of (r # ms) (SendAttitude a b) (AtDebug q) ?s out)"
    using leads_debug[OF v ls(4), of step "map debug_of (r # ms)" "map attitude_of (r # ms)" "map onboard_of (r # ms)"
        "AtDebug q" "sent @ r # ms" out d a] by simp
  also have "leads c step \<dots> (?D, ?A, map onboard_of (r # ms), SendAttitude a b,
      AtOnboard (debug_of r) (attitude_of r) default_OnboardStateMessage, ?s, out)"
    using leads_trans[OF leads_read(1,2)[OF v(1)]] by simp
  also have "leads c step \<dots> (?D, ?A @ [a], map onboard_of (r # ms), SendOnboard b,
      AtOnboard (debug_of r) (attitude_of r) default_OnboardStateMessage, ?s, out)"
    using leads_attitude[OF v, of step _ ?A _ a b] by simp
  also have "leads c step \<dots> (?D, ?A @ [a], map onboard_of (r # ms), Idle,
      AtOnboard (debug_of r) (attitude_of r) default_OnboardStateMessage, ?s, out)"
    using leads_onboard[OF v, of step _ _ "map onboard_of (r # ms)" b] by simp
  also have "leads c step \<dots> (?D, ?A @ [a], ?B, Idle, AtDebug default_DebugMessage, ?s, out @ [r])"
    using leads_read(3)[OF v(1) ls(2), of _ _ ?B _ "debug_of r" "attitude_of r"] by simp
  also have "leads c step \<dots> (?D @ [d'], ?A @ [a], ?B, SendAttitude a' b', AtDebug default_DebugMessage, ?s @ [(d', a', b')], out @ [r])"
    using leads_debug[OF v ls(5), of step ?D "?A @ [a]" ?B _ ?s "out @ [r]" d' a'] by simp
  also have "leads c step \<dots> (?D @ [d'], ?A @ [a], ?B, SendOnboard b', AtDebug default_DebugMessage, ?s @ [(d', a', b')], out @ [r])"
    using leads_attitude[OF v, of step _ "?A @ [a]" _ a' b'] by simp
  also have "leads c step \<dots> (?D @ [d'], ?A @ [a], ?B @ [b'], Idle, AtDebug default_DebugMessage, ?s @ [(d', a', b')], out @ [r])"
    using leads_onboard[OF v, of step _ _ ?B b'] by simp
  also have "leads c step \<dots> ([d'], [a], [b'], Idle, AtDebug default_DebugMessage, ?s @ [(d', a', b')], (out @ [r]) @ ms)"
    by (rule leads_rounds[OF v(1) ls(3)])
  also have "leads c step \<dots> (view_of [] Idle (AtDebug default_DebugMessage) (?s @ [(d', a', b')]) (((out @ [r]) @ ms) @ [(d', a, b')]))"
    using leads_round[OF v(1) ls(5), of d' "[]" a "[]" "[]" Idle _ "?s @ [(d', a', b')]" "(out @ [r]) @ ms"] by simp
  finally show ?thesis by simp
qed

lemma caught_up:
  \<comment> \<open>without a loss the reader can be brought to where all queues are empty\<close>
  assumes v: "links_valid c" and i: "link_inv c s" "\<not> l_lost s" "l_sender s = Idle"
  obtains s' q where "link_runs c step s s'" "link_at c (view_of [] Idle (AtDebug q) (l_sent s) (l_sent s)) s'"
proof -
  obtain s' where s: "link_runs c step s s'" "l_out s' = l_sent s" "link_inv c s'" "\<not> l_lost s'" "l_sender s' = Idle"
    "l_sent s' = l_sent s" using catches_up[OF v i] by blast
  from s(3) obtain ds as bs where h: "link_holds c s' ds as bs" by (auto simp: link_inv_def)
  note l = link_lengths[OF h s(4,5), unfolded s(2,6)]
  obtain q where "l_reader s' = AtDebug q" using l(1) by (cases "l_reader s'") auto
  with h l s(2,5,6) have "link_at c (view_of [] Idle (AtDebug q) (l_sent s) (l_sent s)) s'"
    by (simp add: link_holds_def queues_are_def)
  with s(1) show ?thesis by (rule that)
qed

lemma torn:
  assumes v: "links_valid c" "queues_hold n c" "0 < n" and i: "link_inv c s" "\<not> l_lost s" "l_sender s = Idle"
    and rs: "length rs = n + 2" "list_all loggable (map onboard_of rs)"
  shows "\<exists>s'. link_runs c step s s' \<and> l_sent s' = l_sent s @ rs
    \<and> l_out s' = l_sent s @ take n rs @ [(debug_of (rs ! (n + 1)), attitude_of (rs ! n), onboard_of (rs ! (n + 1)))]"
proof -
  obtain m where n: "n = Suc m" using v(3) by (cases n) auto
  obtain r xs where 1: "rs = r # xs" "length xs = m + 2" using rs(1) n by (cases rs) auto
  obtain d a b d' a' b' where 2: "xs ! m = (d, a, b)" "xs ! Suc m = (d', a', b')" by (metis prod_cases3)
  have x: "xs = take m xs @ [(d, a, b), (d', a', b')]"
    using 1(2) 2 by (intro nth_equalityI) (auto simp: nth_append less_Suc_eq nth_Cons')
  have k: "length (take m xs) = m" using 1(2) by simp
  obtain s1 q where s1: "link_runs c step s s1" "link_at c (view_of [] Idle (AtDebug q) (l_sent s) (l_sent s)) s1"
    by (rule caught_up[OF v(1) i])
  have "queues_hold (Suc (length (take m xs))) c" using v(2) n k by simp
  moreover have "list_all loggable (map onboard_of (r # take m xs @ [(d, a, b), (d', a', b')]))"
    using rs(2) x 1(1) by metis
  ultimately obtain s' where s': "link_runs c step s1 s'" "l_sent s' = l_sent s @ r # take m xs @ [(d, a, b), (d', a', b')]"
    "l_out s' = l_sent s @ r # take m xs @ [(d', a, b')]"
    using leads_torn[OF v(1), of "take m xs" r d a b d' a' b' q "l_sent s" "l_sent s"] s1(2) by (fastforce simp: leads_def)
  show ?thesis
  proof (intro exI conjI)
    show "link_runs c step s s'" using s1(1) s'(1) by (rule rtranclp_trans)
    show "l_sent s' = l_sent s @ rs" unfolding s'(2) 1(1) using x by simp
    show "l_out s' = l_sent s @ take n rs @ [(debug_of (rs ! (n + 1)), attitude_of (rs ! n), onboard_of (rs ! (n + 1)))]"
      unfolding s'(3) n 1(1) using 2 by simp
  qed
qed

end

subsection \<open>Property\<close>

text \<open>
  C28 What full queues do to the rounds, on queues of any number \<open>n\<close> of messages: wherever sender and reader are after a
  run without losses (the sender between two rounds), and whatever the next \<open>n + 2\<close> rounds are, there is an interleaving in which
  these are published, the control station's thread, or the PC program, reads all the rounds up to the first \<open>n\<close> of them
  as they were sent, and then puts together the attitude of the round behind them with the rest of the one after that, since each
  of the three queues lost another message. If the debug messages differ, as their loop counters make them, and so do the two
  attitudes, this round was never published.
\<close>
theorem torn_round:
  fixes step :: "('h, 'w) reader"
  assumes "links_valid c" "queue_debug c w = []" "queue_attitude c w = []" "queue_onboard c w = []"
    and "step = telemetry_thread \<or> step = pc_program" "queues_hold n c" "0 < n"
    and "link_runs c step (link_begin w) s" "\<not> l_lost s" "l_sender s = Idle"
    and "length rs = n + 2" "list_all loggable (map onboard_of rs)"
    and "distinct (map debug_of (l_sent s @ rs))" "attitude_of (rs ! n) \<noteq> attitude_of (rs ! (n + 1))"
  shows "\<exists>s'. link_runs c step s s' \<and> l_sent s' = l_sent s @ rs
    \<and> l_out s' = l_sent s @ take n rs @ [(debug_of (rs ! (n + 1)), attitude_of (rs ! n), onboard_of (rs ! (n + 1)))]
    \<and> last (l_out s') \<notin> set (l_sent s')"
proof -
  have i: "link_inv c s"
    using assms(5,8) thread_reader.reachable_inv[OF assms(1-4), of s] pc_reader.reachable_inv[OF assms(1-4), of s] by auto
  let ?t = "(debug_of (rs ! (n + 1)), attitude_of (rs ! n), onboard_of (rs ! (n + 1)))"
  obtain s' where s': "link_runs c step s s'" "l_sent s' = l_sent s @ rs" "l_out s' = l_sent s @ take n rs @ [?t]"
    using assms(5) thread_reader.torn[OF assms(1,6,7) i assms(9-12)] pc_reader.torn[OF assms(1,6,7) i assms(9-12)] by blast
  have "rs ! (n + 1) \<in> set (l_sent s @ rs)" using assms(11) by simp
  moreover have "inj_on debug_of (set (l_sent s @ rs))" using assms(13) by (simp only: distinct_map)
  ultimately have "x = rs ! (n + 1)" if "x \<in> set (l_sent s @ rs)" "x = ?t" for x
    using inj_onD[of debug_of "set (l_sent s @ rs)" x "rs ! (n + 1)"] that by (metis fst_conv)
  then have "x \<noteq> ?t" if "x \<in> set (l_sent s @ rs)" for x using that assms(14) by (metis fst_conv snd_conv)
  then have "last (l_out s') \<notin> set (l_sent s')" unfolding s'(2,3) by fastforce
  with s' show ?thesis by blast
qed

theorem torn_round_witness:
  "\<exists>s. link_runs shm_single pc_program (link_begin shm_empty) s \<and> l_sent s = map numbered [1, 2, 3]
    \<and> l_out s = [numbered 1, (debug_of (numbered 3), attitude_of (numbered 2), onboard_of (numbered 3))]
    \<and> last (l_out s) \<notin> set (l_sent s)"
proof -
  have q: "queues_hold 1 shm_single"
    by (simp add: queues_hold_def channel_capacity_def shm_single_def shm_telemetry_def)
  have b: "l_sent (link_begin shm_empty) = []" "\<not> l_lost (link_begin shm_empty)" "l_sender (link_begin shm_empty) = Idle"
    by (simp_all add: link_begin_def)
  have "list_all loggable (map onboard_of (map numbered [1, 2, 3]))" by code_simp
  moreover have "distinct (map debug_of (map numbered [1, 2, 3]))" by code_simp
  moreover have "attitude_of (map numbered [1, 2, 3] ! 1) \<noteq> attitude_of (map numbered [1, 2, 3] ! (1 + 1))" by code_simp
  ultimately show ?thesis
    using torn_round[OF shm_links_valid(2) shm_links_empty(4-6) disjI2[OF refl] q zero_less_one rtranclp.rtrancl_refl b(2,3),
        of "map numbered [1, 2, 3]"] b(1) by simp
qed

end
