(* ===== verification/Spec2Isabelle.thy ===== *)
theory Spec2Isabelle
  imports AutopilotManager SomLoop Shipped Mcu IoService Flight TelemetryLink Horizon Schema FlushRace
    Symmetry PersistentBank Resync Waiting LateCommands SomProcess FlightSchedule TornRounds
begin

section \<open>rcplane: the flight controller of a remote-controlled plane\<close>

text \<open>
  \<^bold>\<open>The program.\<close> A microcontroller (MCU, \<^verbatim>\<open>impl/src/mcu/mcu.ino\<close>) reads the pulses of the pilot's receiver
  and an inertial unit and sends them as packets over a serial line to a single-board computer (SoM,
  \<^verbatim>\<open>impl/src/som\<close>). The SoM runs an autopilot over each pair of packets, sends the control surface command
  back and publishes telemetry on message queues, which a receiver on the same machine
  (\<^verbatim>\<open>impl/src/pc\<close>, \<^verbatim>\<open>control_station\<close>) reads. A JSON file configures the SoM.

  \<^bold>\<open>Theories and what they model\<close> (paths under \<^verbatim>\<open>impl/\<close>, headers under \<^verbatim>\<open>include/rcplane/\<close>):
    \<^item> \<open>Prelude\<close>: the fixed-width integers, the outcomes of a C++ call (\<open>fault\<close>; every exception,
      \<^verbatim>\<open>exit(1)\<close> and undefined conversion is a value), \<^verbatim>\<open>RCPLANE_ASSERT\<close>, C++ division.
    \<^item> \<open>Ieee754\<close>, \<open>Ieee754_Widen\<close>: binary32 and binary64 arithmetic on exact rationals with
      round-to-nearest-even, and the conversions between the formats and to integers.
    \<^item> \<open>Bytes\<close>: object representations; the interface \<open>codec\<close> of a type of fixed size.
    \<^item> \<open>Packet\<close>: \<^verbatim>\<open>common/Packet.hpp\<close>, \<^verbatim>\<open>common/State.hpp\<close>.
    \<^item> \<open>Config\<close>: \<^verbatim>\<open>io/ConfigManager\<close> and the JSON values it walks, and \<^verbatim>\<open>configs/config.json\<close> itself.
    \<^item> \<open>AutopilotUtility\<close>, \<open>Autopilot\<close> (the interface \<open>iautopilot\<close> and \<^verbatim>\<open>ManualAutopilot\<close>), \<open>Stabilize\<close>,
      \<open>Stabilize_Bounds\<close>, \<open>StabilizeSafety\<close>, \<open>Symmetry\<close>, \<open>RollAccuracy\<close>, \<open>PersistentBank\<close>, \<open>AutopilotManager\<close>: \<^verbatim>\<open>autopilot/\<close>, one theory
      per class, two on the bounds of the PID controllers, one on their symmetry, one that compares the roll controller with
      exact arithmetic and one on what its integral achieves under an error that stays.
    \<^item> \<open>SerialController\<close>: \<^verbatim>\<open>io/SerialController\<close> over a byte stream; \<open>SerialRace\<close>: its reads and writes in
      detail, the caller and the completion handler interleaved; \<open>FlushRace\<close>: the same for its flush and the
      write of the handshake behind it.
    \<^item> \<open>Show\<close>, \<open>Journal\<close>: the text of numbers as \<^verbatim>\<open>std::ostream\<close> prints them, and \<^verbatim>\<open>io/Journal.hpp\<close>.
    \<^item> \<open>TelemetryMessage\<close>, \<open>TelemetryMQ\<close>: \<^verbatim>\<open>io/telemetry/\<close>; the interface \<open>channel\<close> of a sender and
      a receiver of one message type.
    \<^item> \<open>TelemetryReaders\<close>: the two programs that read telemetry, \<^verbatim>\<open>pc/main.cpp\<close> and
      \<^verbatim>\<open>control_station/TelemetryThread.hpp\<close>; \<open>TelemetryLink\<close>: either of them interleaved with the SoM, as a
      step relation, and its invariant; \<open>TornRounds\<close>: what a reader that falls behind gets to see.
    \<^item> \<open>ControlStation\<close>, \<open>Horizon\<close>: \<^verbatim>\<open>control_station/\<close>, the window with its indicators, and the position of the
      artificial horizon over many messages.
    \<^item> \<open>SomController\<close>, \<open>SomLoop\<close>: \<^verbatim>\<open>som/SomController\<close>, \<^verbatim>\<open>som/main.cpp\<close>; \<open>IoService\<close>: the life cycle of its
      \<^verbatim>\<open>io_service\<close>, thread, work guard and signal wait as a step relation; \<open>SomProcess\<close>: \<^verbatim>\<open>main\<close> with
      its two threads interleaved, to the end of the process; \<open>Resync\<close>: where timeouts leave the stream; \<open>Waiting\<close>:
      how long loop and handshake can wait.
    \<^item> \<open>Mcu\<close>: \<^verbatim>\<open>mcu/mcu.ino\<close>. \<open>Flight\<close>: what firmware and SoM exchange over their line, and the power-up up to the main
      loop of the SoM; \<open>FlightSchedule\<close>: both running on their own, in any schedule, and the specification of this over whole
      packets; \<open>LateCommands\<close>: one iteration for each call of \<^verbatim>\<open>loop\<close>, over a line that brings the commands late.
    \<^item> \<open>Schema\<close>: which configurations the constructors accept. \<open>Shipped\<close>: the objects built from the
      shipped one.

  A class is a record with the members' names, a method a definition with the method's name that takes the
  object and returns it updated; a C++ fault is \<open>Inl\<close>. Names that clash carry a suffix or prefix.

  \<^bold>\<open>Interfaces.\<close> \<open>codec\<close> and \<open>packed_codec\<close> are interpreted by the four packets and the four messages;
  \<open>iautopilot\<close> by the manual autopilot, the stabilizing autopilot and the manager; \<open>channel\<close> by debug, attitude and
  onboard telemetry; \<open>telemetry_reader\<close> by the telemetry thread and the PC program. Their lemmas (a value survives the trip; a run of triggers stays safe; what is sent
  is received in order) are proved once inside the locale.

  \<^bold>\<open>Parameters.\<close> Code outside the repository is an argument of the definitions that use it, with its documented
  behaviour as a named hypothesis: the asynchronous operations of \<^verbatim>\<open>boost::asio\<close> (\<open>asio\<close>, \<open>asio_ok\<close>,
  \<open>asio_prompt\<close> and \<open>flush_prompt\<close> for a port that delivers in time, \<open>asio_idle\<close> for one that stays usable after a read
  that timed out, \<open>asio_timed\<close> for one with a clock), \<^verbatim>\<open>boost::interprocess::message_queue\<close> (\<open>mq\<close>, \<open>mq_ok\<close>),
  \<^verbatim>\<open>boost::split\<close> (\<open>split_ok\<close>), the file system and the JSON parser, the Arduino hardware (\<open>mcu_in\<close>), the
  serial line between the two computers (\<open>arrive_ok\<close>), the core of \<^verbatim>\<open>boost::log\<close> (\<open>core_ok\<close>), Qt's number
  formatting and \<^verbatim>\<open>moveBy\<close>, sine and cosine (\<open>station\<close>, \<open>move_ok\<close>, \<open>trig_ok\<close>).
  \<open>tty_asio\<close> and \<open>shm_mq\<close> are concrete ports and queues for which the hypotheses are proved.

  \<^bold>\<open>What the properties show.\<close> On a stream in step the main loop implements the autopilots over packets and every
  command stays within the configured limits; any iteration is defined whenever the IMU packet is sane; the
  stabilizing controllers treat both directions alike, the roll controller follows its formulas in exact arithmetic and answers a bank of
  at least a thousandth of a degree that persists with the full aileron; the period of the loop is bounded; a lost
  link gives the neutral command; from power-up on, whatever the schedule of firmware and SoM, the
  bytes between them amount to whole packets in queues; the handshake leaves the stream aligned; telemetry is first-in-first-out;
  a reader puts the published rounds together whatever the interleaving, until a queue overflows, and the window shows the last
  one; the counters balance; the loop ends exactly with the stop, and the
  process with its two threads as the functional model of it does, once the signal was handled. Others state where the code
  misbehaves: late packets are taken for others, and the stream is back in step only after as many of either kind, modulo 37, a late completion uses a promise that is gone, a
  command that arrives in two parts shifts all later ones, one that arrives late, or a sleep of the SoM at its start, delays the servo for good, undefined conversions in the firmware and in the
  pitch controller, wrap-around of the throttle, a zero integral gain, a shutdown without a signal, torn
  telemetry rounds, a horizon that is lost to one bad message, ground programs started too early.

  \<^bold>\<open>Bounds.\<close> \<open>attitude_ok\<close> asks for a roll angle within 180 and a pitch angle within 123 degrees (the code's
  own limit is the conversion of pitch error plus integral error, at most 4, to \<^verbatim>\<open>int8_t\<close>); the invariant of the roll
  controller bounds its integral error by 25000 and its derivative error by 9500, which are not tight.
  The accuracy of the roll controller counts \<open>2 ^ - 33\<close>, half a unit in the last place below \<open>2 ^ 20\<close>, per operation.
  The horizon theorem allows \<open>2 ^ 39\<close> messages, so that the accumulated error stays below one pixel, and asks that the two members
  without an initializer happen to hold numbers of at most 1024. The persistent bank is followed up to trigger \<open>2 ^ 32\<close>.
  No fuel is used: the loops of \<^verbatim>\<open>runMainLoop\<close> and of \<^verbatim>\<open>pc/main.cpp\<close> are partial functions, and that the first returns,
  and the second does not, is proved.

  \<^bold>\<open>Assumptions and limits.\<close> Both targets are little-endian, a \<^verbatim>\<open>double\<close> is binary64 on the SoM without
  contraction to fused operations, and binary32 on the AVR. A serial operation and its timeout are one step
  everywhere but in \<open>SerialRace\<close> and \<open>FlushRace\<close>, where every interleaving that ends without a fault is shown to have the outcome of such a step,
  or to be a packet that came just as the wait ended. A send or a receive on a queue is one step too. Where firmware and SoM run
  together, the pulses are those without undefined conversions (no stick left of its centre), the IMU readings are sane,
  a pair of packets and a command travel as a whole, and no pair comes inside an iteration that began without one; what
  happens otherwise is the subject of the properties on lost packets, split commands and undefined conversions.

  \<^bold>\<open>Not modelled.\<close> The records that the operations log: the texts and the sink are modelled on their own, and the one effect
  of logging on the control flow, that printing an onboard message can throw, is part of the receiver. Painting
  and the event loop of Qt, the pin and sensor set-up of the firmware, destructors that only free memory, and the tests.
\<close>

subsection \<open>Stream, handshake, telemetry and start\<close>

text \<open>
  C2 The main loop implements the autopilots over packet streams: on a port whose bytes are pairs of an RC and a sane IMU
  packet, arriving in time, \<^verbatim>\<open>runMainLoop\<close> runs one iteration per pair until it is stopped, and the bytes it
  writes are exactly the commands of the autopilot manager, triggered on one pair after the other from its
  initial state; the next packets are then at the head of the stream.
\<close>
theorem loop_serves_stream:
  assumes "asio_ok A rx tx" "asio_prompt A rx P"
    and "in_step rx P (m_serialController som) (packets_bytes ps) rest"
    and "som_ready som" "\<forall>(r, i) \<in> set ps. imu_sane i"
    and "\<forall>j \<le> length ps. \<not> stopped j" "stopped (Suc (length ps))"
  shows "\<exists>som' w' cs. runMainLoop A M pad stopped som w = Some (Inr (som', w')) \<and> som_ready som'
    \<and> run_triggers (\<lambda>m c r i. AutopilotManager_trigger (m_autopilotUtility som) m r i)
        (m_autopilotManager som) ps = Inr (m_autopilotManager som', cs)
    \<and> tx (m_serialPort (m_serialController som'))
        = tx (m_serialPort (m_serialController som)) @ concat (map enc_ControlSurfacePacket cs)
    \<and> stream rx (m_serialController som') = rest"
proof -
  obtain w1 where t: "sendTelemetry M pad som w = Inr w1"
    using sendTelemetry_defined[of som M pad w] assms(4) by (auto simp: som_ready_def)
  obtain som' w' cs where r: "repeat_res (length ps) (som_iteration A M pad) (som, w1) = Inr (som', w')"
    "som_ready som'"
    "run_triggers (\<lambda>m c r i. AutopilotManager_trigger (m_autopilotUtility som) m r i)
        (m_autopilotManager som) ps = Inr (m_autopilotManager som', cs)"
    "in_step rx P (m_serialController som') [] rest"
    "tx (m_serialPort (m_serialController som'))
        = tx (m_serialPort (m_serialController som)) @ concat (map enc_ControlSurfacePacket cs)"
    using som_iterations_in_step[OF assms(1-5), of M pad w1] by blast
  have "\<forall>j < length ps. \<not> stopped (1 + j)" "stopped (1 + length ps)" "\<not> stopped 0"
    using assms(6,7) by auto
  then have "runMainLoop A M pad stopped som w = Some (repeat_res (length ps) (som_iteration A M pad) (som, w1))"
    using main_loop_stops[of "length ps" stopped 1] by (simp add: runMainLoop_def t)
  with r show ?thesis by (auto simp: in_step_def)
qed

theorem loop_serves_stream_witness:
  "\<exists>som' w' cs. runMainLoop tty_asio shm_mq 0 (\<lambda>n. 2 < n)
      (demo_som (packets_bytes [(demo_rc, demo_imu), (default_RcRxPacket, demo_imu)] @ [])) demo_shm = Some (Inr (som', w'))
    \<and> tty_tx (m_serialPort (m_serialController som')) = concat (map enc_ControlSurfacePacket cs)"
proof -
  let ?ps = "[(demo_rc, demo_imu), (default_RcRxPacket, demo_imu)]"
  have "\<forall>(r, i) \<in> set ?ps. imu_sane i" using demo_packets_ok by simp
  from loop_serves_stream[OF tty_asio_ok tty_prompt demo_in_step[of "packets_bytes ?ps" "[]"] demo_som_ready this,
      where stopped = "\<lambda>n. 2 < n" and M = shm_mq and pad = 0 and w = demo_shm]
  show ?thesis by fastforce
qed

text \<open>
  C1 Flight safety: on such a stream, if the sticks are within their range, every command the loop writes to the MCU stays
  within the configured limits of throttle, aileron, elevator and rudder, for any number of iterations and any
  switching between the autopilots, and no iteration faults.
\<close>
theorem commands_stay_in_envelope:
  assumes "asio_ok A rx tx" "asio_prompt A rx P"
    and "in_step rx P (m_serialController som) (packets_bytes ps) rest"
    and "som_ready som" "\<forall>(r, i) \<in> set ps. imu_sane i \<and> sticks_ok r"
  shows "\<exists>som' w' cs. repeat_res (length ps) (som_iteration A M pad) (som, w) = Inr (som', w')
    \<and> tx (m_serialPort (m_serialController som'))
        = tx (m_serialPort (m_serialController som)) @ concat (map enc_ControlSurfacePacket cs)
    \<and> length cs = length ps \<and> (\<forall>c \<in> set cs. in_envelope (m_autopilotUtility som) c)"
proof -
  let ?u = "m_autopilotUtility som"
  have "\<forall>(r, i) \<in> set ps. imu_sane i" using assms(5) by auto
  from som_iterations_in_step[OF assms(1-4) this, of M pad w] obtain som' w' cs where
    r: "repeat_res (length ps) (som_iteration A M pad) (som, w) = Inr (som', w')"
      "run_triggers (\<lambda>m c r i. AutopilotManager_trigger ?u m r i) (m_autopilotManager som) ps
        = Inr (m_autopilotManager som', cs)"
      "tx (m_serialPort (m_serialController som'))
        = tx (m_serialPort (m_serialController som)) @ concat (map enc_ControlSurfacePacket cs)" by blast
  have "limits_ok ?u" "manager_inv (m_autopilotManager som)" "\<forall>(r, i) \<in> set ps. attitude_ok i \<and> sticks_ok r"
    using assms(4,5) by (auto simp: som_ready_def imu_sane_def)
  from manager.run_safe[OF this] r(2) have "length cs = length ps \<and> (\<forall>c \<in> set cs. in_envelope ?u c)" by auto
  with r show ?thesis by blast
qed

theorem commands_stay_in_envelope_witness:
  "\<exists>som' w' cs. repeat_res 2 (som_iteration tty_asio shm_mq 0)
      (demo_som (packets_bytes [(demo_rc, demo_imu), (demo_rc, default_ImuPacket)] @ []), demo_shm) = Inr (som', w')
    \<and> length cs = 2 \<and> (\<forall>c \<in> set cs. in_envelope shipped_utility c)
    \<and> tty_tx (m_serialPort (m_serialController som')) = concat (map enc_ControlSurfacePacket cs)"
proof -
  let ?ps = "[(demo_rc, demo_imu), (demo_rc, default_ImuPacket)]"
  have "\<forall>(r, i) \<in> set ?ps. imu_sane i \<and> sticks_ok r" using demo_packets_ok by simp
  from commands_stay_in_envelope[OF tty_asio_ok tty_prompt demo_in_step[of "packets_bytes ?ps" "[]"] demo_som_ready this,
      where M = shm_mq and pad = 0 and w = demo_shm]
  show ?thesis by (fastforce simp: numeral_2_eq_2)
qed

text \<open>
  Once around: the 37 bytes one call of the firmware's \<^verbatim>\<open>loop\<close> sends on nominal pulses, read by the SoM in
  one iteration, lead to a command within the limits, computed from the very sticks and IMU readings that were
  sent; and when its four bytes reach the firmware, the servo is set to its aileron deflection plus
  115, which is within the aileron limit of 115.
\<close>
lemma closed_loop_round:
  assumes "asio_ok A rx tx" "asio_prompt A rx P" "som_ready som"
    and "pulses_ok inp" "imu_sane (in_mpu inp)" "mcu_loop inp m = Inr (m', out)"
    and "in_step rx P (m_serialController som) (out_serial out) rest"
    and "pulses_ok inp'"
  shows "\<exists>som' w' c. som_iteration A M pad (som, w) = Inr (som', w')
    \<and> AutopilotManager_trigger (m_autopilotUtility som) (m_autopilotManager som)
        (mcu_rcRxSPacket m') (in_mpu inp) = Inr (m_autopilotManager som', c)
    \<and> tx (m_serialPort (m_serialController som'))
        = tx (m_serialPort (m_serialController som)) @ enc_ControlSurfacePacket c
    \<and> in_envelope (m_autopilotUtility som) c
    \<and> (in_serial inp' = enc_ControlSurfacePacket c \<longrightarrow>
         (\<exists>m'' out'. mcu_loop inp' m' = Inr (m'', out')
            \<and> out_analog out' = [(kELEVATOR_OUT, sint (aileronDeflection c) + 115)]
            \<and> \<bar>(sint (aileronDeflection c) + 115) - 115\<bar>
                \<le> sint (AutopilotUtility.c_maxAileronDeflection (m_autopilotUtility som))))"
proof -
  let ?u = "m_autopilotUtility som" and ?i = "in_mpu inp"
  obtain r where r: "mcu_read_sticks inp = Inr r" "sticks_ok r" using mcu_read_sticks_ok[OF assms(4)] by blast
  have o: "out_serial out = enc_RcRxPacket r @ enc_ImuPacket ?i" "mcu_rcRxSPacket m' = r"
    using assms(6) r(1) by (auto simp: mcu_loop_def split: prod.splits)
  then have "in_step rx P (m_serialController som) (enc_RcRxPacket r @ enc_ImuPacket ?i @ []) rest"
    using assms(7) by simp
  from som_iteration_in_step[OF assms(1,2) this assms(3,5), of M pad w] obtain som' w' c where
    s: "som_iteration A M pad (som, w) = Inr (som', w')"
      "AutopilotManager_trigger ?u (m_autopilotManager som) r ?i = Inr (m_autopilotManager som', c)"
      "tx (m_serialPort (m_serialController som'))
        = tx (m_serialPort (m_serialController som)) @ enc_ControlSurfacePacket c" by blast
  have "limits_ok ?u" "manager_inv (m_autopilotManager som)" "attitude_ok ?i"
    using assms(3,5) by (auto simp: som_ready_def imu_sane_def)
  from manager.envelope[OF this r(2) s(2)] have e: "in_envelope ?u c" .
  obtain r' where "mcu_read_sticks inp' = Inr r'" using mcu_read_sticks_ok[OF assms(8)] by blast
  then have "\<exists>m'' out'. mcu_loop inp' m' = Inr (m'', out')
      \<and> out_analog out' = [(kELEVATOR_OUT, sint (aileronDeflection c) + 115)]"
    if "in_serial inp' = enc_ControlSurfacePacket c"
    using that mcu_readPacket_full[of enc_ControlSurfacePacket c "mcu_csPacket m'" dec_ControlSurfacePacket]
      control.enc_length control.dec_enc by (simp add: mcu_loop_def)
  with s e o(2) show ?thesis by (auto simp: in_envelope_def)
qed

lemma closed_loop_round_witness:
  "\<exists>m' out som' w' c. mcu_loop \<lparr>in_pulse = (\<lambda>_. 1600), in_millis = 7, in_mpu = demo_imu, in_serial = []\<rparr> new_Mcu
      = Inr (m', out)
    \<and> som_iteration tty_asio shm_mq 0 (demo_som (out_serial out @ []), demo_shm) = Inr (som', w')
    \<and> in_envelope shipped_utility c
    \<and> tty_tx (m_serialPort (m_serialController som')) = enc_ControlSurfacePacket c"
proof -
  let ?inp = "\<lparr>in_pulse = (\<lambda>_. 1600), in_millis = 7, in_mpu = demo_imu, in_serial = []\<rparr> :: mcu_in"
  have p: "pulses_ok ?inp" "imu_sane (in_mpu ?inp)" using demo_packets_ok by (simp_all add: pulses_ok_def)
  obtain m' out where l: "mcu_loop ?inp new_Mcu = Inr (m', out)"
    using mcu_read_sticks_ok[OF p(1)] by (auto simp: mcu_loop_def mcu_readPacket_def)
  from closed_loop_round[OF tty_asio_ok tty_prompt demo_som_ready p l demo_in_step[of "out_serial out" "[]"] p(1),
      where M = shm_mq and pad = 0 and w = demo_shm]
  show ?thesis using l by fastforce
qed

text \<open>
  C14 What a handshake means: it is aborted (\<^verbatim>\<open>exit(1)\<close>) exactly when the flush fails; when it returns true, the
  byte 1 was sent, and the flushed stream began with fewer bytes other than 1 than there are attempts, then
  the answer 1, all of which are consumed: the next byte read is the one behind the answer.
\<close>
theorem handshake_outcome:
  assumes "asio_ok A rx tx" "flush A (m_serialController som) = (flushed, sc)"
  shows "(handshakeMCU A som = Inl Exited \<longleftrightarrow> \<not> flushed)
    \<and> (\<forall>som'. handshakeMCU A som = Inr (True, som') \<longrightarrow>
         (\<exists>junk. stream rx sc = junk @ [1] @ stream rx (m_serialController som') \<and> 1 \<notin> set junk
            \<and> length junk < unat (c_handshakeAttempts som)
            \<and> tx (m_serialPort (m_serialController som')) = tx (m_serialPort (m_serialController som)) @ [1]))"
proof -
  obtain ok sc' where w: "writePacket A enc_HandshakePacket sc kHandshakePacket = (ok, sc')" by force
  have k: "enc_HandshakePacket kHandshakePacket = [1]" by (simp add: enc_HandshakePacket_def kHandshakePacket_def)
  have 1: "handshakeMCU A som = Inl Exited \<longleftrightarrow> \<not> flushed"
    by (cases flushed; cases ok) (auto simp: handshakeMCU_def assms(2) w)
  have 2: "\<exists>junk. stream rx sc = junk @ [1] @ stream rx (m_serialController som') \<and> 1 \<notin> set junk
      \<and> length junk < unat (c_handshakeAttempts som)
      \<and> tx (m_serialPort (m_serialController som')) = tx (m_serialPort (m_serialController som)) @ [1]"
    if h: "handshakeMCU A som = Inr (True, som')" for som'
  proof -
    have f: flushed ok
      and a: "handshake_attempts A (unat (c_handshakeAttempts som)) (som\<lparr>m_serialController := sc',
        m_debugMessage := count_write True (m_debugMessage som)\<rparr>) = (True, som')"
      using h by (cases flushed; cases ok; simp add: handshakeMCU_def assms(2) w)+
    from handshake_attempts_stream[OF assms(1) a] obtain junk where
      "stream rx sc' = junk @ [1] @ stream rx (m_serialController som')" "1 \<notin> set junk"
      "length junk + 1 \<le> unat (c_handshakeAttempts som)"
      "tx (m_serialPort (m_serialController som')) = tx (m_serialPort sc')" by auto
    moreover have "stream rx sc' = stream rx sc" using writePacket_cases(1)[OF assms(1) w] .
    moreover have "tx (m_serialPort sc') = tx (m_serialPort sc) @ [1]"
      using writePacket_cases(2)[OF assms(1) w] f(2) k by simp
    moreover have "tx (m_serialPort sc) = tx (m_serialPort (m_serialController som))"
      using flush_cases(1)[OF assms(1,2)] .
    ultimately show ?thesis by (intro exI[of _ junk]) simp
  qed
  from 1 2 show ?thesis by blast
qed

theorem handshake_outcome_witness:
  "handshakeMCU tty_asio (demo_som []) = Inl Exited"
proof -
  obtain f sc where f: "flush tty_asio (m_serialController (demo_som [])) = (f, sc)" by force
  have "\<not> fst (flush tty_asio (m_serialController (demo_som [])))" by code_simp
  with handshake_outcome[OF tty_asio_ok f] f show ?thesis by simp
qed

text \<open>
  C15 And it does succeed: on a port that delivers in time, when the flushed stream has the answer 1 after fewer other
  bytes than there are attempts, the handshake returns true, and the stream behind the answer is what the main
  loop will read.
\<close>
theorem handshake_succeeds:
  assumes "asio_ok A rx tx" "asio_prompt A rx P" "flush A (m_serialController som) = (True, sc)"
    and "in_step rx P sc (junk @ [1] @ s) rest" "1 \<notin> set junk" "length junk < unat (c_handshakeAttempts som)"
  shows "\<exists>som'. handshakeMCU A som = Inr (True, som') \<and> in_step rx P (m_serialController som') s rest"
proof -
  obtain sc' where w: "writePacket A enc_HandshakePacket sc kHandshakePacket = (True, sc')"
    "in_step rx P sc' (junk @ [1] @ s) rest"
    using writePacket_prompt[OF assms(1,2,4), of enc_HandshakePacket kHandshakePacket] by blast
  let ?som = "som\<lparr>m_serialController := sc', m_debugMessage := count_write True (m_debugMessage som)\<rparr>"
  have "in_step rx P (m_serialController ?som) (junk @ [1] @ s) rest" using w(2) by simp
  from handshake_attempts_prompt[OF assms(1,2) this assms(5,6)] show ?thesis
    by (simp add: handshakeMCU_def assms(3) w(1))
qed

theorem handshake_succeeds_witness:
  "\<exists>som'. handshakeMCU tty_asio (shipped_som (shipped_serial (demo_port\<lparr>tty_rx := string_bytes (''flush'' @ crlf),
      tty_batches := [[], [7, 1, 5, 6]]\<rparr>)) demo_tx) = Inr (True, som')
    \<and> stream tty_incoming (m_serialController som') = [5, 6]"
proof -
  let ?som = "shipped_som (shipped_serial (demo_port\<lparr>tty_rx := string_bytes (''flush'' @ crlf),
      tty_batches := [[], [7, 1, 5, 6]]\<rparr>)) demo_tx"
  let ?sc = "shipped_serial (demo_port\<lparr>tty_batches := [[7, 1, 5, 6]]\<rparr>)"
  have f: "flush tty_asio (m_serialController ?som) = (True, ?sc)" by code_simp
  have s: "in_step tty_incoming tty_here ?sc ([7] @ [1] @ [5]) [6]"
    by (simp add: in_step_def shipped_serial_def demo_port_def tty_here_def stream_def tty_incoming_def)
  from handshake_succeeds[OF tty_asio_ok tty_prompt f s] show ?thesis
    by (auto simp: shipped_som_def in_step_def)
qed

text \<open>
  Sending telemetry never holds the loop up: over three open queues it is defined whatever they hold, each of the
  three current messages is appended to its queue where there is room, and a full queue stays as it is.
\<close>
lemma telemetry_offered:
  assumes "mq_ok M names cont cap" "m_telemetryTransmitter som = tx"
    and "m_debugMessageQueue tx = Some d" "m_attitudeMessageQueue tx = Some a" "m_onboardMessageQueue tx = Some b"
    and "distinct [d, a, b]" "snd (cap d) = 20" "snd (cap a) = 32" "snd (cap b) = 12"
  shows "\<exists>w'. sendTelemetry M pad som w = Inr w'
    \<and> cont w' d = cont w d @ (if length (cont w d) < fst (cap d) then [enc_DebugMessage (m_debugMessage som)] else [])
    \<and> cont w' a = cont w a @ (if length (cont w a) < fst (cap a) then [enc_AttitudeMessage (m_attitudeMessage som)] else [])
    \<and> cont w' b = cont w b @ (if length (cont w b) < fst (cap b) then [enc_OnboardStateMessage pad (m_onboardMessage som)] else [])
    \<and> (\<forall>h. h \<notin> {d, a, b} \<longrightarrow> cont w' h = cont w h)"
proof -
  let ?D = "enc_DebugMessage (m_debugMessage som)" and ?A = "enc_AttitudeMessage (m_attitudeMessage som)"
    and ?B = "enc_OnboardStateMessage pad (m_onboardMessage som)"
  have l: "length ?D \<le> snd (cap d)" "length ?A \<le> snd (cap a)" "length ?B \<le> snd (cap b)"
    using assms(7-9) debug.enc_length attitude.enc_length onboard.enc_length by simp_all
  obtain w1 where 1: "send_bytes M (Some d) ?D w = Inr (length (cont w d) < fst (cap d), w1)"
    "cont w1 = (if length (cont w d) < fst (cap d) then (cont w)(d := cont w d @ [?D]) else cont w)"
    using send_bytes_fits[OF assms(1) l(1), of w] by blast
  obtain w2 where 2: "send_bytes M (Some a) ?A w1 = Inr (length (cont w1 a) < fst (cap a), w2)"
    "cont w2 = (if length (cont w1 a) < fst (cap a) then (cont w1)(a := cont w1 a @ [?A]) else cont w1)"
    using send_bytes_fits[OF assms(1) l(2), of w1] by blast
  obtain w3 where 3: "send_bytes M (Some b) ?B w2 = Inr (length (cont w2 b) < fst (cap b), w3)"
    "cont w3 = (if length (cont w2 b) < fst (cap b) then (cont w2)(b := cont w2 b @ [?B]) else cont w2)"
    using send_bytes_fits[OF assms(1) l(3), of w2] by blast
  have "sendTelemetry M pad som w = Inr w3"
    by (simp add: sendTelemetry_def sendDebugMessage_def sendAttitudeMessage_def sendOnboardMessage_def
        assms(2-5) 1(1) 2(1) 3(1))
  then show ?thesis using 1(2) 2(2) 3(2) assms(6) by (intro exI[of _ w3]) auto
qed

lemma telemetry_offered_witness:
  "\<exists>w'. sendTelemetry shm_mq 0 (demo_som []) shm_empty = Inr w'
    \<and> shm_cont w' (1, 100, 20) = [enc_DebugMessage default_DebugMessage]"
proof -
  have "m_telemetryTransmitter (demo_som []) = demo_tx" by simp
  from telemetry_offered[OF shm_mq_ok this, where d = "(1, 100, 20)" and a = "(2, 100, 32)" and b = "(4, 100, 12)"
      and pad = 0 and w = shm_empty]
  show ?thesis by (auto simp: demo_tx_def shm_cont_def shm_empty_def)
qed

text \<open>
  C40 The program as shipped: with \<^verbatim>\<open>configs/config.json\<close> at the default path, a port that opens and queues that can be
  created, the constructor succeeds and the controller is ready, in manual mode, with the configured limits.
\<close>
theorem shipped_start:
  assumes "split_ok split" "fs k_defaultConfigPath = Some txt" "parse txt = Some config_json"
    and "open_port A (shipped_serial port) = (True, sc)"
    and "init_transmitter M shipped_transmitter w = (True, tx, w')"
  shows "\<exists>som. new_SomController split fs parse A M [] port w = Inr (som, w') \<and> som_ready som
    \<and> isInManualMode (m_autopilotManager som) \<and> m_serialController som = sc
    \<and> uint (c_maxThrottle (m_autopilotUtility som)) = 255
    \<and> sint (AutopilotUtility.c_maxAileronDeflection (m_autopilotUtility som)) = 35
    \<and> sint (c_maxElevatorDeflection (m_autopilotUtility som)) = 40
    \<and> sint (c_maxRudderDeflection (m_autopilotUtility som)) = 20"
proof -
  have sp: "split = split_dots" using split_ok_unique[OF assms(1)] .
  show ?thesis
    using shipped_new_SomController[where fs = fs and parse = parse, OF assms(2-5)] shipped_som_ready[OF init_transmitter_ready[OF assms(5)], of sc]
    by (auto simp: sp shipped_som_def shipped_manager_def shipped_utility_def isInManualMode_def)
qed

theorem shipped_start_witness:
  "\<exists>som. new_SomController split_dots (\<lambda>_. Some []) (\<lambda>_. Some config_json) tty_asio shm_mq [] demo_port shm_empty
      = Inr (som, demo_shm) \<and> som_ready som"
proof -
  have "open_port tty_asio (shipped_serial demo_port) = (True, shipped_serial demo_port)"
    by (simp add: open_port_def tty_asio_def shipped_serial_def demo_port_def)
  from shipped_start[where fs = "\<lambda>_. Some []" and parse = "\<lambda>_. Some config_json",
      OF split_dots_ok refl refl this demo_init_eq] show ?thesis by blast
qed

text \<open>
  How a start fails: a configuration file that cannot be read, a serial port that does not open and queues that cannot be
  created end the program with status 1 (a failed assertion); a file that is not JSON ends it with the parser's exception.
\<close>
lemma startup_failures:
  assumes "split_ok split"
  shows "(fs k_defaultConfigPath = None \<longrightarrow> som_main split fs parse A M pad stopped port w = Some (Inl Exited))
    \<and> (fs k_defaultConfigPath = Some txt \<and> parse txt = None \<longrightarrow>
         som_main split fs parse A M pad stopped port w = Some (Inl ParseError))
    \<and> (fs k_defaultConfigPath = Some txt \<and> parse txt = Some config_json
         \<and> \<not> fst (open_port A (shipped_serial port)) \<longrightarrow>
         som_main split fs parse A M pad stopped port w = Some (Inl Exited))
    \<and> (fs k_defaultConfigPath = Some txt \<and> parse txt = Some config_json
         \<and> fst (open_port A (shipped_serial port)) \<and> \<not> fst (init_transmitter M shipped_transmitter w) \<longrightarrow>
         som_main split fs parse A M pad stopped port w = Some (Inl Exited))"
proof -
  have sp: "split = split_dots" using split_ok_unique[OF assms(1)] .
  have load: "som_loadConfig fs parse [] = Inr shipped" if "fs k_defaultConfigPath = Some txt" "parse txt = Some config_json"
    using that by (simp add: som_loadConfig_def loadConfig_def new_ConfigManager_def shipped_def)
  obtain ok sc where o: "open_port A (shipped_serial port) = (ok, sc)" by force
  obtain ok' tx w' where i: "init_transmitter M shipped_transmitter w = (ok', tx, w')" using prod_cases3 by blast
  show ?thesis
    by (auto simp: sp som_main_def new_SomController_def load shipped_values shipped_SerialController
        som_open_def o shipped_AutopilotUtility shipped_AutopilotManager shipped_TelemetryTransmitterMQ
        som_init_telemetry_def i)
      (auto simp: som_loadConfig_def loadConfig_def)
qed

lemma startup_failures_example:
  "som_main split_dots (\<lambda>_. None) (\<lambda>_. None) tty_asio shm_mq 0 (\<lambda>_. False) demo_port shm_empty = Some (Inl Exited)"
  using startup_failures[OF split_dots_ok, where fs = "\<lambda>_. None" and parse = "\<lambda>_. None" and A = tty_asio
      and M = shm_mq and pad = 0 and stopped = "\<lambda>_. False" and port = demo_port and w = shm_empty]
  by simp

subsection \<open>Iterations\<close>

text \<open>
  C4 One iteration of the main loop, on any port and any queues: as long as the IMU packet it works on (the one
  read, or the default after a timeout) has sane angles and temperature, the iteration is defined,
  keeps the controller ready for the next one, and counts two reads and one write, done or timed out.
\<close>
theorem iteration_survives:
  assumes "som_ready som" "imu_sane (snd (iteration_input A som))"
  shows "\<exists>som' w'. som_iteration A M pad (som, w) = Inr (som', w') \<and> som_ready som'
    \<and> counters_from (m_debugMessage som) (m_debugMessage som')
    \<and> mainLoopCounter (m_debugMessage som') = mainLoopCounter (m_debugMessage som) + 1
    \<and> m_attitudeMessage som' = attitude_message (m_attitudeMessage som) (snd (iteration_input A som))"
proof -
  obtain som' w' where i: "som_iteration A M pad (som, w) = Inr (som', w')" "som_ready som'"
    using som_iteration_ready[OF assms, of M pad w] by blast
  have c: "mainLoopCounter (m_debugMessage som') = mainLoopCounter (m_debugMessage som) + 1"
    using som_iteration_debug[OF i(1)] by auto
  have "m_attitudeMessage som' = attitude_message (m_attitudeMessage som) (snd (iteration_input A som))"
    using i(1)
  proof (rule som_iterationE)
    fix r som1 im som2 cs som3
    assume s: "som_read_rc A som = (r, som1)" "som_read_imu A som1 = (im, som2)"
      "som_control som2 r im = Inr (cs, som3)" "som' = som_write A som3 cs im"
    have "m_attitudeMessage som3 = m_attitudeMessage som"
      using s(1-3) by (auto simp: som_step_defs res_simps split: prod.splits)
    then show ?thesis using s by (simp add: iteration_input_def)
  qed
  with i c show ?thesis using som_iteration_counters[OF i(1) counters_from_refl] by blast
qed

theorem iteration_survives_witness:
  "\<exists>som' w'. som_iteration tty_asio shm_mq 0 (demo_som [], demo_shm) = Inr (som', w') \<and> som_ready som'
    \<and> counters_from default_DebugMessage (m_debugMessage som') \<and> mainLoopCounter (m_debugMessage som') = 1"
proof -
  have "snd (iteration_input tty_asio (demo_som [])) = default_ImuPacket"
    by (simp add: iteration_input_def som_read_rc_def som_read_imu_def readPacket_def demo_som_def
        shipped_som_def shipped_serial_def demo_port_def tty_asio_def tty_arrived_def tty_take_def
        default_ReadResult_def)
  then have "imu_sane (snd (iteration_input tty_asio (demo_som [])))" using demo_packets_ok(3) by simp
  from iteration_survives[OF demo_som_ready this, where M = shm_mq and pad = 0 and w = demo_shm] show ?thesis
    by (auto simp: default_DebugMessage_def)
qed

text \<open>
  C19 Whenever the main loop returns, its counters balance, modulo \<open>2 ^ 32\<close>: reads done and timed out have grown by
  twice the growth of the loop counter, writes done and timed out by its growth. This holds on every
  port, whatever was received.
\<close>
theorem counters_balance:
  assumes "runMainLoop A M pad stopped som w = Some (Inr (som', w'))"
  shows "counters_from (m_debugMessage som) (m_debugMessage som')"
proof -
  obtain w1 where l: "main_loop stopped (som_iteration A M pad) 1 (som, w1) = Some (Inr (som', w'))"
    using assms by (auto simp: runMainLoop_def split: sum.splits)
  have "(\<lambda>(s, _). counters_from (m_debugMessage som) (m_debugMessage s)) (som', w')"
    by (rule main_loop_inv[OF _ l]) (auto dest: som_iteration_counters)
  then show ?thesis by simp
qed

theorem counters_balance_witness:
  "\<exists>som' w'. runMainLoop tty_asio shm_mq 0 (\<lambda>n. 1 < n) (demo_som (packets_bytes [(demo_rc, demo_imu)])) demo_shm
      = Some (Inr (som', w')) \<and> counters_from default_DebugMessage (m_debugMessage som')"
proof -
  let ?som = "demo_som (packets_bytes [(demo_rc, demo_imu)])"
  have st: "in_step tty_incoming tty_here (m_serialController ?som) (packets_bytes [(demo_rc, demo_imu)]) []"
    using demo_in_step[of "packets_bytes [(demo_rc, demo_imu)]" "[]"] by simp
  obtain w1 where t: "sendTelemetry shm_mq 0 ?som demo_shm = Inr w1"
    using sendTelemetry_defined[of ?som shm_mq 0 demo_shm] demo_som_ready by (auto simp: som_ready_def)
  obtain som' w' where "repeat_res 1 (som_iteration tty_asio shm_mq 0) (?som, w1) = Inr (som', w')"
    using som_iterations_in_step[OF tty_asio_ok tty_prompt st demo_som_ready, where M = shm_mq and pad = 0 and w = w1]
      demo_packets_ok by auto
  moreover have "main_loop (\<lambda>n. 1 < n) body 1 s = Some (repeat_res 1 body s)"
    for body :: "(tty, qid) SomController \<times> shm \<Rightarrow> ((tty, qid) SomController \<times> shm) res" and s
    by (rule main_loop_stops) auto
  ultimately have "runMainLoop tty_asio shm_mq 0 (\<lambda>n. 1 < n) ?som demo_shm = Some (Inr (som', w'))"
    unfolding runMainLoop_def t by simp
  from counters_balance[OF this] this show ?thesis by simp
qed

text \<open>
  C16 The main loop ends exactly with the stop of the service: with a ready controller and as long as the IMU packets
  that its iterations work on are sane, \<^verbatim>\<open>runMainLoop\<close> returns if and only if some call of \<^verbatim>\<open>stopped()\<close> returns true, and
  then without a fault unless it was already the first one, which is the failed assertion in front of the loop.
\<close>
theorem main_loop_ends:
  fixes som :: "('d, 'h) SomController" and w :: 'w
  assumes "som_ready som"
    and "\<forall>w1 n s w'. sendTelemetry M pad som w = Inr w1 \<and> repeat_res n (som_iteration A M pad) (som, w1) = Inr (s, w')
      \<longrightarrow> imu_sane (snd (iteration_input A s))"
  shows "(runMainLoop A M pad stopped som w \<noteq> None \<longleftrightarrow> (\<exists>n. stopped n))
    \<and> (stopped 0 \<longrightarrow> runMainLoop A M pad stopped som w = Some (Inl Exited))
    \<and> (\<not> stopped 0 \<longrightarrow> (\<forall>e. runMainLoop A M pad stopped som w \<noteq> Some (Inl e)))"
proof -
  let ?b = "som_iteration A M pad"
  obtain w1 where t: "sendTelemetry M pad som w = Inr w1"
    using sendTelemetry_defined[of som M pad w] assms(1) by (auto simp: som_ready_def)
  let ?P = "\<lambda>x. som_ready (fst x) \<and> (\<exists>n. repeat_res n ?b (som, w1) = Inr x)"
  have body: "\<exists>y. ?b x = Inr y \<and> ?P y" if P: "?P x" for x
  proof -
    obtain n where n: "repeat_res n ?b (som, w1) = Inr x" using P by blast
    then have "imu_sane (snd (iteration_input A (fst x)))" using assms(2) t by (cases x) auto
    from som_iteration_ready[OF conjunct1[OF P] this, of M pad "snd x"]
    obtain y where y: "?b x = Inr y" "som_ready (fst y)" by auto
    then have "repeat_res (Suc n) ?b (som, w1) = Inr y" using n by (simp only: repeat_res_snoc sum.case)
    with y show ?thesis by blast
  qed
  have start: "?P (som, w1)" using assms(1) by (auto intro: exI[of _ 0])
  note l = main_loop_returns_iff[where P = ?P and stopped = stopped and k = 1, OF body start]
  have d: "\<exists>y. repeat_res n ?b (som, w1) = Inr y" for n
    using repeat_res_defined[where P = ?P and body = ?b, OF body start, of n] by blast
  have nofault: "main_loop stopped ?b 1 (som, w1) \<noteq> Some (Inl e)" for e
  proof
    assume "main_loop stopped ?b 1 (som, w1) = Some (Inl e)"
    from main_loop_SomeD[OF this] obtain n where "repeat_res n ?b (som, w1) = Inl e" by auto
    with d[of n] show False by auto
  qed
  show ?thesis
  proof (cases "stopped 0")
    case False
    then have "(\<exists>n. stopped n) \<longleftrightarrow> (\<exists>n. stopped (1 + n))" by (metis add_0 not0_implies_Suc plus_1_eq_Suc)
    moreover have "runMainLoop A M pad stopped som w = main_loop stopped ?b 1 (som, w1)"
      using False by (simp add: runMainLoop_def t)
    ultimately show ?thesis using l nofault False by simp
  qed (auto simp: runMainLoop_def t)
qed

theorem main_loop_ends_witness:
  "runMainLoop (tty_asio\<lparr>asio_read := \<lambda>n t d. (Pending, [], d)\<rparr>) shm_mq 0 (\<lambda>n. n = 7) (demo_som []) demo_shm \<noteq> None
   \<and> runMainLoop (tty_asio\<lparr>asio_read := \<lambda>n t d. (Pending, [], d)\<rparr>) shm_mq 0 (\<lambda>n. False) (demo_som []) demo_shm = None"
proof -
  let ?A = "tty_asio\<lparr>asio_read := \<lambda>n t d. (Pending, [], d)\<rparr>"
  have "snd (iteration_input ?A som) = default_ImuPacket" for som :: "(tty, qid) SomController"
    by (simp add: iteration_input_def som_read_rc_def som_read_imu_def readPacket_def default_ReadResult_def)
  then have a: "\<forall>w1 n s w'. sendTelemetry shm_mq 0 (demo_som []) demo_shm = Inr w1
      \<and> repeat_res n (som_iteration ?A shm_mq 0) (demo_som [], w1) = Inr (s, w') \<longrightarrow> imu_sane (snd (iteration_input ?A s))"
    using demo_packets_ok(3) by simp
  show ?thesis
    using main_loop_ends[OF demo_som_ready a, of "\<lambda>n. n = 7"] main_loop_ends[OF demo_som_ready a, of "\<lambda>n. False"] by blast
qed

text \<open>
  C9 A lost link: when both reads of an iteration time out, the command is the neutral one (motor off, surfaces
  centred, four zero bytes or a part of them if the write times out too), the manager is in manual
  mode, the stabilizing autopilot's state is kept, telemetry reports it, and the loop goes on.
\<close>
theorem lost_link_neutral:
  assumes "asio_ok A rx tx" "som_ready som"
    and "readPacket A 9 dec_RcRxPacket default_RcRxPacket (m_serialController som) = (r1, sc1)" "didTimeout r1"
    and "readPacket A 28 dec_ImuPacket default_ImuPacket sc1 = (r2, sc2)" "didTimeout r2"
  shows "\<exists>som' w' n. som_iteration A M pad (som, w) = Inr (som', w') \<and> som_ready som'
    \<and> isInManualMode (m_autopilotManager som')
    \<and> m_stabilizeAutopilot (m_autopilotManager som') = m_stabilizeAutopilot (m_autopilotManager som)
    \<and> throttle (m_onboardMessage som') = 0 \<and> o_aileronDeflection (m_onboardMessage som') = 0
    \<and> o_elevatorDeflection (m_onboardMessage som') = 0 \<and> o_rudderDeflection (m_onboardMessage som') = 0
    \<and> autopilotType (m_onboardMessage som') = MANUAL_AUTOPILOT
    \<and> serialReadTimeouts (m_debugMessage som') = serialReadTimeouts (m_debugMessage som) + 2
    \<and> tx (m_serialPort (m_serialController som')) = tx (m_serialPort (m_serialController som)) @ take n [0, 0, 0, 0]"
proof -
  from lost_iteration[OF assms, of M pad w] obtain som3 w' where
    i: "som_iteration A M pad (som, w) = Inr (som_write A som3 default_ControlSurfacePacket default_ImuPacket, w')"
    and 3: "som_ready som3" "m_serialController som3 = sc2" "isInManualMode (m_autopilotManager som3)"
      "m_stabilizeAutopilot (m_autopilotManager som3) = m_stabilizeAutopilot (m_autopilotManager som)"
      "m_onboardMessage som3
        = onboard_message (m_onboardMessage som) default_RcRxPacket default_ControlSurfacePacket True 0"
      "m_debugMessage som3 = count_read True (count_read True (m_debugMessage som))" by blast
  let ?som' = "som_write A som3 default_ControlSurfacePacket default_ImuPacket"
  obtain ok sc3 where w: "writePacket A enc_ControlSurfacePacket sc2 default_ControlSurfacePacket = (ok, sc3)" by force
  have "enc_ControlSurfacePacket default_ControlSurfacePacket = [0, 0, 0, 0]"
    by (simp add: enc_ControlSurfacePacket_def default_ControlSurfacePacket_def)
  then obtain n where n: "tx (m_serialPort sc3) = tx (m_serialPort (m_serialController som)) @ take n [0, 0, 0, 0]"
    using writePacket_cases(3)[OF assms(1) w] readPacket_cases(1)[OF assms(1,3)] readPacket_cases(1)[OF assms(1,5)] by auto
  have "m_serialController ?som' = sc3"
    "serialReadTimeouts (m_debugMessage ?som') = serialReadTimeouts (m_debugMessage som) + 2"
    using w 3(2,6) by (simp_all add: som_write_def count_read_def count_write_def)
  moreover have "som_ready ?som'" using 3(1) by (simp add: som_ready_def)
  ultimately show ?thesis using i n 3(3-5)
    by (intro exI[of _ ?som'] exI[of _ w'] exI[of _ n])
      (simp add: onboard_message_def default_ControlSurfacePacket_def)
qed

theorem lost_link_neutral_witness:
  "\<exists>som' w'. som_iteration tty_asio shm_mq 0 (demo_som [], demo_shm) = Inr (som', w')
    \<and> throttle (m_onboardMessage som') = 0 \<and> autopilotType (m_onboardMessage som') = MANUAL_AUTOPILOT
    \<and> serialReadTimeouts (m_debugMessage som') = 2"
proof -
  obtain r1 sc1 where 1: "readPacket tty_asio 9 dec_RcRxPacket default_RcRxPacket
      (m_serialController (demo_som [])) = (r1, sc1)" by force
  obtain r2 sc2 where 2: "readPacket tty_asio 28 dec_ImuPacket default_ImuPacket sc1 = (r2, sc2)" by force
  have "didTimeout r1" "didTimeout r2" using 1 2
    by (auto simp: readPacket_def demo_som_def shipped_som_def shipped_serial_def demo_port_def
        tty_asio_def tty_arrived_def tty_take_def default_ReadResult_def)
  from lost_link_neutral[OF tty_asio_ok demo_som_ready 1 this(1) 2 this(2), where M = shm_mq and pad = 0 and w = demo_shm]
  have "\<exists>som' w'. som_iteration tty_asio shm_mq 0 (demo_som [], demo_shm) = Inr (som', w')
    \<and> throttle (m_onboardMessage som') = 0 \<and> autopilotType (m_onboardMessage som') = MANUAL_AUTOPILOT
    \<and> serialReadTimeouts (m_debugMessage som') = serialReadTimeouts (m_debugMessage (demo_som [])) + 2" by blast
  then show ?thesis by (simp add: default_DebugMessage_def)
qed

subsection \<open>Queues\<close>

text \<open>
  Setting up: when both sides start with the same configuration and no queue of these names is left over, their
  initializations connect three empty channels, each with the configured capacity and its own
  message size.
\<close>
lemma queues_set_up:
  assumes "mq_ok M names cont cap"
    and "init_transmitter M tx w = (True, tx', w')" "init_receiver M rx w' = (True, rx')"
    and "new_TelemetryTransmitterMQ split cm = Inr tx" "new_TelemetryReceiverMQ split cm = Inr rx"
    and "distinct [c_debugMessageQueueName tx, c_attitudeMessageQueueName tx, c_onboardMessageQueueName tx]"
    and "names w (c_debugMessageQueueName tx) = None" "names w (c_attitudeMessageQueueName tx) = None"
      "names w (c_onboardMessageQueueName tx) = None"
    and "c = \<lparr>t_mq = M, t_names = names, t_cont = cont, t_cap = cap, t_tx = tx', t_rx = rx', t_pad = pad\<rparr>"
  shows "channel_valid m_debugMessageQueue r_debugMessageQueue 20 c
    \<and> channel_valid m_attitudeMessageQueue r_attitudeMessageQueue 32 c
    \<and> channel_valid m_onboardMessageQueue r_onboardMessageQueue 12 c
    \<and> channel_contents m_debugMessageQueue c w' = [] \<and> channel_contents m_attitudeMessageQueue c w' = []
    \<and> channel_contents m_onboardMessageQueue c w' = []
    \<and> channel_capacity m_debugMessageQueue c = unat (c_messageQueueSize tx)
    \<and> channel_capacity m_attitudeMessageQueue c = unat (c_messageQueueSize tx)
    \<and> channel_capacity m_onboardMessageQueue c = unat (c_messageQueueSize tx)"
proof (rule init_channels[OF assms(1-3) _ _ _ assms(6-10)])
  show "r_debugMessageQueueName rx = c_debugMessageQueueName tx"
    "r_attitudeMessageQueueName rx = c_attitudeMessageQueueName tx"
    "r_onboardMessageQueueName rx = c_onboardMessageQueueName tx"
    using assms(4,5) by (auto simp: new_TelemetryTransmitterMQ_def new_TelemetryReceiverMQ_def res_simps)
qed

lemma queues_set_up_witness:
  "\<exists>rx'. init_receiver shm_mq shipped_receiver demo_shm = (True, rx')
    \<and> channel_valid m_onboardMessageQueue r_onboardMessageQueue 12
        \<lparr>t_mq = shm_mq, t_names = shm_names, t_cont = shm_cont, t_cap = snd, t_tx = demo_tx, t_rx = rx', t_pad = 0\<rparr>"
proof -
  obtain rx' where r: "init_receiver shm_mq shipped_receiver demo_shm = (True, rx')"
    by (simp add: init_receiver_def shm_mq_def shipped_receiver_def demo_shm_def demo_init_def
        init_transmitter_def shipped_transmitter_def shm_empty_def shm_fresh_def shm_put_def)
  from queues_set_up[OF shm_mq_ok demo_init_eq r shipped_TelemetryTransmitterMQ shipped_TelemetryReceiverMQ,
      OF _ _ _ _ refl, of 0] r show ?thesis
    by (simp add: shipped_transmitter_def shm_empty_def)
qed

text \<open>
  A receiver whose initialization failed at the first queue has no queue to receive from: every receive
  dereferences a null pointer. The same holds for every send of a transmitter before its
  initialization.
\<close>
lemma receiver_not_open:
  assumes "mq_open_only M (r_debugMessageQueueName rx) w = None"
    and "new_TelemetryReceiverMQ split cm = Inr rx" "new_TelemetryTransmitterMQ split cm = Inr tx"
  shows "init_receiver M rx w = (False, rx)
    \<and> receiveDebugMessage M rx d w' = Some (Inl (Undefined NullDereference))
    \<and> receiveAttitudeMessage M rx a w' = Some (Inl (Undefined NullDereference))
    \<and> receiveOnboardMessage M pad rx b w' = Some (Inl (Undefined NullDereference))
    \<and> sendDebugMessage M tx d w' = Inl (Undefined NullDereference)
    \<and> sendAttitudeMessage M tx a w' = Inl (Undefined NullDereference)
    \<and> sendOnboardMessage M pad tx b w' = Inl (Undefined NullDereference)"
proof -
  have "r_debugMessageQueue rx = None" "r_attitudeMessageQueue rx = None" "r_onboardMessageQueue rx = None"
    using assms(2) by (auto simp: new_TelemetryReceiverMQ_def res_simps)
  moreover have "m_debugMessageQueue tx = None" "m_attitudeMessageQueue tx = None" "m_onboardMessageQueue tx = None"
    using assms(3) by (auto simp: new_TelemetryTransmitterMQ_def res_simps)
  ultimately show ?thesis using assms(1)
    by (simp add: init_receiver_def receiveDebugMessage_def receiveAttitudeMessage_def
        receiveOnboardMessage_def receive_bytes_def send_bytes_def sendDebugMessage_def
        sendAttitudeMessage_def sendOnboardMessage_def)
qed

lemma receiver_not_open_witness:
  "receiveDebugMessage shm_mq shipped_receiver default_DebugMessage shm_empty = Some (Inl (Undefined NullDereference))"
proof -
  have "mq_open_only shm_mq (r_debugMessageQueueName shipped_receiver) shm_empty = None"
    by (simp add: shm_mq_def shm_empty_def)
  from receiver_not_open[OF this shipped_TelemetryReceiverMQ shipped_TelemetryTransmitterMQ] show ?thesis by blast
qed

subsection \<open>Power-up and flight\<close>

definition tty_arrive :: "byte list \<Rightarrow> tty \<Rightarrow> tty" where
  "tty_arrive bs d = d\<lparr>tty_rx := tty_incoming d @ bs, tty_batches := []\<rparr>"

lemma tty_arrive_ok: "arrive_ok tty_incoming tty_tx tty_here tty_arrive"
  by (auto simp: arrive_ok_def tty_arrive_def tty_incoming_def tty_here_def)


definition demo_inputs :: "mcu_in list" where
  \<comment> \<open>assistance off, then on\<close>
  "demo_inputs = [\<lparr>in_pulse = (\<lambda>pin. if pin = kASSISTANCE_IN then 1200 else 1600), in_millis = 7, in_mpu = demo_imu, in_serial = []\<rparr>,
     \<lparr>in_pulse = (\<lambda>_. 1800), in_millis = 207, in_mpu = demo_imu, in_serial = []\<rparr>]"





subsection \<open>Reading telemetry\<close>

text \<open>
  C11 From the SoM to the window: after any interleaving of SoM and control station in which no message was lost, and
  with room in the queues, \<^verbatim>\<open>sendTelemetry\<close> publishes its three messages, the telemetry thread can
  go on until it has emitted every round published, and once the slot has handled the signals
  every label shows this last round.
\<close>
theorem telemetry_reaches_window:
  fixes som :: "('d, 'h) SomController" and c :: "('h, 'w) telemetry"
  assumes "links_valid c" "queue_debug c w = []" "queue_attitude c w = []" "queue_onboard c w = []"
    and "link_runs c telemetry_thread (link_begin w) s" "\<not> l_lost s" "l_sender s = Idle"
    and "telemetry_room c (l_queues s)" "m_telemetryTransmitter som = t_tx c" "loggable (m_onboardMessage som)"
    and "r = (m_debugMessage som, m_attitudeMessage som, m_onboardMessage som)"
  shows "\<exists>w' s' cs'. sendTelemetry (t_mq c) (t_pad c) som (l_queues s) = Inr w'
    \<and> link_runs c telemetry_thread s (s\<lparr>l_queues := w', l_sent := l_sent s @ [r]\<rparr>)
    \<and> link_runs c telemetry_thread (s\<lparr>l_queues := w', l_sent := l_sent s @ [r]\<rparr>) s'
    \<and> l_out s' = l_sent s @ [r]
    \<and> handle_all Q (l_out s') cs = (Inr (), cs') \<and> labels cs' = labels_of Q r"
proof -
  let ?d = "m_debugMessage som" and ?a = "m_attitudeMessage som" and ?b = "m_onboardMessage som"
  have i: "link_inv c s" by (rule thread_reader.reachable_inv[OF assms(1-5)])
  obtain w1 w2 w3 where t: "sendDebugMessage (t_mq c) (t_tx c) ?d (l_queues s) = Inr (True, w1)"
    "sendAttitudeMessage (t_mq c) (t_tx c) ?a w1 = Inr (True, w2)"
    "sendOnboardMessage (t_mq c) (t_pad c) (t_tx c) ?b w2 = Inr (True, w3)"
    using send_three_room[OF assms(1,8), of ?d ?a ?b] by blast
  have send: "sendTelemetry (t_mq c) (t_pad c) som (l_queues s) = Inr w3"
    by (simp add: sendTelemetry_def assms(9) t)
  let ?s = "s\<lparr>l_queues := w3, l_sent := l_sent s @ [r]\<rparr>"
  have "s\<lparr>l_sent := l_sent s @ [(?d, ?a, ?b)], l_queues := w3, l_sender := Idle,
      l_lost := ((l_lost s \<or> \<not> True) \<or> \<not> True) \<or> \<not> True\<rparr> = ?s"
    using assms(6,7) by (simp add: assms(11))
  then have runs: "link_runs c telemetry_thread s ?s"
    using send_three[OF t refl assms(7,10), of telemetry_thread] by (simp only:)
  then have "link_runs c telemetry_thread (link_begin w) ?s" using assms(5) by (rule rtranclp_trans[rotated])
  from thread_reader.reachable_inv[OF assms(1-4) this] have i': "link_inv c ?s" .
  have "\<not> l_lost ?s" "l_sender ?s = Idle" "l_sent ?s = l_sent s @ [r]" using assms(6,7) by simp_all
  then obtain s' where s': "link_runs c telemetry_thread ?s s'" "l_out s' = l_sent s @ [r]"
    using thread_reader.catches_up[OF assms(1) i'] unfolding \<open>l_sent ?s = l_sent s @ [r]\<close> by blast
  have "link_runs c telemetry_thread (link_begin w) s'" using \<open>link_runs c telemetry_thread (link_begin w) ?s\<close> s'(1)
    by (rule rtranclp_trans)
  from link_out_loggable[OF thread_reader.reachable_inv[OF assms(1-4) this]]
  obtain cs' where "handle_all Q (l_out s') cs = (Inr (), cs')" "labels cs' = labels_of Q (last (l_out s'))"
    using handle_all_last[of "l_out s'" Q cs] unfolding s'(2) by blast
  then have "handle_all Q (l_out s') cs = (Inr (), cs') \<and> labels cs' = labels_of Q r" by (simp add: s'(2))
  then show ?thesis using send runs s'
    by (intro exI[of _ w3] exI[of _ s'] exI[of _ cs'] conjI) simp_all
qed

definition demo_rx :: "qid TelemetryReceiverMQ" where
  "demo_rx = shipped_receiver\<lparr>r_debugMessageQueue := Some (1, 100, 20),
     r_attitudeMessageQueue := Some (2, 100, 32), r_onboardMessageQueue := Some (4, 100, 12)\<rparr>"

definition demo_telemetry :: "(qid, shm) telemetry" where
  "demo_telemetry = \<lparr>t_mq = shm_mq, t_names = shm_names, t_cont = shm_cont, t_cap = snd, t_tx = demo_tx,
     t_rx = demo_rx, t_pad = 0\<rparr>"

theorem telemetry_reaches_window_witness:
  "\<exists>w' (s' :: shm link) cs'. sendTelemetry shm_mq 0 (demo_som []) shm_empty = Inr w'
    \<and> l_out s' = [(default_DebugMessage, m_attitudeMessage (demo_som []), default_OnboardStateMessage)]
    \<and> handle_all demo_station (l_out s') (new_ControlStation (\<lambda>_. []) NaN NaN) = (Inr (), cs')
    \<and> ui_apt cs' = ''ERR''"
proof -
  have v: "links_valid demo_telemetry"
    by (simp add: links_valid_def channel_valid_def demo_telemetry_def demo_tx_def demo_rx_def shm_mq_ok)
  have e: "queue_debug demo_telemetry shm_empty = []" "queue_attitude demo_telemetry shm_empty = []"
    "queue_onboard demo_telemetry shm_empty = []"
    by (simp_all add: channel_contents_def demo_telemetry_def demo_tx_def shm_empty_def shm_cont_def)
  have r: "telemetry_room demo_telemetry (l_queues (link_begin shm_empty))"
    using e by (simp add: telemetry_room_def link_begin_def channel_capacity_def demo_telemetry_def demo_tx_def)
  have t: "m_telemetryTransmitter (demo_som []) = t_tx demo_telemetry" by (simp add: demo_telemetry_def)
  have tm: "t_mq demo_telemetry = shm_mq" "t_pad demo_telemetry = 0" by (simp_all add: demo_telemetry_def)
  have l: "loggable (m_onboardMessage (demo_som []))" by (simp add: loggable_def default_OnboardStateMessage_def)
  have b: "link_runs demo_telemetry telemetry_thread (link_begin shm_empty) (link_begin shm_empty)"
    "\<not> l_lost (link_begin shm_empty)" "l_sender (link_begin shm_empty) = Idle" "l_sent (link_begin shm_empty) = []"
    "l_queues (link_begin shm_empty) = shm_empty"
    by (simp_all add: link_begin_def)
  from telemetry_reaches_window[OF v e b(1-3) r t l refl, of demo_station "new_ControlStation (\<lambda>_. []) NaN NaN"]
  obtain w' and s' :: "shm link" and cs' where f: "sendTelemetry shm_mq 0 (demo_som []) shm_empty = Inr w'"
    "l_out s' = [(default_DebugMessage, m_attitudeMessage (demo_som []), default_OnboardStateMessage)]"
    "handle_all demo_station (l_out s') (new_ControlStation (\<lambda>_. []) NaN NaN) = (Inr (), cs')"
    "labels cs' = labels_of demo_station (default_DebugMessage, m_attitudeMessage (demo_som []), default_OnboardStateMessage)"
    unfolding b(4,5) demo_som_simps append_Nil tm by blast
  have "labels cs' ! 10 = ''ERR''" unfolding f(4)
    by (simp add: labels_of_def default_OnboardStateMessage_def gAutopilotTypeToStr_def enumerator_defs)
  then have "ui_apt cs' = ''ERR''" by (simp add: labels_def)
  with f show ?thesis by blast
qed

text \<open>
  C31 \<^verbatim>\<open>pc/main.cpp\<close> never returns its \<^verbatim>\<open>EXIT_SUCCESS\<close>, whatever the queues do; and if the debug queue it opened was
  left over from a version with larger messages, it spins for ever on a receive that is refused each
  time, without a fault and without having taken one message off.
\<close>
theorem pc_main_endless:
  assumes "mq_ok M names cont cap" "pc_main_begin split fs parse M w = Inr rx"
  shows "pc_main split fs parse M pad w \<noteq> Some (Inr n)
    \<and> (\<forall>h. r_debugMessageQueue rx = Some h \<and> 20 < snd (cap h) \<longrightarrow>
         pc_main split fs parse M pad w = None
       \<and> (\<forall>m v. \<exists>v'. pc_step M pad rx (AtDebug m) v = Some (Inr (AtDebug m, [], v')) \<and> cont v' = cont v))"
proof -
  have "pc_main split fs parse M pad w \<noteq> Some (Inr n)"
    using reader_loop_fault by (fastforce simp: pc_main_def assms(2))
  moreover have spin: "\<exists>v'. pc_step M pad rx (AtDebug m) v = Some (Inr (AtDebug m, [], v')) \<and> cont v' = cont v"
    if "r_debugMessageQueue rx = Some h" "20 < snd (cap h)" for h m v
    using stale_queue[OF assms(1) that, of m v] by auto
  moreover have "pc_main split fs parse M pad w = None" if h: "r_debugMessageQueue rx = Some h" "20 < snd (cap h)" for h
  proof -
    have "reader_loop (pc_step M pad rx) (AtDebug default_DebugMessage) w = None"
    proof (rule reader_loop_endless[where I = "\<lambda>pc v. pc = AtDebug default_DebugMessage"])
      fix pc v
      assume "pc = AtDebug default_DebugMessage"
      with spin[OF h, of default_DebugMessage v] show "pc_step M pad rx pc v = None \<or> (\<exists>pc' out v'.
          pc_step M pad rx pc v = Some (Inr (pc', out, v')) \<and> pc' = AtDebug default_DebugMessage)" by auto
    qed simp
    then show ?thesis by (simp add: pc_main_def assms(2))
  qed
  ultimately show ?thesis by blast
qed

definition stale_shm :: shm where
  \<comment> \<open>queues of the shipped names, the debug queue with messages of 24 bytes\<close>
  "stale_shm = shm_empty\<lparr>shm_names := [''rcplane_mq_debug'' \<mapsto> (1, 100, 24),
     ''rcplane_mq_attitude'' \<mapsto> (2, 100, 32), ''rcplane_mq_onboard'' \<mapsto> (3, 100, 12)]\<rparr>"

lemma stale_begin:
  "pc_main_begin split_dots (\<lambda>_. Some []) (\<lambda>_. Some config_json) shm_mq stale_shm
   = Inr (shipped_receiver\<lparr>r_debugMessageQueue := Some (1, 100, 24),
       r_attitudeMessageQueue := Some (2, 100, 32), r_onboardMessageQueue := Some (3, 100, 12)\<rparr>)"
proof -
  have "loadConfig (\<lambda>_. Some []) (\<lambda>_. Some config_json) new_ConfigManager k_defaultConfigPath = (Inr True, shipped)"
    by (simp add: loadConfig_def new_ConfigManager_def shipped_def)
  moreover have "init_receiver shm_mq shipped_receiver stale_shm = (True,
      shipped_receiver\<lparr>r_debugMessageQueue := Some (1, 100, 24),
       r_attitudeMessageQueue := Some (2, 100, 32), r_onboardMessageQueue := Some (3, 100, 12)\<rparr>)"
    by (simp add: init_receiver_def shm_mq_def stale_shm_def shipped_receiver_def)
  ultimately show ?thesis
    by (simp add: pc_main_begin_def shipped_TelemetryReceiverMQ rcplane_assert_external_fst)
qed

theorem pc_main_endless_witness:
  "pc_main split_dots (\<lambda>_. Some []) (\<lambda>_. Some config_json) shm_mq 0 stale_shm = None"
  using pc_main_endless[OF shm_mq_ok stale_begin, of 0 0] by simp

text \<open>
  C32 Starting the ground programs before the SoM has created the queues: the PC program ends with status 1, but the
  control station's thread ignores the failed \<^verbatim>\<open>init\<close>, and its first receive dereferences a null pointer. Without
  a configuration file the PC program ends with status 1 too, while the control station, which ignores
  the result of \<^verbatim>\<open>loadConfig\<close>, ends with a \<^verbatim>\<open>type_error\<close> of the JSON library.
\<close>
theorem readers_without_sender:
  assumes "split_ok split" "new_TelemetryReceiverMQ split cm = Inr rx"
    and "mq_open_only M (r_debugMessageQueueName rx) w = None"
  shows "(loadConfig fs parse new_ConfigManager k_defaultConfigPath = (Inr True, cm)
        \<longrightarrow> pc_main split fs parse M pad w = Some (Inl Exited))
    \<and> new_TelemetryThread split cm = Inr rx
    \<and> (case thread_begin M rx w of (rx', pc) \<Rightarrow>
         thread_step M pad rx' pc w' = Some (Inl (Undefined NullDereference)))
    \<and> (fs' k_defaultConfigPath = None \<longrightarrow> pc_main split fs' parse M pad w = Some (Inl Exited))
    \<and> (fs' ''../configs/config.json'' = None \<longrightarrow>
         control_station_begin split fs' parse ui memX memY = (Inl (TypeError 302) :: (_ \<times> 'h TelemetryReceiverMQ) res))"
proof -
  have q: "r_debugMessageQueue rx = None" using assms(2) by (auto simp: new_TelemetryReceiverMQ_def res_simps)
  have i: "init_receiver M rx w = (False, rx)" using assms(3) by (simp add: init_receiver_def)
  have null: "receiveDebugMessage M rx m w' = Some (Inl (Undefined NullDereference))" for m
    using q by (simp add: receiveDebugMessage_def receive_bytes_def)
  have "control_station_begin split fs' parse ui memX memY = (Inl (TypeError 302) :: (_ \<times> 'h TelemetryReceiverMQ) res)"
    if "fs' ''../configs/config.json'' = None"
    using that by (simp add: control_station_begin_def loadConfig_def new_TelemetryThread_def
        new_TelemetryReceiverMQ_def getValue_def new_ConfigManager_def)
  then show ?thesis using assms(2)
    by (simp add: pc_main_def pc_main_begin_def thread_begin_def new_TelemetryThread_def i null
        rcplane_assert_external_fst rcplane_assert_def loadConfig_def split: option.split)
qed

theorem readers_without_sender_witness:
  "pc_main split_dots (\<lambda>_. Some []) (\<lambda>_. Some config_json) shm_mq 0 shm_empty = Some (Inl Exited)
   \<and> (control_station_begin split_dots (\<lambda>_. None) (\<lambda>_. None) (\<lambda>_. []) NaN NaN
       = (Inl (TypeError 302) :: (_ \<times> qid TelemetryReceiverMQ) res))"
proof -
  have o: "mq_open_only shm_mq (r_debugMessageQueueName shipped_receiver) shm_empty = None"
    by (simp add: shm_mq_def shm_empty_def)
  have l: "loadConfig (\<lambda>_. Some []) (\<lambda>_. Some config_json) new_ConfigManager k_defaultConfigPath = (Inr True, shipped)"
    by (simp add: loadConfig_def new_ConfigManager_def shipped_def)
  from readers_without_sender[OF split_dots_ok shipped_TelemetryReceiverMQ o, where fs = "\<lambda>_. Some []"
      and fs' = "\<lambda>_. None" and parse = "\<lambda>_. Some config_json" and pad = 0] l
    readers_without_sender[OF split_dots_ok shipped_TelemetryReceiverMQ o, where fs = "\<lambda>_. None"
      and fs' = "\<lambda>_. None" and parse = "\<lambda>_. None" and pad = 0 and ui = "\<lambda>_. []" and memX = NaN and memY = NaN]
  show ?thesis by blast
qed

subsection \<open>Lost packets\<close>

text \<open>
  C23 Where the stream stands after timeouts, on any port: the firmware sends pairs of an RC and an IMU packet, and \<open>n\<close>
  iterations have read \<open>a\<close> RC and \<open>b\<close> IMU packets, whose sum the debug message counts. Then the stream is back at the
  beginning of a pair if and only if \<open>a\<close> and \<open>b\<close> are equal modulo 37: after a late packet
  every packet is read shifted until 36 more of the same kind are late.
\<close>
theorem resync_iff:
  assumes "asio_ok A rx tx" "stream rx (m_serialController som) = packets_bytes ps"
    and "repeat_res n (som_iteration A M pad) (som, w) = Inr (som', w')"
  shows "\<exists>a b ph. a \<le> n \<and> b \<le> n
    \<and> serialReads (m_debugMessage som') = serialReads (m_debugMessage som) + of_nat (a + b)
    \<and> stream rx (m_serialController som') = drop ph (packets_bytes (drop ((9 * a + 28 * b) div 37) ps))
    \<and> ph < 37 \<and> (9 * a + 28 * b) mod 37 = ph \<and> (ph = 0 \<longleftrightarrow> a mod 37 = b mod 37)
    \<and> (a \<noteq> b \<and> n < 37 \<longrightarrow> ph \<noteq> 0)"
proof -
  obtain a b where ab: "a \<le> n" "b \<le> n" "taken rx a b som som'" using som_iterations_taken[OF assms(1,3)] by blast
  define ph where "ph = (9 * a + 28 * b) mod 37"
  have iff: "ph = 0 \<longleftrightarrow> a mod 37 = b mod 37" using phase_zero_iff[of a b] by (simp add: ph_def)
  have "stream rx (m_serialController som') = drop ph (packets_bytes (drop ((9 * a + 28 * b) div 37) ps))"
    using ab(3) drop_phase[of "9 * a + 28 * b" ps] by (simp add: taken_def assms(2) ph_def)
  moreover have "ph \<noteq> 0" if "a \<noteq> b" "n < 37" using that ab(1,2) iff by simp
  moreover have "ph < 37" by (simp add: ph_def)
  ultimately show ?thesis using ab iff unfolding taken_def by (metis ph_def)
qed

definition late_som :: "(tty, qid) SomController" where
  \<comment> \<open>as shipped, on a port where a pair of packets comes in during the second read\<close>
  "late_som = shipped_som (shipped_serial (demo_port\<lparr>tty_batches :=
     [[], packets_bytes [(default_RcRxPacket, default_ImuPacket)]]\<rparr>)) demo_tx"

lemma late_som_reads:
  "snd (iteration_input tty_asio late_som) = default_ImuPacket"
  "serialReads (m_debugMessage (snd (som_read_imu tty_asio (snd (som_read_rc tty_asio late_som))))) = 1"
  by code_simp+

theorem resync_iff_witness:
  "\<exists>som' w' ph. som_iteration tty_asio shm_mq 0 (late_som, demo_shm) = Inr (som', w')
    \<and> serialReads (m_debugMessage som') = 1 \<and> ph \<in> {9, 28}
    \<and> stream tty_incoming (m_serialController som') = drop ph (packets_bytes [(default_RcRxPacket, default_ImuPacket)])"
proof -
  have rd: "som_ready late_som" unfolding late_som_def by (rule shipped_som_ready[OF demo_ready])
  have "imu_sane (snd (iteration_input tty_asio late_som))" using late_som_reads(1) demo_packets_ok(3) by simp
  from som_iteration_ready[OF rd this, where M = shm_mq and pad = 0 and w = demo_shm]
  obtain som' w' where i: "som_iteration tty_asio shm_mq 0 (late_som, demo_shm) = Inr (som', w')" by blast
  then have r: "repeat_res 1 (som_iteration tty_asio shm_mq 0) (late_som, demo_shm) = Inr (som', w')" by simp
  have s: "stream tty_incoming (m_serialController late_som) = packets_bytes [(default_RcRxPacket, default_ImuPacket)]"
    by (simp add: late_som_def shipped_som_def shipped_serial_def demo_port_def stream_def tty_incoming_def)
  have c: "serialReads (m_debugMessage som') = 1"
    using i
  proof (rule som_iterationE)
    fix r som1 im som2 c som3
    assume "som_read_rc tty_asio late_som = (r, som1)" "som_read_imu tty_asio som1 = (im, som2)"
      "som_control som2 r im = Inr (c, som3)" "som' = som_write tty_asio som3 c im"
    then show ?thesis using late_som_reads(2)
      by (auto simp: som_control_def som_write_def count_write_def res_simps split: prod.splits)
  qed
  have "serialReads (m_debugMessage late_som) = 0" by (simp add: late_som_def shipped_som_def default_DebugMessage_def)
  with resync_iff[OF tty_asio_ok s r] c obtain a b ph where k: "a \<le> 1" "b \<le> 1" "of_nat (a + b) = (1 :: u32)"
    "stream tty_incoming (m_serialController som')
      = drop ph (packets_bytes (drop ((9 * a + 28 * b) div 37) [(default_RcRxPacket, default_ImuPacket)]))"
    "(9 * a + 28 * b) mod 37 = ph" by auto
  then have "a = 0 \<and> b = 1 \<or> a = 1 \<and> b = 0" by (cases a; cases b) auto
  with k have "ph \<in> {9, 28} \<and> stream tty_incoming (m_serialController som')
      = drop ph (packets_bytes [(default_RcRxPacket, default_ImuPacket)])" by (elim disjE) simp_all
  with i c show ?thesis by blast
qed

subsection \<open>Waiting\<close>

text \<open>
  C20 Real time: on a port whose operations end no later than their timeouts, \<open>n\<close> iterations of the main loop wait at
  most \<open>n\<close> times two read timeouts and a write timeout (1.5 seconds as shipped), whatever arrives, and the
  handshake at most two read timeouts for the flush, a write timeout and a read timeout per attempt (11.5
  seconds). The roll controller integrates with 40 milliseconds nevertheless.
\<close>
theorem waits_bounded:
  assumes "asio_timed A clk"
  defines "rt \<equiv> \<lambda>som. unat (c_readTimeoutMs (m_serialController som))"
    and "wt \<equiv> \<lambda>som. unat (c_writeTimeoutMs (m_serialController som))"
    and "now \<equiv> \<lambda>som. clk (m_serialPort (m_serialController som))"
  shows "(repeat_res n (som_iteration A M pad) (som, w) = Inr (som', w')
      \<longrightarrow> now som \<le> now som' \<and> now som' \<le> now som + n * (2 * rt som + wt som))
    \<and> (handshakeMCU A som = Inr (ok, som')
      \<longrightarrow> now som' \<le> now som + (2 + unat (c_handshakeAttempts som)) * rt som + wt som)"
  using som_iterations_waited[OF assms(1), of n M pad som w som' w'] handshakeMCU_waited[OF assms(1), of som ok som']
  by (auto simp: waited_def rt_def wt_def now_def)

definition silent_asio :: "nat asio" where
  \<comment> \<open>a line on which nothing comes and nothing goes; the port is its clock\<close>
  "silent_asio = \<lparr>asio_open = (\<lambda>dev d. Some d), asio_baud_rate = (\<lambda>b d. Some d),
     asio_read = (\<lambda>n t d. (Pending, [], d + t)), asio_read_until = (\<lambda>dl buf t d. (Pending, [], d + t)),
     asio_write = (\<lambda>bs t d. (Pending, d + t)), asio_cancel = (\<lambda>d. d)\<rparr>"

lemma silent_timed: "asio_timed silent_asio (\<lambda>d. d)"
  by (simp add: asio_timed_def silent_asio_def)

theorem waits_bounded_witness:
  "\<exists>som' w'. repeat_res 4 (som_iteration silent_asio shm_mq 0) (shipped_som (shipped_serial 0) demo_tx, demo_shm)
      = Inr (som', w') \<and> m_serialPort (m_serialController som') \<le> 6000"
proof -
  let ?P = "\<lambda>x :: (nat, qid) SomController \<times> shm. som_ready (fst x)"
    and ?b = "som_iteration silent_asio shm_mq 0 :: (nat, qid) SomController \<times> shm \<Rightarrow> _"
  have "snd (iteration_input silent_asio s) = default_ImuPacket" for s :: "(nat, qid) SomController"
    by (simp add: iteration_input_def som_read_rc_def som_read_imu_def readPacket_def silent_asio_def default_ReadResult_def)
  then have body: "\<exists>y. ?b x = Inr y \<and> ?P y" if "?P x" for x
    using som_iteration_ready[OF that, of silent_asio shm_mq 0 "snd x"] demo_packets_ok(3) by (cases x) auto
  have "?P (shipped_som (shipped_serial 0) demo_tx, demo_shm)" using shipped_som_ready[OF demo_ready] by simp
  from repeat_res_defined[where P = ?P and body = ?b, OF body this, of 4] obtain som' w' where
    "repeat_res 4 ?b (shipped_som (shipped_serial 0) demo_tx, demo_shm) = Inr (som', w')" by auto
  with waits_bounded[OF silent_timed, where n = 4 and M = shm_mq and pad = 0 and w = demo_shm and w' = w' and som' = som'
      and som = "shipped_som (shipped_serial 0) demo_tx"]
  show ?thesis by (auto simp: shipped_som_def shipped_serial_def)
qed

subsection \<open>Late commands\<close>

text \<open>
  C25 What a late command costs: over a line that brings the firmware whole commands, \<open>k\<close> of them in time for the read
  of a round, the commands themselves are not affected (they are those of the manager on the readings of each round), but
  the servo of round \<open>i\<close> follows the command of round \<open>i - d\<close>, where \<open>d\<close> is the largest backlog of the line in any round so
  far. As one command is read per round, a delay is never made up for, however prompt the line is afterwards.
\<close>
theorem late_commands:
  assumes "asio_ok A rx tx" "asio_prompt A rx P" "arrive_ok rx tx P arrive"
    and "in_step rx P (m_serialController som) [] []" "som_ready som"
    and "\<forall>(inp, k) \<in> set iks. pulses_ok inp \<and> imu_sane (in_mpu inp)"
    and "\<forall>j < length iks. sum_list (take (Suc j) (map snd iks)) \<le> Suc j"
  shows "\<exists>m' som' w' servos cs. late_flight A M pad arrive tx (map (\<lambda>(inp, k). (inp, 4 * k)) iks) (m, som, w) [] []
      = Inr ((m', som', w'), servos)
    \<and> run_triggers (\<lambda>m c r i. AutopilotManager_trigger (m_autopilotUtility som) m r i)
        (m_autopilotManager som) (map (\<lambda>(inp, k). (sticks_of inp, in_mpu inp)) iks)
      = Inr (m_autopilotManager som', cs)
    \<and> length cs = length iks \<and> length servos = length iks
    \<and> (\<forall>i < length iks. let d = Max ((\<lambda>j. Suc j - sum_list (take (Suc j) (map snd iks))) ` {..i})
        in servos ! i = servo_of (if d \<le> i then cs ! (i - d) else mcu_csPacket m))"
proof -
  let ?ks = "map snd iks"
  from late_flight_run[OF assms(1-6), where got = "[]" and wire = "[]" and M = M and pad = pad and m = m and w = w]
  obtain m' som' w' cs where
    1: "late_flight A M pad arrive tx (map (\<lambda>(inp, k). (inp, 4 * k)) iks) (m, som, w) [] []
      = Inr ((m', som', w'), map servo_of (late_run (mcu_csPacket m) [] [] (zip cs ?ks)))"
    and 2: "length cs = length iks" "run_triggers (\<lambda>m c r i. AutopilotManager_trigger (m_autopilotUtility som) m r i)
        (m_autopilotManager som) (map (\<lambda>(inp, k). (sticks_of inp, in_mpu inp)) iks) = Inr (m_autopilotManager som', cs)"
    by auto
  have ks: "\<forall>j < length ?ks. sum_list (take (Suc j) ?ks) \<le> 0 + Suc j" using assms(7) by simp
  have "let d = Max ((\<lambda>j. Suc j - sum_list (take (Suc j) ?ks)) ` {..i})
      in late_run (mcu_csPacket m) [] [] (zip cs ?ks) ! i = (if d \<le> i then cs ! (i - d) else mcu_csPacket m)"
    if "i < length iks" for i
    using late_run_lags[of cs ?ks i "[]" "mcu_csPacket m" "[]"] lags_worst[of i ?ks 0 0, OF _ ks] ks 2(1) that by (simp add: Let_def)
  then have "\<forall>i < length iks. let d = Max ((\<lambda>j. Suc j - sum_list (take (Suc j) ?ks)) ` {..i})
      in map servo_of (late_run (mcu_csPacket m) [] [] (zip cs ?ks)) ! i
        = servo_of (if d \<le> i then cs ! (i - d) else mcu_csPacket m)"
    using 2(1) by (simp add: Let_def)
  moreover have "length (map servo_of (late_run (mcu_csPacket m) [] [] (zip cs ?ks))) = length iks" using 2(1) by simp
  ultimately show ?thesis using 1 2 by blast
qed

theorem late_commands_witness:
  \<comment> \<open>the first command is late, all the others are in time\<close>
  "\<exists>m' som' w' servos cs. late_flight tty_asio shm_mq 0 tty_arrive tty_tx
      (zip (demo_inputs @ demo_inputs) [0, 8, 4, 4]) (new_Mcu, demo_som [], demo_shm) [] [] = Inr ((m', som', w'), servos)
    \<and> length cs = 4 \<and> servos ! 0 = servo_of default_ControlSurfacePacket \<and> servos ! 3 = servo_of (cs ! 2)"
proof -
  let ?iks = "zip (demo_inputs @ demo_inputs) [0 :: nat, 2, 1, 1]"
  have s: "in_step tty_incoming tty_here (m_serialController (demo_som [])) [] []"
    using demo_in_step[of "[]" "[]"] by simp
  have i: "\<forall>(inp, k) \<in> set ?iks. pulses_ok inp \<and> imu_sane (in_mpu inp)"
    using demo_packets_ok by (simp add: demo_inputs_def pulses_ok_def pin_defs)
  have k: "map snd ?iks = [0, 2, 1, 1]" "length ?iks = 4" by (simp_all add: demo_inputs_def)
  have "\<forall>j < 4. sum_list (take (Suc j) [0, 2, 1, 1]) \<le> Suc j" by (auto simp: less_Suc_eq eval_nat_numeral)
  from late_commands[OF tty_asio_ok tty_prompt tty_arrive_ok s demo_som_ready i, unfolded k, OF this,
      where M = shm_mq and pad = 0 and m = new_Mcu and w = demo_shm] obtain m' som' w' servos cs where
    1: "late_flight tty_asio shm_mq 0 tty_arrive tty_tx (map (\<lambda>(inp, k). (inp, 4 * k)) ?iks) (new_Mcu, demo_som [], demo_shm) [] []
        = Inr ((m', som', w'), servos)" "length cs = 4"
    and 2: "\<forall>i < 4. let d = Max ((\<lambda>j. Suc j - sum_list (take (Suc j) [0, 2, 1, 1])) ` {..i})
        in servos ! i = servo_of (if d \<le> i then cs ! (i - d) else mcu_csPacket new_Mcu)" by blast
  have "map (\<lambda>(inp, k). (inp, 4 * k)) ?iks = zip (demo_inputs @ demo_inputs) [0, 8, 4, 4]" by (simp add: demo_inputs_def)
  moreover have "{..3 :: nat} = {0, 1, 2, 3}" by auto
  ultimately show ?thesis using 1 2[rule_format, of 0] 2[rule_format, of 3]
    by (auto simp: Let_def eval_nat_numeral new_Mcu_def)
qed

subsection \<open>The process\<close>

text \<open>
  C17 The process with its two threads does what \<^verbatim>\<open>main\<close> of the functional model does: whatever the interleaving of the main
  thread, the signal handler, the completions and the return of \<^verbatim>\<open>run()\<close>, the process ends as \<open>som_session\<close> does with a service that is found
  stopped from the \<open>k\<close>-th test on, for some \<open>k\<close>, and for every \<open>k\<close> there is an interleaving that ends like that. So
  what is proved of \<^verbatim>\<open>runMainLoop\<close> over a sequence of answers of \<^verbatim>\<open>stopped()\<close> holds of the program.
\<close>
theorem process_outcomes:
  "(\<exists>es q. process_run A M pad (process_start som w) es q \<and> som_pc q = Ended r)
    \<longleftrightarrow> (\<exists>k. som_session A M pad (\<lambda>i. k \<le> i) som w = Some r)"
proof
  assume "\<exists>es q. process_run A M pad (process_start som w) es q \<and> som_pc q = Ended r"
  then obtain k where "outcome A M pad (\<lambda>i. 0 + k \<le> i) 0 (process_start som w) = Some r"
    using process_run_outcome[where n = 0] by blast
  then show "\<exists>k. som_session A M pad (\<lambda>i. k \<le> i) som w = Some r"
    by (auto simp: outcome_simps process_start_def)
qed (use outcome_ends in \<open>auto simp: ends_def\<close>)

text \<open>
  C18 The end of the process. It returns a status only after a \<^verbatim>\<open>SIGINT\<close> was handled: after a failed handshake, too, \<^verbatim>\<open>stopIoThread\<close>
  waits for the signal, since resetting the work guard leaves the signal wait outstanding. Once the signal was handled the process can end from
  every state it can have reached. When the service has stopped, the main loop completes the iteration in progress at most,
  which is what the header promises.
\<close>
theorem process_ends:
  assumes "process_run A M pad (process_start som w) es p"
  shows "(\<forall>st. som_pc p = Ended (Inr st) \<longrightarrow> Io Signal \<in> set es)
    \<and> (Io Signal \<in> set es \<longrightarrow> (\<exists>fs q r. process_run A M pad p fs q \<and> som_pc q = Ended r))
    \<and> (is_stopped (som_io p) \<longrightarrow> (\<forall>fs q. process_run A M pad p fs q \<longrightarrow> count_list fs (Main AtBody) \<le> 1))"
proof -
  have i: "process_inv p" using process_inv_run[OF assms process_inv_start] .
  have s: "signals (som_io p) \<noteq> 0 \<longleftrightarrow> Io Signal \<in> set es"
    using process_signals[OF assms] by (simp add: process_start_def io_constructed_def count_list_0_iff)
  have "signals (som_io p) \<noteq> 0" if "som_pc p = Ended (Inr st)" for st
    using i that by (auto simp: process_inv_def io_inv_def)
  moreover have "\<exists>fs q r. process_run A M pad p fs q \<and> som_pc q = Ended r" if "signals (som_io p) \<noteq> 0"
    using signal_ends[OF i that, of A M pad] unfolding ends_def by blast
  moreover have "count_list fs (Main AtBody) \<le> 1" if "is_stopped (som_io p)" "process_run A M pad p fs q" for fs q
    using process_bodies[OF that(2) i that(1)] by (auto split: if_splits)
  ultimately show ?thesis using s by blast
qed

theorem process_ends_witness:
  "\<exists>fs q r. process_run tty_asio shm_mq 0 (process_start (demo_som []) demo_shm
      \<lparr>som_pc := AtHandshake, som_io := io_constructed\<lparr>thread := Running, signal_wait := False, work_guard := False, signals := 1\<rparr>\<rparr>) fs q
    \<and> som_pc q = Ended r"
proof -
  have "process_run tty_asio shm_mq 0 (process_start (demo_som []) demo_shm) [Main AtStart, Io Signal]
    (process_start (demo_som []) demo_shm
      \<lparr>som_pc := AtHandshake, som_io := io_constructed\<lparr>thread := Running, signal_wait := False, work_guard := False, signals := 1\<rparr>\<rparr>)"
    (is "process_run _ _ _ ?p _ ?q")
  proof (rule process_run.Cons)
    have "som_pc ?p = AtStart" by (simp add: process_start_def)
    then show "process_step tty_asio shm_mq 0 ?p (Main AtStart) (?p\<lparr>som_pc := AtHandshake, som_io := startIoThread (som_io ?p)\<rparr>)"
      using process_step.Main[of ?p tty_asio shm_mq 0] by (simp add: main_enabled_def main_step_simps)
    have "io_step (startIoThread (som_io ?p)) Signal (som_io ?q)"
      by (simp add: io_step_simps startIoThread_def process_start_def io_constructed_def)
    then show "process_run tty_asio shm_mq 0 (?p\<lparr>som_pc := AtHandshake, som_io := startIoThread (som_io ?p)\<rparr>) [Io Signal] ?q"
      using process_step.IoThread[of Signal "?p\<lparr>som_pc := AtHandshake, som_io := startIoThread (som_io ?p)\<rparr>" _ tty_asio shm_mq 0]
      by (auto simp: process_run_simps process_start_def)
  qed
  from process_ends[OF this] show ?thesis by simp
qed

subsection \<open>Log text\<close>

text \<open>
  C34 What the log is good for: the line of a handshake, receiver or control surface packet and of a debug or onboard
  message determines it, since no two different ones print the same text; the line of an IMU packet does not, as its
  floats are printed with six digits.
\<close>
theorem log_text_determines:
  "(show_HandshakePacket h = show_HandshakePacket h' \<longleftrightarrow> h = h')
   \<and> (show_RcRxPacket r = show_RcRxPacket r' \<longleftrightarrow> r = r')
   \<and> (show_ControlSurfacePacket c = show_ControlSurfacePacket c' \<longleftrightarrow> c = c')
   \<and> (show_DebugMessage d = show_DebugMessage d' \<longleftrightarrow> d = d')
   \<and> (show_OnboardStateMessage b = Inr s \<and> show_OnboardStateMessage b' = Inr s \<longrightarrow> b = b')
   \<and> (\<exists>i i'. i \<noteq> i' \<and> show_ImuPacket i = show_ImuPacket i')"
proof -
  have "show_float 0x41C80001 = ''25''" by code_simp
  then have "show_ImuPacket (default_ImuPacket\<lparr>gyroX := 0x41C80000\<rparr>)
      = show_ImuPacket (default_ImuPacket\<lparr>gyroX := 0x41C80001\<rparr>)"
    by (simp add: show_ImuPacket_def show_float_examples)
  moreover have "default_ImuPacket\<lparr>gyroX := 0x41C80000\<rparr> \<noteq> default_ImuPacket\<lparr>gyroX := 0x41C80001\<rparr>"
    by (simp add: default_ImuPacket_def)
  ultimately show ?thesis
    using show_HandshakePacket_inject show_RcRxPacket_inject show_ControlSurfacePacket_inject
      show_DebugMessage_inject show_OnboardStateMessage_inject by blast
qed

theorem log_text_determines_witness:
  "show_OnboardStateMessage default_OnboardStateMessage
   \<noteq> show_OnboardStateMessage (default_OnboardStateMessage\<lparr>throttle := 255\<rparr>)"
proof
  assume e: "show_OnboardStateMessage default_OnboardStateMessage
    = show_OnboardStateMessage (default_OnboardStateMessage\<lparr>throttle := 255\<rparr>)"
  have "loggable default_OnboardStateMessage" by (simp add: loggable_def default_OnboardStateMessage_def)
  then obtain s where "show_OnboardStateMessage default_OnboardStateMessage = Inr s"
    using loggable_iff by blast
  with e log_text_determines[where b = default_OnboardStateMessage and s = s
      and b' = "default_OnboardStateMessage\<lparr>throttle := 255\<rparr>"]
  have "default_OnboardStateMessage = default_OnboardStateMessage\<lparr>throttle := 255\<rparr>" by auto
  then show False by (simp add: default_OnboardStateMessage_def)
qed

end
